(* ===== verification/Prelude.thy ===== *)
theory Prelude
  imports Main "HOL-Library.AList" "HOL-Library.List_Lexorder" "HOL-Library.Char_ord"
begin

text \<open>
  Shared vocabulary of the development: the parts of Go's \<^verbatim>\<open>strings\<close>, \<^verbatim>\<open>sort\<close>,
  \<^verbatim>\<open>strconv\<close> and \<^verbatim>\<open>fmt\<close> packages that the program uses, ordered association lists
  (Go maps, whose list order stands for the iteration order the language leaves open, and
  insertion-ordered Starlark dicts), and the generic lemmas the component theories share.

  Strings are byte strings (\<^typ>\<open>char list\<close>), as Go strings are; \<^const>\<open>sort\<close> on them is the
  bytewise order of \<^verbatim>\<open>sort.Strings\<close>.
\<close>

section \<open>Collections of rules\<close>

named_theorems go_strings \<open>evaluation of the string functions\<close>
named_theorems alist_simps \<open>lookup after update and delete on association lists\<close>

section \<open>Results\<close>

text \<open>A Go pair of a value and an error: \<^const>\<open>Inl\<close> carries the error.\<close>

definition bind_res :: "'e + 'a \<Rightarrow> ('a \<Rightarrow> 'e + 'b) \<Rightarrow> 'e + 'b" where
  "bind_res r f = (case r of Inl e \<Rightarrow> Inl e | Inr x \<Rightarrow> f x)"

lemma bind_res_simps [simp]:
  "bind_res (Inl e) f = Inl e"
  "bind_res (Inr x) f = f x"
  by (simp_all add: bind_res_def)

lemma bind_res_eq_Inr:
  "bind_res r f = Inr y \<longleftrightarrow> (\<exists>x. r = Inr x \<and> f x = Inr y)"
  by (cases r) auto

lemma bind_res_cong [fundef_cong]:
  "r = r' \<Longrightarrow> (\<And>x. r' = Inr x \<Longrightarrow> f x = g x) \<Longrightarrow> bind_res r f = bind_res r' g"
  by (cases r') auto

text \<open>A loop that stops at the first error.\<close>

fun map_res :: "('a \<Rightarrow> 'e + 'b) \<Rightarrow> 'a list \<Rightarrow> 'e + 'b list" where
  "map_res f [] = Inr []"
| "map_res f (x # xs) = bind_res (f x) (\<lambda>y. bind_res (map_res f xs) (\<lambda>ys. Inr (y # ys)))"

lemma map_res_cong [fundef_cong]:
  "xs = ys \<Longrightarrow> (\<And>x. x \<in> set ys \<Longrightarrow> f x = g x) \<Longrightarrow> map_res f xs = map_res g ys"
  by (induction xs arbitrary: ys) auto

lemma map_res_Inr_iff:
  "map_res f xs = Inr ys \<longleftrightarrow> list_all2 (\<lambda>x y. f x = Inr y) xs ys"
proof (induction xs arbitrary: ys)
  case (Cons x xs)
  show ?case by (cases ys) (auto simp: bind_res_eq_Inr Cons.IH)
qed auto

lemma map_res_length: "map_res f xs = Inr ys \<Longrightarrow> length ys = length xs"
  by (auto simp: map_res_Inr_iff dest: list_all2_lengthD)

section \<open>Memoisation\<close>

text \<open>
  The contract of a cache in front of a computation \<open>f\<close>: in every sound state a request for a key is answered
  with \<open>f\<close> of the key and leaves a sound state. The bytecode cache and the cache of regular expressions provide it.
\<close>

locale memo =
  fixes get :: "'k \<Rightarrow> 's \<Rightarrow> 'v \<times> 's" and f :: "'k \<Rightarrow> 'v" and K :: "'k set" and sound :: "'s \<Rightarrow> bool"
  assumes get_answer: "sound s \<Longrightarrow> k \<in> K \<Longrightarrow> fst (get k s) = f k"
    and get_sound: "sound s \<Longrightarrow> k \<in> K \<Longrightarrow> sound (snd (get k s))"
begin

lemma fold_sound: "sound s \<Longrightarrow> set ks \<subseteq> K \<Longrightarrow> sound (fold (\<lambda>k s. snd (get k s)) ks s)"
  by (induction ks arbitrary: s) (auto intro: get_sound)

lemma transparent: "sound s \<Longrightarrow> set ks \<subseteq> K \<Longrightarrow> k \<in> K \<Longrightarrow> fst (get k (fold (\<lambda>k s. snd (get k s)) ks s)) = f k"
  by (rule get_answer [OF fold_sound])

end

section \<open>Association lists\<close>

text \<open>
  \<^const>\<open>AList.update\<close> keeps the position of a key that is present and appends a new one: the
  behaviour of a Starlark dict's insertion order.
\<close>

lemma map_of_update [alist_simps, simp]:
  "map_of (AList.update k v al) k' = (if k' = k then Some v else map_of al k')"
  by (simp add: update_conv)

lemma map_of_delete' [alist_simps]:
  "map_of (AList.delete k al) k' = (if k' = k then None else map_of al k')"
  by (simp add: delete_conv)

lemma keys_update [simp]:
  "fst ` set (AList.update k v al) = insert k (fst ` set al)"
  by (induction al) auto

lemma set_keys_update [simp]:
  "set (map fst (AList.update k v al)) = insert k (set (map fst al))"
  by simp

lemma distinct_keys_update [intro, simp]:
  "distinct (map fst al) \<Longrightarrow> distinct (map fst (AList.update k v al))"
  by (rule distinct_update)

lemma distinct_keys_delete [intro, simp]:
  "distinct (map fst al) \<Longrightarrow> distinct (map fst (AList.delete k al))"
  by (rule distinct_delete)

lemma update_append_fresh:
  "k \<notin> fst ` set al \<Longrightarrow> AList.update k v al = al @ [(k, v)]"
  by (induction al) auto

section \<open>Go's string functions\<close>

text \<open>\<^verbatim>\<open>strings.HasPrefix\<close>, \<^verbatim>\<open>strings.HasSuffix\<close>, \<^verbatim>\<open>strings.TrimPrefix\<close>, \<^verbatim>\<open>strings.TrimSuffix\<close>.\<close>

definition has_prefix :: "string \<Rightarrow> string \<Rightarrow> bool" where
  "has_prefix s p \<longleftrightarrow> take (length p) s = p"

definition has_suffix :: "string \<Rightarrow> string \<Rightarrow> bool" where
  "has_suffix s p \<longleftrightarrow> length p \<le> length s \<and> drop (length s - length p) s = p"

definition trim_prefix :: "string \<Rightarrow> string \<Rightarrow> string" where
  "trim_prefix s p = (if has_prefix s p then drop (length p) s else s)"

definition trim_suffix :: "string \<Rightarrow> string \<Rightarrow> string" where
  "trim_suffix s p = (if has_suffix s p then take (length s - length p) s else s)"

text \<open>\<^verbatim>\<open>strings.TrimRight\<close> and \<^verbatim>\<open>strings.TrimSpace\<close> (the ASCII white space).\<close>

definition trim_right :: "string \<Rightarrow> string \<Rightarrow> string" where
  "trim_right s cutset = rev (dropWhile (\<lambda>c. c \<in> set cutset) (rev s))"

definition ascii_space :: string where
  "ascii_space = [CHR 0x09, CHR 0x0A, CHR 0x0B, CHR 0x0C, CHR 0x0D, CHR 0x20]"

definition trim_space :: "string \<Rightarrow> string" where
  "trim_space s = trim_right (dropWhile (\<lambda>c. c \<in> set ascii_space) s) ascii_space"

text \<open>\<^verbatim>\<open>strings.Index\<close>, \<^verbatim>\<open>strings.LastIndex\<close> (\<^const>\<open>None\<close> for -1) and \<^verbatim>\<open>strings.Contains\<close>.\<close>

fun index_of :: "string \<Rightarrow> string \<Rightarrow> nat option" where
  "index_of [] sub = (if sub = [] then Some 0 else None)"
| "index_of (c # cs) sub =
     (if has_prefix (c # cs) sub then Some 0 else map_option Suc (index_of cs sub))"

fun last_index_of :: "string \<Rightarrow> string \<Rightarrow> nat option" where
  "last_index_of [] sub = (if sub = [] then Some 0 else None)"
| "last_index_of (c # cs) sub =
     (case last_index_of cs sub of
        Some i \<Rightarrow> Some (Suc i)
      | None \<Rightarrow> if has_prefix (c # cs) sub then Some 0 else None)"

definition contains :: "string \<Rightarrow> string \<Rightarrow> bool" where
  "contains s sub \<longleftrightarrow> index_of s sub \<noteq> None"

text \<open>\<^verbatim>\<open>strings.Split\<close> at a one-byte separator, and \<^verbatim>\<open>strings.Join\<close>.\<close>

fun split_on :: "char \<Rightarrow> string \<Rightarrow> string list" where
  "split_on sep [] = [[]]"
| "split_on sep (c # cs) =
     (if c = sep then [] # split_on sep cs
      else (case split_on sep cs of [] \<Rightarrow> [[c]] | p # ps \<Rightarrow> (c # p) # ps))"

fun join :: "string \<Rightarrow> string list \<Rightarrow> string" where
  "join sep [] = []"
| "join sep [p] = p"
| "join sep (p # q # ps) = p @ sep @ join sep (q # ps)"

text \<open>\<^verbatim>\<open>%d\<close> of a length.\<close>

definition digit_char :: "nat \<Rightarrow> char" where
  "digit_char n = char_of (48 + n)"

fun show_nat :: "nat \<Rightarrow> string" where
  "show_nat n = (if n < 10 then [digit_char n] else show_nat (n div 10) @ [digit_char (n mod 10)])"

declare show_nat.simps [simp del]

text \<open>
  \<^verbatim>\<open>%q\<close>, that is \<^verbatim>\<open>strconv.Quote\<close>: the quote, the backslash and the control characters are
  escaped. Bytes from 0x80 up are kept as they are, which is what Quote does with the
  bytes of printable UTF-8 text.
\<close>

definition hex_digit :: "nat \<Rightarrow> char" where
  "hex_digit n = (if n < 10 then char_of (48 + n) else char_of (87 + n))"

definition hex_byte :: "nat \<Rightarrow> string" where
  "hex_byte n = [hex_digit (n div 16), hex_digit (n mod 16)]"

definition quote_char :: "char \<Rightarrow> string" where
  "quote_char c =
     (if c = CHR 0x22 then [CHR 0x5C, CHR 0x22]
      else if c = CHR 0x5C then [CHR 0x5C, CHR 0x5C]
      else if c = CHR 0x07 then [CHR 0x5C, CHR ''a'']
      else if c = CHR 0x08 then [CHR 0x5C, CHR ''b'']
      else if c = CHR 0x0C then [CHR 0x5C, CHR ''f'']
      else if c = CHR 0x0A then [CHR 0x5C, CHR ''n'']
      else if c = CHR 0x0D then [CHR 0x5C, CHR ''r'']
      else if c = CHR 0x09 then [CHR 0x5C, CHR ''t'']
      else if c = CHR 0x0B then [CHR 0x5C, CHR ''v'']
      else if (of_char c :: nat) < 32 \<or> c = CHR 0x7F
        then CHR 0x5C # CHR ''x'' # hex_byte (of_char c)
      else [c])"

definition go_quote :: "string \<Rightarrow> string" where
  "go_quote s = CHR 0x22 # concat (map quote_char s) @ [CHR 0x22]"

subsection \<open>Lemmas\<close>

lemma has_prefix_append [simp]: "has_prefix (p @ s) p"
  by (simp add: has_prefix_def)

lemma has_prefix_iff: "has_prefix s p \<longleftrightarrow> (\<exists>t. s = p @ t)"
  by (metis append_take_drop_id has_prefix_append has_prefix_def)

lemma has_suffix_append [simp]: "has_suffix (s @ p) p"
  by (simp add: has_suffix_def)

lemma has_suffix_iff: "has_suffix s p \<longleftrightarrow> (\<exists>t. s = t @ p)"
  by (metis append_take_drop_id has_suffix_append has_suffix_def)

lemma trim_prefix_append [simp]: "trim_prefix (p @ s) p = s"
  by (simp add: trim_prefix_def)

lemma index_of_SomeD: "index_of s sub = Some i \<Longrightarrow> \<exists>b. s = take i s @ sub @ b \<and> i \<le> length s"
proof (induction s arbitrary: i)
  case (Cons c cs)
  show ?case
  proof (cases "has_prefix (c # cs) sub")
    case True
    with Cons.prems show ?thesis by (auto simp: has_prefix_iff)
  next
    case False
    with Cons show ?thesis by fastforce
  qed
qed (auto split: if_splits)

lemma contains_Nil [simp]: "contains [] sub \<longleftrightarrow> sub = []"
  by (simp add: contains_def)

lemma contains_Cons [simp]: "contains (c # cs) sub \<longleftrightarrow> has_prefix (c # cs) sub \<or> contains cs sub"
  by (simp add: contains_def)

lemma contains_iff: "contains s sub \<longleftrightarrow> (\<exists>a b. s = a @ sub @ b)"
proof (induction s)
  case (Cons c cs)
  have "(\<exists>a b. c # cs = a @ sub @ b) \<longleftrightarrow> (\<exists>b. c # cs = sub @ b) \<or> (\<exists>a b. cs = a @ sub @ b)"
    by (metis (no_types, lifting) append_Cons append_Nil list.sel(3) tl_append2)
  with Cons show ?case by (simp add: has_prefix_iff)
qed simp

lemma contains_char: "contains s [c] \<longleftrightarrow> c \<in> set s"
  by (auto simp: contains_iff in_set_conv_decomp)

lemma split_on_neq_Nil [simp]: "split_on sep s \<noteq> []"
  by (induction s) (auto split: list.splits)

lemma join_Cons: "ps \<noteq> [] \<Longrightarrow> join sep (p # ps) = p @ sep @ join sep ps"
  by (cases ps) auto

lemma join_Cons_char: "join sep ((c # p) # ps) = c # join sep (p # ps)"
  by (cases ps) auto

lemma join_split_on: "join [sep] (split_on sep s) = s"
  by (induction s) (auto simp: join_Cons join_Cons_char split: list.splits)

lemma split_on_no_sep: "p \<in> set (split_on sep s) \<Longrightarrow> sep \<notin> set p"
  by (induction s arbitrary: p) (auto split: list.splits if_splits)

lemma split_on_append: "sep \<notin> set p \<Longrightarrow> split_on sep (p @ sep # s) = p # split_on sep s"
  by (induction p) auto

lemma split_on_single: "sep \<notin> set p \<Longrightarrow> split_on sep p = [p]"
  by (induction p) auto

lemma split_on_join:
  "ps \<noteq> [] \<Longrightarrow> (\<And>p. p \<in> set ps \<Longrightarrow> sep \<notin> set p) \<Longrightarrow> split_on sep (join [sep] ps) = ps"
proof (induction "[sep]" ps rule: join.induct)
  case (3 p q ps)
  then show ?case by (simp add: split_on_append)
qed (auto simp: split_on_single)

lemma trim_right_length: "length (trim_right s cs) \<le> length s"
  using length_dropWhile_le [of "\<lambda>c. c \<in> set cs" "rev s"] by (simp add: trim_right_def)

lemma trim_right_id: "s = [] \<or> last s \<notin> set cs \<Longrightarrow> trim_right s cs = s"
  by (cases s rule: rev_cases) (auto simp: trim_right_def)

lemma trim_right_last: "trim_right s cs = [] \<or> last (trim_right s cs) \<notin> set cs"
proof -
  have "dropWhile (\<lambda>c. c \<in> set cs) (rev s) = [] \<or> hd (dropWhile (\<lambda>c. c \<in> set cs) (rev s)) \<notin> set cs"
    using hd_dropWhile by blast
  then show ?thesis by (auto simp: trim_right_def last_rev)
qed

end
