(* ===== verification/Proto.thy ===== *)
theory Proto
  imports Prelude Complex_Main
begin

text \<open>
  Protobuf values as the program reads them (\<^verbatim>\<open>structpb.Struct\<close>, \<^verbatim>\<open>structpb.Value\<close>) with the
  nil-safe generated getters, and IEEE doubles as far as the code looks at them.
\<close>

section \<open>Doubles\<close>

text \<open>
  A \<^verbatim>\<open>float64\<close>: not a number, the two infinities, negative zero, or a finite number given by
  its exact value. Every double has exactly one representation here; the finite numbers of the
  model include rationals that no double has, so a theorem over all of them covers the doubles.
\<close>

datatype float64 = FNaN | FInf bool | FNegZero | FFin rat

text \<open>The comparison \<^verbatim>\<open>f == 0\<close>: both zeros are equal to zero, NaN is not.\<close>

fun f_is_zero :: "float64 \<Rightarrow> bool" where
  "f_is_zero FNegZero = True"
| "f_is_zero (FFin r) = (r = 0)"
| "f_is_zero _ = False"

section \<open>Structs and values\<close>

text \<open>
  \<open>PNil\<close> stands for a nil \<^verbatim>\<open>*Value\<close> and for a value whose kind is not set: the getters
  and the type switches of the program treat the two alike. A struct is its field map; the
  order of the list is the iteration order of the Go map.
\<close>

datatype pvalue =
    PNil
  | PNull
  | PNum float64
  | PStr string
  | PBool bool
  | PStruct "(string \<times> pvalue) list"
  | PList "pvalue list"

type_synonym pstruct = "(string \<times> pvalue) list"

text \<open>\<^verbatim>\<open>s.GetFields()[k]\<close> (nil for a missing key), \<^verbatim>\<open>GetStringValue\<close> (empty unless the value is a
  string), \<^verbatim>\<open>GetStructValue\<close> and \<^verbatim>\<open>GetListValue\<close> (nil unless the value is one), and the getters
  on a nil message.\<close>

definition pfield :: "pstruct \<Rightarrow> string \<Rightarrow> pvalue" where
  "pfield s k = (case map_of s k of None \<Rightarrow> PNil | Some v \<Rightarrow> v)"

fun pstring :: "pvalue \<Rightarrow> string" where
  "pstring (PStr s) = s"
| "pstring _ = []"

fun pstruct_of :: "pvalue \<Rightarrow> pstruct option" where
  "pstruct_of (PStruct s) = Some s"
| "pstruct_of _ = None"

fun plist_of :: "pvalue \<Rightarrow> pvalue list option" where
  "plist_of (PList vs) = Some vs"
| "plist_of _ = None"

definition pfields :: "pstruct option \<Rightarrow> pstruct" where
  "pfields s = (case s of None \<Rightarrow> [] | Some fs \<Rightarrow> fs)"

abbreviation psub :: "pvalue \<Rightarrow> string \<Rightarrow> pvalue" where
  "psub v k \<equiv> pfield (pfields (pstruct_of v)) k"

definition pvalues :: "pvalue list option \<Rightarrow> pvalue list" where
  "pvalues l = (case l of None \<Rightarrow> [] | Some vs \<Rightarrow> vs)"

lemma pfields_simps [simp]: "pfields None = []" "pfields (Some fs) = fs"
  by (simp_all add: pfields_def)

lemma pvalues_simps [simp]: "pvalues None = []" "pvalues (Some vs) = vs"
  by (simp_all add: pvalues_def)

lemma pfield_Nil [simp]: "pfield [] k = PNil"
  by (simp add: pfield_def)

lemma pfield_Cons [simp]: "pfield ((k', v) # s) k = (if k = k' then v else pfield s k)"
  by (simp add: pfield_def)

lemma pfield_update [simp]: "pfield (AList.update k v s) k' = (if k' = k then v else pfield s k')"
  by (simp add: pfield_def)

lemma pfield_delete [simp]: "pfield (AList.delete k s) k' = (if k' = k then PNil else pfield s k')"
  by (simp add: pfield_def map_of_delete')

text \<open>Well-formed values: the keys of every field map are distinct, at every depth.\<close>

primrec pvalue_wf :: "pvalue \<Rightarrow> bool" where
  "pvalue_wf PNil = True"
| "pvalue_wf PNull = True"
| "pvalue_wf (PNum f) = True"
| "pvalue_wf (PStr s) = True"
| "pvalue_wf (PBool b) = True"
| "pvalue_wf (PStruct fs) =
     (distinct (map fst fs) \<and> list_all id (map snd (map (map_prod id pvalue_wf) fs)))"
| "pvalue_wf (PList vs) = list_all id (map pvalue_wf vs)"

definition pstruct_wf :: "pstruct \<Rightarrow> bool" where
  "pstruct_wf s \<longleftrightarrow> distinct (map fst s) \<and> list_all (\<lambda>kv. pvalue_wf (snd kv)) s"

lemma pvalue_wf_struct [simp]: "pvalue_wf (PStruct fs) = pstruct_wf fs"
  by (auto simp: pstruct_wf_def list_all_iff)

lemma pvalue_wf_list [simp]: "pvalue_wf (PList vs) = list_all pvalue_wf vs"
  by (auto simp: list_all_iff)

lemmas pvalue_wf_simps = pvalue_wf.simps(1-5) pvalue_wf_struct pvalue_wf_list

declare pvalue_wf.simps(6,7) [simp del]

end
