(* ===== verification/Sequencer.thy ===== *)
theory Sequencer
  imports Proto
begin

text \<open>
  Creation sequencing, \<^verbatim>\<open>builtins/sequencer.go\<close>: the readiness tests on observed resources and
  \<^verbatim>\<open>Sequencer.Evaluate\<close>, which decides what to withhold from the desired state, with the
  records it shares with the collector (\<^verbatim>\<open>builtins/collector.go\<close>, \<^verbatim>\<open>builtins/conditions.go\<close>).
  The contract of a readiness test, on which the sequencer and the usage builder both rest, is the
  locale \<open>readiness\<close> at the end.
\<close>

section \<open>Data\<close>

record DependencyPair =
  Dependent :: string
  Dependency :: string
  IsRef :: bool
  FieldPath :: string

record CollectedEvent =
  ev_Severity :: string
  ev_Message :: string
  ev_Target :: string

record GatingDefer =
  gd_Name :: string
  gd_Reason :: string

record SequencerResult =
  Deferred :: "string list"
  Events :: "CollectedEvent list"
  GatingDefers :: "GatingDefer list"
  AnyDeferred :: bool

text \<open>
  \<^verbatim>\<open>map[string]*structpb.Struct\<close>: \<^term>\<open>None\<close> for an absent key, \<^term>\<open>Some None\<close> for a resource
  that is observed but has no body.
\<close>

type_synonym observed = "string \<rightharpoonup> pstruct option"

record Sequencer =
  sq_deps :: "DependencyPair list"
  sq_resourceNames :: "string list"
  sq_observedResources :: observed
  sq_ttlSeconds :: int

definition NewSequencer ::
  "DependencyPair list \<Rightarrow> string list \<Rightarrow> observed \<Rightarrow> int \<Rightarrow> Sequencer" where
  "NewSequencer deps resourceNames observedResources ttlSeconds =
     \<lparr>sq_deps = deps, sq_resourceNames = resourceNames,
      sq_observedResources = observedResources, sq_ttlSeconds = ttlSeconds\<rparr>"

section \<open>Conditions and readiness of an observed resource\<close>

definition hasCondition :: "pstruct option \<Rightarrow> string \<Rightarrow> string \<Rightarrow> bool" where
  "hasCondition res condType condStatus =
     (case res of None \<Rightarrow> False
      | Some s \<Rightarrow>
        (case pstruct_of (pfield s ''status'') of None \<Rightarrow> False
         | Some st \<Rightarrow>
           (case plist_of (pfield st ''conditions'') of None \<Rightarrow> False
            | Some conds \<Rightarrow>
              list_ex (\<lambda>item. case pstruct_of item of None \<Rightarrow> False
                 | Some cond \<Rightarrow> pfield cond ''type'' \<noteq> PNil \<and> pfield cond ''status'' \<noteq> PNil \<and>
                     pstring (pfield cond ''type'') = condType \<and>
                     pstring (pfield cond ''status'') = condStatus) conds)))"

definition isKubernetesObject :: "pstruct option \<Rightarrow> bool" where
  "isKubernetesObject res =
     (case res of None \<Rightarrow> False
      | Some s \<Rightarrow>
        if pfield s ''apiVersion'' = PNil then False
        else if \<not> contains (pstring (pfield s ''apiVersion'')) ''kubernetes.crossplane.io/'' \<and>
                \<not> contains (pstring (pfield s ''apiVersion'')) ''kubernetes.m.crossplane.io/''
          then False
        else pfield s ''kind'' \<noteq> PNil \<and> pstring (pfield s ''kind'') = ''Object'')"

definition getNestedConditions :: "pstruct option \<Rightarrow> pvalue list" where
  "getNestedConditions res =
     (case res of None \<Rightarrow> []
      | Some s \<Rightarrow>
      (case pstruct_of (pfield s ''status'') of None \<Rightarrow> []
      | Some status \<Rightarrow>
      (case pstruct_of (pfield status ''atProvider'') of None \<Rightarrow> []
      | Some atProvider \<Rightarrow>
      (case pstruct_of (pfield atProvider ''manifest'') of None \<Rightarrow> []
      | Some manifest \<Rightarrow>
      (case pstruct_of (pfield manifest ''status'') of None \<Rightarrow> []
      | Some nestedStatus \<Rightarrow>
      (case plist_of (pfield nestedStatus ''conditions'') of None \<Rightarrow> []
      | Some condList \<Rightarrow> condList))))))"

fun nestedConditionStatus :: "pvalue list \<Rightarrow> string \<Rightarrow> string option" where
  "nestedConditionStatus [] condType = None"
| "nestedConditionStatus (item # conds) condType =
     (if pstring (psub item ''type'') = condType then Some (pstring (psub item ''status''))
      else nestedConditionStatus conds condType)"

definition nestedUnmetReason :: "pvalue list \<Rightarrow> string \<Rightarrow> string" where
  "nestedUnmetReason conds label =
     (case nestedConditionStatus conds ''Ready'' of
        Some ready \<Rightarrow>
          if ready \<noteq> ''True'' then label @ '' nested resource to have Ready=True''
          else (case nestedConditionStatus conds ''Synced'' of
                  Some synced \<Rightarrow>
                    if synced \<noteq> ''True'' then label @ '' nested resource to have Synced=True'' else []
                | None \<Rightarrow> [])
      | None \<Rightarrow>
          if list_ex (\<lambda>item. pstring (psub item ''status'') \<noteq> ''True'') conds
          then label @ '' nested resource conditions not all True'' else [])"

definition unmetReadyReason :: "pstruct option \<Rightarrow> string \<Rightarrow> string" where
  "unmetReadyReason res nm =
     (if res = None
      then (if nm = [] then ''resource not observed'' else go_quote nm @ '' to be observed'')
      else
        let label = (if nm = [] then ''resource'' else go_quote nm);
            conds = getNestedConditions res
        in if isKubernetesObject res \<and> conds \<noteq> [] then nestedUnmetReason conds label
           else if \<not> hasCondition res ''Ready'' ''True'' then label @ '' to have Ready=True''
           else if \<not> hasCondition res ''Synced'' ''True'' then label @ '' to have Synced=True''
           else [])"

definition isObservedReady :: "pstruct option \<Rightarrow> bool" where
  "isObservedReady res \<longleftrightarrow> unmetReadyReason res [] = []"

section \<open>Field paths\<close>

fun isValueTruthy :: "pvalue \<Rightarrow> bool" where
  "isValueTruthy PNil = False"
| "isValueTruthy PNull = False"
| "isValueTruthy (PStr s) = (s \<noteq> [])"
| "isValueTruthy (PNum f) = (\<not> f_is_zero f)"
| "isValueTruthy (PBool b) = b"
| "isValueTruthy (PStruct fs) = True"
| "isValueTruthy (PList vs) = True"

fun isFieldReadyKeys :: "pstruct \<Rightarrow> string list \<Rightarrow> bool" where
  "isFieldReadyKeys current [] = False"
| "isFieldReadyKeys current [key] = isValueTruthy (pfield current key)"
| "isFieldReadyKeys current (key # k # keys) =
     (case pstruct_of (pfield current key) of None \<Rightarrow> False
      | Some nxt \<Rightarrow> isFieldReadyKeys nxt (k # keys))"

definition isFieldReady :: "pstruct option \<Rightarrow> string \<Rightarrow> bool" where
  "isFieldReady res fieldPath =
     (case res of None \<Rightarrow> False
      | Some s \<Rightarrow> isFieldReadyKeys s (split_on (CHR ''.'') fieldPath))"

section \<open>Evaluate\<close>

text \<open>The body of the first loop: the description of the unmet dependency, if it is unmet.\<close>

definition unmetDep :: "observed \<Rightarrow> DependencyPair \<Rightarrow> string option" where
  "unmetDep obs d =
     (case obs (Dependency d) of
        None \<Rightarrow> Some (go_quote (Dependency d) @ '' to be observed'')
      | Some res \<Rightarrow>
          if FieldPath d \<noteq> [] then
            (if \<not> isFieldReady res (FieldPath d)
             then Some (go_quote (Dependency d) @ '' field '' @ go_quote (FieldPath d) @ '' to be ready'')
             else None)
          else
            (let reason = unmetReadyReason res (Dependency d)
             in if reason \<noteq> [] then Some reason else None))"

fun unmetDeps ::
  "observed \<Rightarrow> DependencyPair list \<Rightarrow> (string \<times> string list) list \<Rightarrow> (string \<times> string list) list"
where
  "unmetDeps obs [] m = m"
| "unmetDeps obs (d # ds) m =
     unmetDeps obs ds
       (case unmetDep obs d of None \<Rightarrow> m
        | Some r \<Rightarrow>
            AList.update (Dependent d)
              ((case map_of m (Dependent d) of None \<Rightarrow> [] | Some rs \<Rightarrow> rs) @ [r]) m)"

definition Evaluate :: "Sequencer \<Rightarrow> SequencerResult" where
  "Evaluate s =
     (let obs = sq_observedResources s;
          unmet = unmetDeps obs (sq_deps s) [];
          deferred = sort (filter (\<lambda>n. obs n = None) (map fst unmet));
          defers = map (\<lambda>n. \<lparr>gd_Name = n, gd_Reason = join ''; '' (the (map_of unmet n))\<rparr>) deferred;
          anyDeferred = (deferred \<noteq> []);
          events =
            (if anyDeferred
             then [\<lparr>ev_Severity = ''Warning'',
                    ev_Message = ''Creation sequencing: '' @ show_nat (length deferred) @
                      '' resource(s) deferred: '' @ join '', '' deferred,
                    ev_Target = ''Composite''\<rparr>]
             else [])
      in \<lparr>Deferred = deferred, Events = events, GatingDefers = defers, AnyDeferred = anyDeferred\<rparr>)"

definition quotedJoin :: "string list \<Rightarrow> string" where
  "quotedJoin names = join '', '' (map go_quote names)"

section \<open>Readiness\<close>

text \<open>
  The contract of a readiness test: \<open>reason\<close> describes what is missing and is empty exactly when
  \<open>ready\<close> holds, whatever name is quoted into it, and a resource that is not there is not ready.
\<close>

locale readiness =
  fixes reason :: "'r option \<Rightarrow> string \<Rightarrow> string"
    and ready :: "'r option \<Rightarrow> bool"
  assumes reason_empty: "reason r nm = [] \<longleftrightarrow> ready r"
    and absent_unready: "\<not> ready None"
begin

lemma ready_observed: "ready r \<Longrightarrow> \<exists>s. r = Some s"
  using absent_unready by (cases r) auto

lemma reason_name_irrelevant: "reason r nm = [] \<longleftrightarrow> reason r nm' = []"
  by (simp add: reason_empty)

end

lemma go_quote_neq_Nil [simp]: "go_quote s \<noteq> []"
  by (simp add: go_quote_def)

lemma nestedUnmetReason_label:
  "label \<noteq> [] \<Longrightarrow> label' \<noteq> [] \<Longrightarrow>
     nestedUnmetReason conds label = [] \<longleftrightarrow> nestedUnmetReason conds label' = []"
  by (auto simp: nestedUnmetReason_def split: option.splits)

lemma unmetReadyReason_empty: "unmetReadyReason res nm = [] \<longleftrightarrow> isObservedReady res"
  unfolding isObservedReady_def unmetReadyReason_def
  using nestedUnmetReason_label [of "go_quote nm" "''resource''" "getNestedConditions res"]
  by (auto simp: Let_def)

interpretation rdy: readiness unmetReadyReason isObservedReady
  by unfold_locales (rule unmetReadyReason_empty, simp add: isObservedReady_def unmetReadyReason_def)

text \<open>What readiness of an observed body means, branch by branch.\<close>

lemma nestedUnmetReason_empty:
  assumes "label \<noteq> []"
  shows "nestedUnmetReason conds label = [] \<longleftrightarrow>
    (case nestedConditionStatus conds ''Ready'' of
       Some r \<Rightarrow> r = ''True'' \<and> nestedConditionStatus conds ''Synced'' \<in> {None, Some ''True''}
     | None \<Rightarrow> (\<forall>c \<in> set conds. pstring (psub c ''status'') = ''True''))"
  using assms by (auto simp: nestedUnmetReason_def list_ex_iff split: option.splits)

lemma isObservedReady_plain:
  "\<not> isKubernetesObject (Some s) \<or> getNestedConditions (Some s) = [] \<Longrightarrow>
   isObservedReady (Some s) \<longleftrightarrow>
     hasCondition (Some s) ''Ready'' ''True'' \<and> hasCondition (Some s) ''Synced'' ''True''"
  by (auto simp: isObservedReady_def unmetReadyReason_def Let_def)

lemma isObservedReady_nested:
  "isKubernetesObject (Some s) \<Longrightarrow> getNestedConditions (Some s) \<noteq> [] \<Longrightarrow>
   isObservedReady (Some s) \<longleftrightarrow> nestedUnmetReason (getNestedConditions (Some s)) ''resource'' = []"
  by (simp add: isObservedReady_def unmetReadyReason_def)

section \<open>Field paths as lookups\<close>

text \<open>The value at a path of keys, when every step but the last is a struct.\<close>

fun pvalue_at :: "pstruct \<Rightarrow> string list \<Rightarrow> pvalue option" where
  "pvalue_at s [] = None"
| "pvalue_at s [k] = map_of s k"
| "pvalue_at s (k # k' # ks) =
     (case map_of s k of Some (PStruct t) \<Rightarrow> pvalue_at t (k' # ks) | _ \<Rightarrow> None)"

lemma pstruct_of_pfield:
  "pstruct_of (pfield s k) = (case map_of s k of Some (PStruct t) \<Rightarrow> Some t | _ \<Rightarrow> None)"
  by (auto simp: pfield_def split: option.splits pvalue.splits)

lemma isFieldReadyKeys_iff:
  "isFieldReadyKeys s ks \<longleftrightarrow> (\<exists>v. pvalue_at s ks = Some v \<and> isValueTruthy v)"
  by (induction s ks rule: isFieldReadyKeys.induct)
    (auto simp: pstruct_of_pfield pfield_def split: option.splits pvalue.splits)

lemma isFieldReady_iff:
  "isFieldReady res p \<longleftrightarrow>
     (\<exists>s v. res = Some s \<and> pvalue_at s (split_on (CHR ''.'') p) = Some v \<and> isValueTruthy v)"
  by (auto simp: isFieldReady_def isFieldReadyKeys_iff split: option.splits)

section \<open>Met dependencies and deferred resources\<close>

definition dep_met :: "observed \<Rightarrow> DependencyPair \<Rightarrow> bool" where
  "dep_met obs d \<longleftrightarrow>
     (\<exists>res. obs (Dependency d) = Some res \<and>
        (if FieldPath d = [] then isObservedReady res else isFieldReady res (FieldPath d)))"

lemma unmetDep_None_iff: "unmetDep obs d = None \<longleftrightarrow> dep_met obs d"
  by (auto simp: unmetDep_def dep_met_def Let_def rdy.reason_empty split: option.splits)

lemma dep_met_observed: "dep_met obs d \<Longrightarrow> obs (Dependency d) \<noteq> None"
  by (auto simp: dep_met_def)

text \<open>The unmet-dependency descriptions of one resource, in the order of the pairs.\<close>

definition unmet_of :: "observed \<Rightarrow> DependencyPair list \<Rightarrow> string \<Rightarrow> string list" where
  "unmet_of obs ds n = List.map_filter (unmetDep obs) (filter (\<lambda>d. Dependent d = n) ds)"

lemma unmet_of_simps [simp]:
  "unmet_of obs [] n = []"
  "unmet_of obs (d # ds) n =
     (if Dependent d = n
      then (case unmetDep obs d of None \<Rightarrow> unmet_of obs ds n | Some r \<Rightarrow> r # unmet_of obs ds n)
      else unmet_of obs ds n)"
  by (simp_all add: unmet_of_def map_filter_simps split: option.splits)

lemma unmet_of_Nil_iff:
  "unmet_of obs ds n = [] \<longleftrightarrow> (\<forall>d \<in> set ds. Dependent d = n \<longrightarrow> dep_met obs d)"
  by (induction ds) (auto simp: unmetDep_None_iff [symmetric] split: option.splits)

lemma map_of_unmetDeps:
  "map_of (unmetDeps obs ds m) n =
     (if unmet_of obs ds n = [] then map_of m n
      else Some ((case map_of m n of None \<Rightarrow> [] | Some rs \<Rightarrow> rs) @ unmet_of obs ds n))"
  by (induction ds arbitrary: m) (auto split: option.splits)

lemma distinct_unmetDeps:
  "distinct (map fst m) \<Longrightarrow> distinct (map fst (unmetDeps obs ds m))"
  by (induction ds arbitrary: m) (auto split: option.splits simp: distinct_update)

lemma keys_unmetDeps:
  "n \<in> set (map fst (unmetDeps obs ds [])) \<longleftrightarrow> unmet_of obs ds n \<noteq> []"
proof -
  have "n \<in> set (map fst m) \<longleftrightarrow> map_of m n \<noteq> None" for m :: "(string \<times> string list) list"
    by (simp add: map_of_eq_None_iff)
  then show ?thesis by (simp add: map_of_unmetDeps)
qed

lemma Deferred_Evaluate:
  "Deferred (Evaluate s) =
     sort (filter (\<lambda>n. sq_observedResources s n = None)
       (map fst (unmetDeps (sq_observedResources s) (sq_deps s) [])))"
  by (simp add: Evaluate_def Let_def)

lemma Deferred_iff:
  "n \<in> set (Deferred (Evaluate s)) \<longleftrightarrow>
     sq_observedResources s n = None \<and>
     (\<exists>d \<in> set (sq_deps s). Dependent d = n \<and> \<not> dep_met (sq_observedResources s) d)"
proof -
  have "n \<in> set (Deferred (Evaluate s)) \<longleftrightarrow>
      sq_observedResources s n = None \<and>
      n \<in> set (map fst (unmetDeps (sq_observedResources s) (sq_deps s) []))"
    by (auto simp: Deferred_Evaluate)
  then show ?thesis
    unfolding keys_unmetDeps unmet_of_Nil_iff by blast
qed

lemma sorted_Deferred: "sorted (Deferred (Evaluate s))"
  by (simp add: Deferred_Evaluate)

lemma distinct_Deferred: "distinct (Deferred (Evaluate s))"
  by (simp add: Deferred_Evaluate distinct_unmetDeps)

lemma GatingDefers_Evaluate:
  "GatingDefers (Evaluate s) =
     map (\<lambda>n. \<lparr>gd_Name = n,
        gd_Reason = join ''; '' (unmet_of (sq_observedResources s) (sq_deps s) n)\<rparr>)
       (Deferred (Evaluate s))"
proof -
  have "the (map_of (unmetDeps (sq_observedResources s) (sq_deps s) []) n) =
      unmet_of (sq_observedResources s) (sq_deps s) n" if "n \<in> set (Deferred (Evaluate s))" for n
    using that by (auto simp: map_of_unmetDeps Deferred_iff unmet_of_Nil_iff)
  then show ?thesis
    by (simp add: Evaluate_def Let_def Deferred_Evaluate)
qed

lemma AnyDeferred_iff: "AnyDeferred (Evaluate s) \<longleftrightarrow> Deferred (Evaluate s) \<noteq> []"
  by (simp add: Evaluate_def Let_def)


section \<open>Small inputs\<close>

text \<open>Inputs on which the theorems of this and the later theories are applied.\<close>

definition ex_pair :: "string \<Rightarrow> string \<Rightarrow> DependencyPair" where
  "ex_pair x y = \<lparr>Dependent = x, Dependency = y, IsRef = True, FieldPath = []\<rparr>"

definition ex_condition :: "string \<Rightarrow> pvalue" where
  "ex_condition t = PStruct [(''type'', PStr t), (''status'', PStr ''True'')]"

definition ex_ready_body :: pstruct where
  "ex_ready_body =
     [(''apiVersion'', PStr ''v1''), (''kind'', PStr ''Bucket''),
      (''status'', PStruct [(''conditions'', PList [ex_condition ''Ready'', ex_condition ''Synced''])])]"

lemma ex_pair_simps [simp]:
  "Dependent (ex_pair x y) = x" "Dependency (ex_pair x y) = y"
  "IsRef (ex_pair x y)" "FieldPath (ex_pair x y) = []"
  by (simp_all add: ex_pair_def)

lemma ex_ready: "isObservedReady (Some ex_ready_body)"
  by code_simp

section \<open>Properties\<close>

lemma join_neq_Nil: "ps \<noteq> [] \<Longrightarrow> [] \<notin> set ps \<Longrightarrow> join sep ps \<noteq> []"
  by (cases ps; cases "tl ps") auto

lemma unmetDep_neq_Nil: "unmetDep obs d \<noteq> Some []"
  by (auto simp: unmetDep_def Let_def split: option.splits)

text \<open>
  C3. The sequencer withholds exactly the resources that are not observed and have a dependency that is
  not met (absent from the observed state, not ready, or with an empty field at the required path), each
  once and in sorted order, and it explains every one of them with a non-empty list of reasons.
\<close>

theorem deferred_exactly_unmet:
  "Deferred (Evaluate s) =
     sorted_list_of_set {n. sq_observedResources s n = None \<and>
       (\<exists>d. d \<in> set (sq_deps s) \<and> Dependent d = n \<and> \<not> dep_met (sq_observedResources s) d)}
   \<and> map gd_Name (GatingDefers (Evaluate s)) = Deferred (Evaluate s)
   \<and> [] \<notin> gd_Reason ` set (GatingDefers (Evaluate s))"
proof (intro conjI)
  let ?A = "{n. sq_observedResources s n = None \<and>
     (\<exists>d. d \<in> set (sq_deps s) \<and> Dependent d = n \<and> \<not> dep_met (sq_observedResources s) d)}"
  have "set (Deferred (Evaluate s)) = ?A" using Deferred_iff [of _ s] by blast
  then show "Deferred (Evaluate s) = sorted_list_of_set ?A"
    using sorted_Deferred distinct_Deferred sorted_list_of_set.idem_if_sorted_distinct by metis
  show "map gd_Name (GatingDefers (Evaluate s)) = Deferred (Evaluate s)"
    by (simp add: GatingDefers_Evaluate comp_def)
  show "[] \<notin> gd_Reason ` set (GatingDefers (Evaluate s))"
  proof
    assume "[] \<in> gd_Reason ` set (GatingDefers (Evaluate s))"
    then obtain n where n: "n \<in> set (Deferred (Evaluate s))"
      and j: "join ''; '' (unmet_of (sq_observedResources s) (sq_deps s) n) = []"
      by (auto simp: GatingDefers_Evaluate)
    from n have "unmet_of (sq_observedResources s) (sq_deps s) n \<noteq> []"
      by (auto simp: Deferred_iff unmet_of_Nil_iff)
    moreover have "[] \<notin> set (unmet_of (sq_observedResources s) (sq_deps s) n)"
      using unmetDep_neq_Nil by (auto simp: unmet_of_def List.map_filter_def)
    ultimately show False using j join_neq_Nil by blast
  qed
qed

text \<open>
  When an observed body is ready. The body of a Kubernetes Object whose wrapped manifest reports
  conditions is judged by those: with a Ready condition it must be True and Synced must be absent or True,
  without one all of them must be True. Any other body needs the conditions Ready and Synced with status
  True. What is missing is reported exactly when the body is not ready.
\<close>

theorem observed_ready_exactly:
  "(unmetReadyReason (Some s) nm = []) = isObservedReady (Some s) \<and>
   isObservedReady (Some s) =
     (let conds = getNestedConditions (Some s)
      in if isKubernetesObject (Some s) \<and> conds \<noteq> []
         then (case nestedConditionStatus conds ''Ready'' of
                 Some r \<Rightarrow> r = ''True'' \<and> nestedConditionStatus conds ''Synced'' \<in> {None, Some ''True''}
               | None \<Rightarrow> list_all (\<lambda>c. pstring (psub c ''status'') = ''True'') conds)
         else hasCondition (Some s) ''Ready'' ''True'' \<and> hasCondition (Some s) ''Synced'' ''True'')"
  using isObservedReady_plain [of s] isObservedReady_nested [of s]
    nestedUnmetReason_empty [of "''resource''" "getNestedConditions (Some s)"]
  by (auto simp: rdy.reason_empty Let_def list_all_iff split: option.splits)

text \<open>
  A field dependency is met exactly when every segment of the dotted path but the last leads to a
  struct and the value at its end is truthy.
\<close>

theorem field_ready_exactly:
  "isFieldReady res p =
     (\<exists>s v. res = Some s \<and> pvalue_at s (split_on (CHR ''.'') p) = Some v \<and> isValueTruthy v)"
  by (rule isFieldReady_iff)

end
