(* ===== verification/Starlark.thy ===== *)
theory Starlark
  imports Proto
begin

text \<open>
  Starlark values as the builtins receive and build them: the values of the language, the wrapper
  types of the program (\<^verbatim>\<open>convert.StarlarkDict\<close>, \<^verbatim>\<open>schema.SchemaDict\<close>, \<^verbatim>\<open>MutableStruct\<close>), its
  handles (\<^verbatim>\<open>ResourceRef\<close>, \<^verbatim>\<open>SkippedRef\<close>, \<^verbatim>\<open>ExtraRef\<close>, \<^verbatim>\<open>WhenValue\<close>) and its schema objects, with the
  dict operations that the builtins call.
\<close>

section \<open>Values\<close>

text \<open>
  A dict is the list of its items in insertion order. The Boolean of a list or dict says whether it
  is frozen. \<open>SLazyDict\<close> is a \<^verbatim>\<open>StarlarkDict\<close> that has not been read yet (\<^verbatim>\<open>NewLazyStarlarkDict\<close>): its
  protobuf source and the requested freezing. Values of other types (functions, modules, sets)
  are \<open>SOther\<close> with their type name and whether they can be hashed. A schema carries a number
  that stands for its identity as an object.
\<close>

datatype sval =
    SNone
  | SBool bool
  | SInt int
  | SFloat float64
  | SString string
  | SBytes string
  | SList bool "sval list"
  | STuple "sval list"
  | SDict bool "(sval \<times> sval) list"
  | SStarlarkDict bool "(sval \<times> sval) list"
  | SLazyDict bool "pstruct option"
  | SSchemaDict "schema option" bool "(sval \<times> sval) list"
  | SMutableStruct "schema option" bool "(sval \<times> sval) list"
  | SResourceRef string
  | SSkippedRef string
  | SExtraRef string
  | SWhen bool string bool bool
  | SSchema schema
  | SField FieldDescriptor
  | SOther string bool
and schema =
    Schema (schema_id: nat) (schema_name: string) (schema_doc: string)
      (schema_fields: "(string \<times> FieldDescriptor) list")
and FieldDescriptor =
    FieldDescriptor (fd_typeName: string) (fd_schema: "schema option") (fd_items: "schema option")
      (fd_required: bool) (fd_defVal: sval) (fd_enum: "sval list option") (fd_doc: string)

type_synonym items = "(sval \<times> sval) list"

text \<open>\<^verbatim>\<open>Type()\<close>.\<close>

fun stype :: "sval \<Rightarrow> string" where
  "stype SNone = ''NoneType''"
| "stype (SBool _) = ''bool''"
| "stype (SInt _) = ''int''"
| "stype (SFloat _) = ''float''"
| "stype (SString _) = ''string''"
| "stype (SBytes _) = ''bytes''"
| "stype (SList _ _) = ''list''"
| "stype (STuple _) = ''tuple''"
| "stype (SDict _ _) = ''dict''"
| "stype (SStarlarkDict _ _) = ''dict''"
| "stype (SLazyDict _ _) = ''dict''"
| "stype (SSchemaDict _ _ _) = ''dict''"
| "stype (SMutableStruct _ _ _) = ''mutable_struct''"
| "stype (SResourceRef _) = ''ResourceRef''"
| "stype (SSkippedRef _) = ''SkippedRef''"
| "stype (SExtraRef _) = ''ExtraRef''"
| "stype (SWhen _ _ _ _) = ''When''"
| "stype (SSchema _) = ''schema''"
| "stype (SField _) = ''field''"
| "stype (SOther t _) = t"

text \<open>The type assertion \<^verbatim>\<open>v.(starlark.String)\<close>.\<close>

definition as_string :: "sval \<Rightarrow> string option" where
  "as_string v = (case v of SString s \<Rightarrow> Some s | _ \<Rightarrow> None)"

lemma as_string_simps [simp]: "as_string (SString s) = Some s" "as_string v = Some s \<longleftrightarrow> v = SString s"
  by (auto simp: as_string_def split: sval.splits)

text \<open>\<^verbatim>\<open>Hash()\<close> succeeds: on the immutable values of the language and on the handles.\<close>

fun hashable :: "sval \<Rightarrow> bool" where
  "hashable (STuple vs) = list_all hashable vs"
| "hashable (SList _ _) = False"
| "hashable (SDict _ _) = False"
| "hashable (SStarlarkDict _ _) = False"
| "hashable (SLazyDict _ _) = False"
| "hashable (SSchemaDict _ _ _) = False"
| "hashable (SMutableStruct _ _ _) = False"
| "hashable (SWhen _ _ _ _) = False"
| "hashable (SSchema _) = False"
| "hashable (SField _) = False"
| "hashable (SOther _ h) = h"
| "hashable _ = True"

section \<open>Errors\<close>

text \<open>
  What the builtins report. \<open>EField\<close> and \<open>EListItem\<close> are the wrappers \<^verbatim>\<open>field %q: %w\<close> and
  \<^verbatim>\<open>list[%d]: %w\<close>, \<open>EIn\<close> any other prefix; \<open>EMsg\<close> is a message without further structure.
\<close>

datatype serror =
    EField string serror
  | EListItem nat serror
  | EIn string serror
  | EInt64Range float64
  | EIntTooLarge int
  | EKeyNotString sval
  | EUnsupportedType string
  | EFrozen
  | EUnhashable string
  | EMsg string

definition wrap_err :: "('e \<Rightarrow> 'f) \<Rightarrow> 'e + 'a \<Rightarrow> 'f + 'a" where
  "wrap_err w r = (case r of Inl e \<Rightarrow> Inl (w e) | Inr x \<Rightarrow> Inr x)"

lemma wrap_err_simps [simp]:
  "wrap_err w (Inl e) = Inl (w e)"
  "wrap_err w (Inr x) = Inr x"
  "wrap_err w r = Inr x \<longleftrightarrow> r = Inr x"
  by (simp_all add: wrap_err_def split: sum.splits)

lemma wrap_err_cong [fundef_cong]: "r = r' \<Longrightarrow> wrap_err w r = wrap_err w r'"
  by simp

section \<open>Dicts\<close>

text \<open>
  Equality of keys: an int and a float of the same value are the same key. An insertion keeps the
  position and the key object of an entry that is there and appends a new entry otherwise. Handles of
  the same name are the same key here; the interpreter tells them apart as objects, but no builtin looks
  a handle up in a dict.
\<close>

fun key_norm :: "sval \<Rightarrow> sval" where
  "key_norm (SFloat FNegZero) = SInt 0"
| "key_norm (SFloat (FFin r)) = (if r = of_int \<lfloor>r\<rfloor> then SInt \<lfloor>r\<rfloor> else SFloat (FFin r))"
| "key_norm (STuple vs) = STuple (map key_norm vs)"
| "key_norm v = v"

definition key_eq :: "sval \<Rightarrow> sval \<Rightarrow> bool" where
  "key_eq k k' \<longleftrightarrow> key_norm k = key_norm k'"

fun dict_get :: "items \<Rightarrow> sval \<Rightarrow> sval option" where
  "dict_get [] k = None"
| "dict_get ((k', v) # its) k = (if key_eq k k' then Some v else dict_get its k)"

fun dict_set :: "sval \<Rightarrow> sval \<Rightarrow> items \<Rightarrow> items" where
  "dict_set k v [] = [(k, v)]"
| "dict_set k v ((k', v') # its) =
     (if key_eq k k' then (k', v) # its else (k', v') # dict_set k v its)"

fun dict_delete :: "sval \<Rightarrow> items \<Rightarrow> items" where
  "dict_delete k [] = []"
| "dict_delete k ((k', v') # its) =
     (if key_eq k k' then its else (k', v') # dict_delete k its)"

definition dict_update :: "items \<Rightarrow> items \<Rightarrow> items" where
  "dict_update d its = foldl (\<lambda>d (k, v). dict_set k v d) d its"

text \<open>The items of a dict that a Go program can build have pairwise different keys.\<close>

definition dict_wf :: "items \<Rightarrow> bool" where
  "dict_wf its \<longleftrightarrow> distinct (map (key_norm \<circ> fst) its)"

lemma key_norm_eq_SString [simp]: "key_norm k = SString s \<longleftrightarrow> k = SString s"
  by (induction k rule: key_norm.induct) auto

lemma key_eq_SString [simp]:
  "key_eq (SString s) k \<longleftrightarrow> k = SString s"
  "key_eq k (SString s) \<longleftrightarrow> k = SString s"
  using key_norm_eq_SString [of k s] by (auto simp: key_eq_def eq_commute)

lemma dict_get_string: "dict_get its (SString s) = map_of its (SString s)"
  by (induction its) auto

lemma dict_set_string: "dict_set (SString s) v its = AList.update (SString s) v its"
  by (induction its) auto

lemma dict_get_set [simp]:
  "dict_get (dict_set k v its) k' = (if key_eq k' k then Some v else dict_get its k')"
  by (induction its) (auto simp: key_eq_def)

lemma set_dict_setD:
  "(k', v') \<in> set (dict_set k v its) \<Longrightarrow> (k', v') \<in> set its \<or> key_eq k k' \<and> v' = v"
  by (induction its) (auto simp: key_eq_def split: if_splits)

lemma set_dict_deleteD: "x \<in> set (dict_delete k its) \<Longrightarrow> x \<in> set its"
  by (induction its) (auto split: if_splits)

lemma dict_get_None_iff: "dict_get its k = None \<longleftrightarrow> (\<forall>kv \<in> set its. \<not> key_eq k (fst kv))"
proof (induction its)
  case (Cons kv its)
  then show ?case by (cases kv; cases "key_eq k (fst kv)") auto
qed simp

lemma dict_get_cong: "key_eq k k' \<Longrightarrow> dict_get its k = dict_get its k'"
  by (induction its) (auto simp: key_eq_def)

lemma dict_get_SomeD: "dict_get its k = Some v \<Longrightarrow> \<exists>k'. (k', v) \<in> set its \<and> key_eq k k'"
  by (induction its) (auto split: if_splits)

lemma dict_wf_simps [simp]:
  "dict_wf []"
  "dict_wf ((k, v) # its) \<longleftrightarrow> dict_get its k = None \<and> dict_wf its"
  by (auto simp: dict_wf_def dict_get_None_iff key_eq_def image_iff)

lemma dict_wf_set [intro, simp]: "dict_wf its \<Longrightarrow> dict_wf (dict_set k v its)"
  by (induction its) (auto simp: key_eq_def)

lemma dict_set_fresh: "dict_get its k = None \<Longrightarrow> dict_set k v its = its @ [(k, v)]"
  by (induction its) (auto split: if_splits)

lemma dict_get_append:
  "dict_get (xs @ ys) k = (case dict_get xs k of Some v \<Rightarrow> Some v | None \<Rightarrow> dict_get ys k)"
  by (induction xs) auto

lemma dict_wf_append:
  "dict_wf (xs @ ys) \<longleftrightarrow> dict_wf xs \<and> dict_wf ys \<and> (\<forall>kv \<in> set ys. dict_get xs (fst kv) = None)"
proof (induction xs)
  case (Cons kv xs)
  obtain a v where kv: "kv = (a, v)" by force
  have "(\<forall>kv \<in> set ys. \<not> key_eq (fst kv) a) \<longleftrightarrow> dict_get ys a = None"
    by (auto simp: dict_get_None_iff key_eq_def)
  with Cons show ?case by (auto simp: kv dict_get_append split: option.splits)
qed simp

lemma dict_update_simps [simp]:
  "dict_update d [] = d"
  "dict_update d ((k, v) # its) = dict_update (dict_set k v d) its"
  by (simp_all add: dict_update_def)

lemma dict_wf_update [intro, simp]: "dict_wf d \<Longrightarrow> dict_wf (dict_update d its)"
  by (induction its arbitrary: d) auto

lemma dict_get_update:
  "dict_wf its \<Longrightarrow> dict_get (dict_update d its) k =
     (case dict_get its k of Some v \<Rightarrow> Some v | None \<Rightarrow> dict_get d k)"
proof (induction its arbitrary: d)
  case (Cons kv its)
  obtain a v where kv: "kv = (a, v)" by force
  show ?case using Cons dict_get_cong [of k a its] by (auto simp: kv split: option.splits)
qed simp

lemma dict_update_append: "dict_wf (d @ its) \<Longrightarrow> dict_update d its = d @ its"
proof (induction its arbitrary: d)
  case (Cons kv its)
  obtain k v where kv: "kv = (k, v)" by force
  have "dict_get d k = None" using Cons.prems by (auto simp: kv dict_wf_append)
  then show ?case using Cons.IH [of "d @ [(k, v)]"] Cons.prems by (simp add: kv dict_set_fresh)
qed simp

lemma dict_update_Nil: "dict_wf its \<Longrightarrow> dict_update [] its = its"
  using dict_update_append [of "[]"] by simp

lemma dict_get_delete:
  "dict_wf its \<Longrightarrow> dict_get (dict_delete k its) k' = (if key_eq k' k then None else dict_get its k')"
proof (induction its)
  case (Cons kv its)
  obtain a v where kv: "kv = (a, v)" by force
  have "key_eq k' k \<Longrightarrow> key_eq k a \<Longrightarrow> dict_get its k' = dict_get its a"
    by (rule dict_get_cong) (simp add: key_eq_def)
  with Cons show ?case by (auto simp: kv key_eq_def)
qed simp

subsection \<open>The dict operations with their errors\<close>

text \<open>\<^verbatim>\<open>SetKey\<close>, \<^verbatim>\<open>Get\<close>, \<^verbatim>\<open>Delete\<close> and \<^verbatim>\<open>Clear\<close> of the language's dict: writing checks that the dict is
  not frozen first, then the key must be hashable.\<close>

definition set_key :: "bool \<Rightarrow> items \<Rightarrow> sval \<Rightarrow> sval \<Rightarrow> serror + items" where
  "set_key frozen its k v =
     (if frozen then Inl EFrozen
      else if \<not> hashable k then Inl (EUnhashable (stype k))
      else Inr (dict_set k v its))"

definition get_key :: "items \<Rightarrow> sval \<Rightarrow> serror + sval option" where
  "get_key its k = (if \<not> hashable k then Inl (EUnhashable (stype k)) else Inr (dict_get its k))"

definition delete_key :: "bool \<Rightarrow> items \<Rightarrow> sval \<Rightarrow> serror + (sval option \<times> items)" where
  "delete_key frozen its k =
     (if frozen then Inl EFrozen
      else if its = [] then Inr (None, its)
      else if \<not> hashable k then Inl (EUnhashable (stype k))
      else Inr (dict_get its k, dict_delete k its))"

definition clear_dict :: "bool \<Rightarrow> items \<Rightarrow> serror + items" where
  "clear_dict frozen its = (if frozen then Inl EFrozen else Inr [])"

section \<open>Freezing\<close>

lemma size_items_less [termination_simp]:
  "(k, v) \<in> set its \<Longrightarrow> size v < Suc (size_list (size_prod size size) its)"
  "(k, v) \<in> set its \<Longrightarrow> size k < Suc (size_list (size_prod size size) its)"
  by (induction its) auto

fun freeze :: "sval \<Rightarrow> sval" where
  "freeze (SList _ vs) = SList True (map freeze vs)"
| "freeze (STuple vs) = STuple (map freeze vs)"
| "freeze (SDict _ its) = SDict True (map (\<lambda>(k, v). (freeze k, freeze v)) its)"
| "freeze (SStarlarkDict _ its) = SStarlarkDict True (map (\<lambda>(k, v). (freeze k, freeze v)) its)"
| "freeze (SLazyDict _ src) = SLazyDict True src"
| "freeze (SSchemaDict s _ its) = SSchemaDict s True (map (\<lambda>(k, v). (freeze k, freeze v)) its)"
| "freeze (SMutableStruct s _ its) =
     SMutableStruct s True (map (\<lambda>(k, v). (freeze k, freeze v)) its)"
| "freeze v = v"

text \<open>Nothing in the value can be mutated.\<close>

fun deep_frozen :: "sval \<Rightarrow> bool" where
  "deep_frozen (SList f vs) = (f \<and> list_all deep_frozen vs)"
| "deep_frozen (STuple vs) = list_all deep_frozen vs"
| "deep_frozen (SDict f its) = (f \<and> list_all (\<lambda>(k, v). deep_frozen k \<and> deep_frozen v) its)"
| "deep_frozen (SStarlarkDict f its) = (f \<and> list_all (\<lambda>(k, v). deep_frozen k \<and> deep_frozen v) its)"
| "deep_frozen (SLazyDict f src) = f"
| "deep_frozen (SSchemaDict s f its) = (f \<and> list_all (\<lambda>(k, v). deep_frozen k \<and> deep_frozen v) its)"
| "deep_frozen (SMutableStruct s f its) =
     (f \<and> list_all (\<lambda>(k, v). deep_frozen k \<and> deep_frozen v) its)"
| "deep_frozen _ = True"

lemma freeze_deep_frozen: "deep_frozen (freeze v)"
  by (induction v rule: freeze.induct) (auto simp: list_all_iff)

lemma freeze_simps_atom [simp]: "freeze (SString s) = SString s"
  by simp

end
