(* ===== verification/Convert.thy ===== *)
theory Convert
  imports Starlark
begin

text \<open>
  \<^verbatim>\<open>convert/convert.go\<close> and the lazy part of \<^verbatim>\<open>convert/starlark_dict.go\<close>: protobuf values to Starlark
  and back. The theorems at the end say that a body that converts at all comes back unchanged,
  up to what protobuf JSON cannot tell apart, and which bodies do not convert.
\<close>

section \<open>Numbers\<close>

definition isWholeNumber :: "float64 \<Rightarrow> bool" where
  "isWholeNumber f =
     (case f of FNaN \<Rightarrow> False | FInf _ \<Rightarrow> False | FNegZero \<Rightarrow> True | FFin r \<Rightarrow> r = of_int \<lfloor>r\<rfloor>)"

text \<open>The value of a finite double.\<close>

definition f_val :: "float64 \<Rightarrow> rat" where
  "f_val f = (case f of FFin r \<Rightarrow> r | _ \<Rightarrow> 0)"

definition convertNumber :: "float64 \<Rightarrow> serror + sval" where
  "convertNumber f =
     (if isWholeNumber f then
        (if f_val f \<ge> 2 ^ 63 \<or> f_val f \<le> - (2 ^ 63) then Inl (EInt64Range f)
         else if f_val f > 2 ^ 53 \<or> f_val f < - (2 ^ 53) then Inr (SFloat f)
         else Inr (SInt \<lfloor>f_val f\<rfloor>))
      else Inr (SFloat f))"

section \<open>Protobuf to Starlark\<close>

datatype dictFactory = starlarkDictFactory | plainDictFactory

definition mkDict :: "dictFactory \<Rightarrow> bool \<Rightarrow> items \<Rightarrow> sval" where
  "mkDict fac frz d =
     (let v = (case fac of starlarkDictFactory \<Rightarrow> SStarlarkDict False d | plainDictFactory \<Rightarrow> SDict False d)
      in if frz then freeze v else v)"

definition mkList :: "bool \<Rightarrow> sval list \<Rightarrow> sval" where
  "mkList frz vs = (if frz then freeze (SList False vs) else SList False vs)"

text \<open>
  \<open>convertFields\<close> is the loop over the field map that both dict factories have
  (\<^verbatim>\<open>fieldsToStarlarkDict\<close> and \<^verbatim>\<open>plainDictFactory\<close>), \<open>convertElems\<close> the loop of \<^verbatim>\<open>convertListValue\<close> from
  index \<open>i\<close> on.
\<close>

function (sequential) convertProtoValue :: "dictFactory \<Rightarrow> bool \<Rightarrow> pvalue \<Rightarrow> serror + sval"
  and convertFields :: "dictFactory \<Rightarrow> bool \<Rightarrow> pstruct \<Rightarrow> items \<Rightarrow> serror + items"
  and convertElems :: "dictFactory \<Rightarrow> bool \<Rightarrow> nat \<Rightarrow> pvalue list \<Rightarrow> serror + sval list"
where
  "convertProtoValue fac frz PNil = Inr SNone"
| "convertProtoValue fac frz PNull = Inr SNone"
| "convertProtoValue fac frz (PNum f) = convertNumber f"
| "convertProtoValue fac frz (PStr s) = Inr (SString s)"
| "convertProtoValue fac frz (PBool b) = Inr (SBool b)"
| "convertProtoValue fac frz (PStruct fs) =
     bind_res (convertFields fac frz fs []) (\<lambda>d. Inr (mkDict fac frz d))"
| "convertProtoValue fac frz (PList vs) =
     bind_res (convertElems fac frz 0 vs) (\<lambda>elems. Inr (mkList frz elems))"
| "convertFields fac frz [] d = Inr d"
| "convertFields fac frz ((k, v) # fs) d =
     bind_res (wrap_err (EField k) (convertProtoValue fac frz v))
       (\<lambda>sv. convertFields fac frz fs (dict_set (SString k) sv d))"
| "convertElems fac frz i [] = Inr []"
| "convertElems fac frz i (v # vs) =
     bind_res (wrap_err (EListItem i) (convertProtoValue fac frz v))
       (\<lambda>sv. bind_res (convertElems fac frz (Suc i) vs) (\<lambda>svs. Inr (sv # svs)))"
  by pat_completeness auto

termination
  by (relation "measure (\<lambda>x. case x of Inl (_, _, v) \<Rightarrow> size v
       | Inr (Inl (_, _, fs, _)) \<Rightarrow> size_list (size_prod (\<lambda>x. 0) size) fs
       | Inr (Inr (_, _, _, vs)) \<Rightarrow> size_list size vs)") auto

definition StructToStarlark :: "pstruct option \<Rightarrow> bool \<Rightarrow> serror + sval" where
  "StructToStarlark s frz =
     (case s of
        None \<Rightarrow> Inr (if frz then freeze (SStarlarkDict False []) else SStarlarkDict False [])
      | Some fs \<Rightarrow> bind_res (convertFields starlarkDictFactory frz fs [])
          (\<lambda>d. Inr (mkDict starlarkDictFactory frz d)))"

definition ProtoValueToPlainStarlark :: "pvalue \<Rightarrow> bool \<Rightarrow> serror + sval" where
  "ProtoValueToPlainStarlark v frz = convertProtoValue plainDictFactory frz v"

section \<open>Starlark to protobuf\<close>

definition maxSafeInt :: int where
  "maxSafeInt = 2 ^ 53"

text \<open>\<^verbatim>\<open>ensure\<close> and \<^verbatim>\<open>dict\<close> of a \<^verbatim>\<open>StarlarkDict\<close>: the frozen flag and the items, converted from the
  protobuf source at the first access. When the conversion fails, \<^verbatim>\<open>dict\<close> is an empty dict.\<close>

definition ensure :: "bool \<Rightarrow> pstruct option \<Rightarrow> serror + bool \<times> items" where
  "ensure frozen src =
     bind_res (StructToStarlark src frozen)
       (\<lambda>tmp. case tmp of SStarlarkDict f its \<Rightarrow> Inr (f, its) | _ \<Rightarrow> Inr (frozen, []))"

text \<open>\<^verbatim>\<open>InternalDict()\<close> of the wrapper types and the items of a plain dict.\<close>

definition dict_of :: "sval \<Rightarrow> (bool \<times> items) option" where
  "dict_of v =
     (case v of
        SDict f its \<Rightarrow> Some (f, its)
      | SStarlarkDict f its \<Rightarrow> Some (f, its)
      | SLazyDict f src \<Rightarrow> Some (case ensure f src of Inr d \<Rightarrow> d | Inl e \<Rightarrow> (f, []))
      | SSchemaDict s f its \<Rightarrow> Some (f, its)
      | SMutableStruct s f its \<Rightarrow> Some (f, its)
      | _ \<Rightarrow> None)"

text \<open>Unread lazy dicts inside a value; conversion leaves none. This is what makes the recursion below
  end: reading a lazy dict uses it up.\<close>

fun lazies :: "sval \<Rightarrow> nat" where
  "lazies (SLazyDict _ _) = 1"
| "lazies (SList _ vs) = sum_list (map lazies vs)"
| "lazies (STuple vs) = sum_list (map lazies vs)"
| "lazies (SDict _ its) = sum_list (map (\<lambda>(k, v). lazies v) its)"
| "lazies (SStarlarkDict _ its) = sum_list (map (\<lambda>(k, v). lazies v) its)"
| "lazies (SSchemaDict _ _ its) = sum_list (map (\<lambda>(k, v). lazies v) its)"
| "lazies (SMutableStruct _ _ its) = sum_list (map (\<lambda>(k, v). lazies v) its)"
| "lazies _ = 0"

definition items_lazies :: "items \<Rightarrow> nat" where
  "items_lazies its = sum_list (map (\<lambda>(k, v). lazies v) its)"

lemma items_lazies_simps [simp]:
  "items_lazies [] = 0"
  "items_lazies ((k, v) # its) = lazies v + items_lazies its"
  by (simp_all add: items_lazies_def)

lemma lazies_dict [simp]:
  "lazies (SDict f its) = items_lazies its"
  "lazies (SStarlarkDict f its) = items_lazies its"
  "lazies (SSchemaDict s f its) = items_lazies its"
  "lazies (SMutableStruct s f its) = items_lazies its"
  by (simp_all add: items_lazies_def)

declare lazies.simps(4-7) [simp del]

lemma items_lazies_freeze:
  "(\<And>k v. (k, v) \<in> set its \<Longrightarrow> lazies (freeze v) = lazies v) \<Longrightarrow>
     items_lazies (map (\<lambda>(k, v). (freeze k, freeze v)) its) = items_lazies its"
  by (auto simp: items_lazies_def comp_def case_prod_beta intro!: arg_cong [where f = sum_list])

lemma lazies_freeze [simp]: "lazies (freeze v) = lazies v"
  by (induction v rule: freeze.induct)
    (auto simp: comp_def intro!: items_lazies_freeze arg_cong [where f = sum_list])

lemma lazies_mkDict [simp]: "lazies (mkDict fac frz d) = items_lazies d"
  by (simp add: mkDict_def Let_def del: freeze.simps split: dictFactory.splits)

lemma lazies_mkList [simp]: "lazies (mkList frz vs) = sum_list (map lazies vs)"
  by (simp add: mkList_def del: freeze.simps)

lemma items_lazies_set: "items_lazies d = 0 \<Longrightarrow> lazies v = 0 \<Longrightarrow> items_lazies (dict_set k v d) = 0"
  by (induction d) auto

lemma lazies_convertNumber: "convertNumber f = Inr sv \<Longrightarrow> lazies sv = 0"
  by (auto simp: convertNumber_def split: if_splits)

lemma lazies_convert:
  "convertProtoValue fac frz v = Inr sv \<Longrightarrow> lazies sv = 0"
  "convertFields fac frz fs d = Inr d' \<Longrightarrow> items_lazies d = 0 \<Longrightarrow> items_lazies d' = 0"
  "convertElems fac frz i vs = Inr svs \<Longrightarrow> sum_list (map lazies svs) = 0"
  by (induction fac frz v and fac frz fs d and fac frz i vs arbitrary: sv and d' and svs
      rule: convertProtoValue_convertFields_convertElems.induct)
    (auto simp: bind_res_eq_Inr items_lazies_set dest: lazies_convertNumber)

lemma StructToStarlark_shape:
  "StructToStarlark src frz = Inr v \<Longrightarrow> \<exists>its. v = SStarlarkDict frz its \<and> items_lazies its = 0"
proof -
  assume r: "StructToStarlark src frz = Inr v"
  then have "lazies v = 0"
    by (auto simp: StructToStarlark_def bind_res_eq_Inr lazies_convert(2) split: option.splits if_splits)
  moreover have "\<exists>its. v = SStarlarkDict frz its"
    using r by (auto simp: StructToStarlark_def mkDict_def Let_def bind_res_eq_Inr split: option.splits if_splits)
  ultimately show ?thesis by auto
qed

lemma ensure_items: "ensure frz src = Inr (f, its) \<Longrightarrow> f = frz \<and> items_lazies its = 0"
  by (auto simp: ensure_def bind_res_eq_Inr dest!: StructToStarlark_shape)

text \<open>
  \<open>dictToFields\<close> is the loop of \<^verbatim>\<open>PlainDictToStruct\<close> and of \<^verbatim>\<open>StarlarkToStruct\<close> over the keys (the value
  under a key of the iteration is the one beside it), \<open>listToValues\<close> the loop of
  \<^verbatim>\<open>starlarkListToListValue\<close> from index \<open>i\<close> on.
\<close>

function (sequential) starlarkToProtoValue :: "sval \<Rightarrow> serror + pvalue"
  and dictToFields :: "items \<Rightarrow> pstruct \<Rightarrow> serror + pstruct"
  and listToValues :: "nat \<Rightarrow> sval list \<Rightarrow> serror + pvalue list"
where
  "starlarkToProtoValue SNone = Inr PNull"
| "starlarkToProtoValue (SBool b) = Inr (PBool b)"
| "starlarkToProtoValue (SInt i) =
     (if abs i > maxSafeInt then Inl (EIntTooLarge i) else Inr (PNum (FFin (of_int i))))"
| "starlarkToProtoValue (SFloat f) = Inr (PNum f)"
| "starlarkToProtoValue (SString s) = Inr (PStr s)"
| "starlarkToProtoValue (SStarlarkDict f its) =
     bind_res (dictToFields its []) (\<lambda>fs. Inr (PStruct fs))"
| "starlarkToProtoValue (SLazyDict f src) =
     bind_res (ensure f src) (\<lambda>d. bind_res (dictToFields (snd d) []) (\<lambda>fs. Inr (PStruct fs)))"
| "starlarkToProtoValue (SDict f its) =
     bind_res (dictToFields its []) (\<lambda>fs. Inr (PStruct fs))"
| "starlarkToProtoValue (SList f vs) =
     bind_res (listToValues 0 vs) (\<lambda>pvs. Inr (PList pvs))"
| "starlarkToProtoValue (SSchemaDict s f its) =
     bind_res (dictToFields its []) (\<lambda>fs. Inr (PStruct fs))"
| "starlarkToProtoValue (SMutableStruct s f its) =
     bind_res (dictToFields its []) (\<lambda>fs. Inr (PStruct fs))"
| "starlarkToProtoValue v = Inl (EUnsupportedType (stype v))"
| "dictToFields [] fs = Inr fs"
| "dictToFields ((SString k, v) # its) fs =
     bind_res (wrap_err (EField k) (starlarkToProtoValue v))
       (\<lambda>pv. dictToFields its (AList.update k pv fs))"
| "dictToFields ((k, v) # its) fs = Inl (EKeyNotString k)"
| "listToValues i [] = Inr []"
| "listToValues i (v # vs) =
     bind_res (wrap_err (EListItem i) (starlarkToProtoValue v))
       (\<lambda>pv. bind_res (listToValues (Suc i) vs) (\<lambda>pvs. Inr (pv # pvs)))"
  by pat_completeness auto

termination
proof (relation "measures
    [\<lambda>x. case x of Inl v \<Rightarrow> lazies v | Inr (Inl (its, _)) \<Rightarrow> items_lazies its
       | Inr (Inr (_, vs)) \<Rightarrow> sum_list (map lazies vs),
     \<lambda>x. case x of Inl v \<Rightarrow> size v | Inr (Inl (its, _)) \<Rightarrow> size_list (size_prod size size) its
       | Inr (Inr (_, vs)) \<Rightarrow> size_list size vs]", goal_cases)
  case (3 f src d)
  then show ?case by (cases d) (auto dest!: ensure_items)
qed auto

definition PlainDictToStruct :: "items \<Rightarrow> serror + pstruct" where
  "PlainDictToStruct its = dictToFields its []"

definition StarlarkToStruct :: "sval \<Rightarrow> serror + pstruct" where
  "StarlarkToStruct d =
     (case d of
        SStarlarkDict f its \<Rightarrow> dictToFields its []
      | SLazyDict f src \<Rightarrow> bind_res (ensure f src) (\<lambda>m. dictToFields (snd m) [])
      | _ \<Rightarrow> Inl (EUnsupportedType (stype d)))"

section \<open>Round trip\<close>

text \<open>
  What the round trip cannot keep apart: a value with no kind and null, and the two zeros.
\<close>

definition fnorm :: "float64 \<Rightarrow> float64" where
  "fnorm f = (if f = FNegZero then FFin 0 else f)"

fun pnorm :: "pvalue \<Rightarrow> pvalue" where
  "pnorm PNil = PNull"
| "pnorm (PNum f) = PNum (fnorm f)"
| "pnorm (PStruct fs) = PStruct (map (\<lambda>(k, v). (k, pnorm v)) fs)"
| "pnorm (PList vs) = PList (map pnorm vs)"
| "pnorm v = v"

definition pnorm_fields :: "pstruct \<Rightarrow> pstruct" where
  "pnorm_fields fs = map (\<lambda>(k, v). (k, pnorm v)) fs"

lemma pnorm_struct [simp]: "pnorm (PStruct fs) = PStruct (pnorm_fields fs)"
  by (simp add: pnorm_fields_def)

lemma pnorm_fields_simps [simp]:
  "pnorm_fields [] = []"
  "pnorm_fields ((k, v) # fs) = (k, pnorm v) # pnorm_fields fs"
  by (simp_all add: pnorm_fields_def)

declare pnorm.simps(3) [simp del]

lemma convertNumber_back:
  "convertNumber f = Inr sv \<Longrightarrow> starlarkToProtoValue sv = Inr (PNum (fnorm f))"
proof -
  have bound: "abs \<lfloor>r\<rfloor> \<le> maxSafeInt" if "\<not> r > 2 ^ 53" "\<not> r < - (2 ^ 53)" for r :: rat
    using that by (simp add: maxSafeInt_def abs_le_iff floor_le_iff minus_le_iff [of "\<lfloor>r\<rfloor>"] le_floor_iff)
  assume "convertNumber f = Inr sv"
  then show ?thesis using bound
    by (cases f) (force simp: convertNumber_def isWholeNumber_def f_val_def fnorm_def split: if_splits)+
qed

lemma freeze_back:
  "starlarkToProtoValue v = r \<Longrightarrow> lazies v = 0 \<Longrightarrow> r = Inr p \<Longrightarrow> starlarkToProtoValue (freeze v) = Inr p"
  "dictToFields its acc = r' \<Longrightarrow> items_lazies its = 0 \<Longrightarrow> r' = Inr fs \<Longrightarrow>
     dictToFields (map (\<lambda>(k, v). (freeze k, freeze v)) its) acc = Inr fs"
  "listToValues i vs = r'' \<Longrightarrow> sum_list (map lazies vs) = 0 \<Longrightarrow> r'' = Inr ps \<Longrightarrow>
     listToValues i (map freeze vs) = Inr ps"
  by (induction v and its acc and i vs arbitrary: r p and r' fs and r'' ps
      rule: starlarkToProtoValue_dictToFields_listToValues.induct)
    (auto simp: bind_res_eq_Inr)

lemma mkDict_back:
  "items_lazies d = 0 \<Longrightarrow> dictToFields d [] = Inr fs \<Longrightarrow>
     starlarkToProtoValue (mkDict fac frz d) = Inr (PStruct fs)"
  by (auto simp: mkDict_def Let_def bind_res_eq_Inr freeze_back(2) split: dictFactory.splits)

lemma mkList_back:
  "sum_list (map lazies vs) = 0 \<Longrightarrow> listToValues 0 vs = Inr ps \<Longrightarrow>
     starlarkToProtoValue (mkList frz vs) = Inr (PList ps)"
  by (auto simp: mkList_def bind_res_eq_Inr freeze_back(3))

text \<open>Converting the fields of a struct appends one item per field.\<close>

lemma convertFields_append:
  "convertFields fac frz fs d = Inr d' \<Longrightarrow> distinct (map fst fs) \<Longrightarrow>
     (\<And>k. k \<in> fst ` set fs \<Longrightarrow> map_of d (SString k) = None) \<Longrightarrow>
     \<exists>svs. d' = d @ zip (map (SString \<circ> fst) fs) svs \<and> length svs = length fs \<and>
       list_all2 (\<lambda>kv sv. convertProtoValue fac frz (snd kv) = Inr sv) fs svs"
proof (induction fs arbitrary: d)
  case (Cons kv fs)
  obtain k v where kv: "kv = (k, v)" by force
  from Cons.prems(1) obtain sv where sv: "convertProtoValue fac frz v = Inr sv"
    and rest: "convertFields fac frz fs (dict_set (SString k) sv d) = Inr d'"
    by (auto simp: kv bind_res_eq_Inr)
  have set: "dict_set (SString k) sv d = d @ [(SString k, sv)]"
    using Cons.prems(3) [of k] by (intro dict_set_fresh) (simp add: kv dict_get_string)
  have "map_of (d @ [(SString k, sv)]) (SString k') = None" if "k' \<in> fst ` set fs" for k'
  proof -
    have "k' \<noteq> k" using that Cons.prems(2) by (auto simp: kv)
    moreover have "map_of d (SString k') = None" using that by (intro Cons.prems(3)) simp
    ultimately show ?thesis by (simp add: map_add_def)
  qed
  with Cons.IH [OF rest [unfolded set]] Cons.prems(2) obtain svs
    where "d' = (d @ [(SString k, sv)]) @ zip (map (SString \<circ> fst) fs) svs"
      "length svs = length fs" "list_all2 (\<lambda>kv sv. convertProtoValue fac frz (snd kv) = Inr sv) fs svs"
    by (auto simp: kv comp_def)
  then have "d' = d @ zip (map (SString \<circ> fst) (kv # fs)) (sv # svs) \<and>
      length (sv # svs) = length (kv # fs) \<and>
      list_all2 (\<lambda>kv sv. convertProtoValue fac frz (snd kv) = Inr sv) (kv # fs) (sv # svs)"
    using sv by (simp add: kv)
  then show ?case by blast
qed simp

lemma dictToFields_zip:
  "list_all2 (\<lambda>kv sv. starlarkToProtoValue sv = Inr (pnorm (snd kv))) fs svs \<Longrightarrow>
     distinct (map fst fs) \<Longrightarrow> fst ` set fs \<inter> fst ` set acc = {} \<Longrightarrow>
     dictToFields (zip (map (SString \<circ> fst) fs) svs) acc = Inr (acc @ pnorm_fields fs)"
proof (induction arbitrary: acc rule: list_all2_induct)
  case (Cons kv fs sv svs)
  obtain k v where kv: "kv = (k, v)" by force
  have "AList.update k (pnorm v) acc = acc @ [(k, pnorm v)]"
    using Cons.prems by (intro update_append_fresh) (auto simp: kv)
  moreover have "fst ` set fs \<inter> fst ` set (acc @ [(k, pnorm v)]) = {}"
    using Cons.prems by (auto simp: kv)
  ultimately show ?case
    using Cons.IH [of "acc @ [(k, pnorm v)]"] Cons.prems Cons.hyps by (simp add: kv)
qed simp

lemma convertElems_list_all2:
  "convertElems fac frz i vs = Inr svs \<longleftrightarrow>
     list_all2 (\<lambda>v sv. convertProtoValue fac frz v = Inr sv) vs svs"
proof (induction vs arbitrary: i svs)
  case (Cons v vs)
  then show ?case by (cases svs) (auto simp: bind_res_eq_Inr)
qed auto

lemma listToValues_list_all2:
  "listToValues i svs = Inr ps \<longleftrightarrow> list_all2 (\<lambda>sv p. starlarkToProtoValue sv = Inr p) svs ps"
proof (induction svs arbitrary: i ps)
  case (Cons v vs)
  then show ?case by (cases ps) (auto simp: bind_res_eq_Inr)
qed auto

lemma convertFields_round_trip:
  assumes "convertFields fac frz fs [] = Inr d" and "distinct (map fst fs)"
    and "\<And>k v sv. (k, v) \<in> set fs \<Longrightarrow> convertProtoValue fac frz v = Inr sv \<Longrightarrow>
           starlarkToProtoValue sv = Inr (pnorm v)"
  shows "dictToFields d [] = Inr (pnorm_fields fs)"
proof -
  obtain svs where d: "d = zip (map (SString \<circ> fst) fs) svs"
    and svs: "list_all2 (\<lambda>kv sv. convertProtoValue fac frz (snd kv) = Inr sv) fs svs"
    using convertFields_append [OF assms(1,2)] by auto
  from svs have "list_all2 (\<lambda>kv sv. starlarkToProtoValue sv = Inr (pnorm (snd kv))) fs svs"
    by (rule list.rel_mono_strong) (use assms(3) in \<open>fastforce dest: set_zip_leftD\<close>)
  from dictToFields_zip [OF this assms(2), of "[]"] show ?thesis by (simp add: d)
qed

lemma convert_round_trip:
  "convertProtoValue fac frz v = Inr sv \<Longrightarrow> pvalue_wf v \<Longrightarrow> starlarkToProtoValue sv = Inr (pnorm v)"
proof (induction v arbitrary: sv)
  case (PStruct fs)
  then obtain d where d: "convertFields fac frz fs [] = Inr d" and sv: "sv = mkDict fac frz d"
    by (auto simp: bind_res_eq_Inr)
  have "dictToFields d [] = Inr (pnorm_fields fs)"
  proof (rule convertFields_round_trip [OF d])
    show "distinct (map fst fs)" using PStruct.prems by (simp add: pstruct_wf_def)
    fix k v sv assume kv: "(k, v) \<in> set fs" and "convertProtoValue fac frz v = Inr sv"
    moreover from kv PStruct.prems have "pvalue_wf v" by (auto simp: pstruct_wf_def list_all_iff)
    ultimately show "starlarkToProtoValue sv = Inr (pnorm v)" by (intro PStruct.IH [OF kv]) auto
  qed
  then show ?case using lazies_convert(2) [OF d] by (simp add: sv mkDict_back)
next
  case (PList vs)
  then obtain svs where svs: "convertElems fac frz 0 vs = Inr svs" and sv: "sv = mkList frz svs"
    by (auto simp: bind_res_eq_Inr)
  have "list_all2 (\<lambda>v s. starlarkToProtoValue s = Inr (pnorm v)) vs svs"
    using svs [unfolded convertElems_list_all2]
    by (rule list.rel_mono_strong) (use PList in \<open>auto simp: list_all_iff\<close>)
  then have "listToValues 0 svs = Inr (map pnorm vs)"
    by (auto simp: listToValues_list_all2 list_all2_conv_all_nth)
  then show ?case using lazies_convert(3) [OF svs] by (simp add: sv mkList_back)
qed (auto dest: convertNumber_back)

lemma StructToStarlark_round_trip:
  assumes "StructToStarlark (Some fs) frz = Inr d" and "pstruct_wf fs"
  shows "StarlarkToStruct d = Inr (pnorm_fields fs)"
proof -
  have "convertProtoValue starlarkDictFactory frz (PStruct fs) = Inr d"
    using assms(1) by (simp add: StructToStarlark_def)
  from convert_round_trip [OF this] assms(2)
  have "starlarkToProtoValue d = Inr (PStruct (pnorm_fields fs))" by simp
  moreover obtain its where "d = SStarlarkDict frz its"
    using StructToStarlark_shape [OF assms(1)] by blast
  ultimately show ?thesis by (auto simp: StarlarkToStruct_def bind_res_eq_Inr)
qed

section \<open>Which bodies convert\<close>

text \<open>No whole number outside the open interval of the int64 bounds, at any depth.\<close>

definition number_ok :: "float64 \<Rightarrow> bool" where
  "number_ok f \<longleftrightarrow> (isWholeNumber f \<longrightarrow> - (2 ^ 63) < f_val f \<and> f_val f < 2 ^ 63)"

fun numbers_ok :: "pvalue \<Rightarrow> bool" where
  "numbers_ok (PNum f) = number_ok f"
| "numbers_ok (PStruct fs) = list_all (\<lambda>(k, v). numbers_ok v) fs"
| "numbers_ok (PList vs) = list_all numbers_ok vs"
| "numbers_ok _ = True"

definition converts :: "'e + 'a \<Rightarrow> bool" where
  "converts r \<longleftrightarrow> (\<exists>x. r = Inr x)"

lemma converts_simps [simp]:
  "converts (Inr x)" "\<not> converts (Inl e)"
  "converts (wrap_err w r) = converts r"
  by (auto simp: converts_def)

lemma converts_bind: "converts (bind_res r f) \<longleftrightarrow> (\<exists>x. r = Inr x \<and> converts (f x))"
  by (auto simp: converts_def bind_res_eq_Inr)

lemma converts_bind_Inr [simp]: "converts (bind_res r (\<lambda>x. Inr (g x))) = converts r"
  by (auto simp: converts_def bind_res_eq_Inr)

lemma convertNumber_converts [simp]: "converts (convertNumber f) = number_ok f"
  by (auto simp: convertNumber_def number_ok_def)

lemma convert_converts:
  "converts (convertProtoValue fac frz v) = numbers_ok v"
  "converts (convertFields fac frz fs d) = list_all (\<lambda>(k, v). numbers_ok v) fs"
  "converts (convertElems fac frz i vs) = list_all numbers_ok vs"
  by (induction fac frz v and fac frz fs d and fac frz i vs
      rule: convertProtoValue_convertFields_convertElems.induct)
    (auto simp: converts_bind, auto simp: converts_def bind_res_eq_Inr)

section \<open>Properties\<close>

text \<open>
  C9. A protobuf struct that converts to a Starlark dict converts back to itself: nothing is lost or
  reordered, whatever the freezing, except that negative zero becomes zero and an unset value becomes null.
\<close>

theorem struct_round_trip:
  assumes "StructToStarlark (Some fs) frz = Inr d" and "pstruct_wf fs"
  shows "StarlarkToStruct d = Inr (pnorm_fields fs)"
  using assms by (rule StructToStarlark_round_trip)

definition ex_struct :: pstruct where
  "ex_struct = [(''kind'', PStr ''Bucket''),
     (''spec'', PStruct [(''size'', PNum (FFin 3)), (''tags'', PList [PBool True, PNum (FFin (1 / 2)), PNull])])]"

theorem struct_round_trip_witness:
  "\<exists>d. StructToStarlark (Some ex_struct) True = Inr d \<and> StarlarkToStruct d = Inr ex_struct"
proof -
  have "list_all (\<lambda>(k, v). numbers_ok v) ex_struct"
    by (simp add: ex_struct_def number_ok_def f_val_def)
  then have "converts (StructToStarlark (Some ex_struct) True)"
    by (simp add: StructToStarlark_def convert_converts(2))
  then obtain d where d: "StructToStarlark (Some ex_struct) True = Inr d" by (auto simp: converts_def)
  have "pstruct_wf ex_struct" by (simp add: ex_struct_def pstruct_wf_def)
  from struct_round_trip [OF d this] d show ?thesis by (simp add: ex_struct_def fnorm_def)
qed

text \<open>
  Conversion fails exactly on a struct that contains, at any depth, a whole number outside the open
  interval from -2^63 to 2^63; in particular it never fails on strings, fractions, NaN or infinities.
\<close>

theorem struct_converts_exactly:
  "(\<exists>d. StructToStarlark (Some fs) frz = Inr d) =
     list_all (\<lambda>(k, v). numbers_ok v) fs"
  using convert_converts(2) [of starlarkDictFactory frz fs "[]"]
  by (auto simp: StructToStarlark_def converts_def bind_res_eq_Inr)

end
