(* ===== verification/Levenshtein.thy ===== *)
theory Levenshtein
  imports Prelude
begin

text \<open>
  \<^verbatim>\<open>schema/levenshtein.go\<close>: the edit distance with two rows, shown equal to the least cost of an
  alignment of the two strings, and the choice of a suggestion for a misspelt field name.
\<close>

section \<open>Model\<close>

text \<open>
  The inner loop, from a column on: \<open>prev\<close> is the previous row from \<^verbatim>\<open>prev[j-1]\<close> on, \<open>left\<close> is
  \<^verbatim>\<open>curr[j-1]\<close>.
\<close>

fun lev_row :: "char \<Rightarrow> string \<Rightarrow> nat list \<Rightarrow> nat \<Rightarrow> nat list" where
  "lev_row ca (cb # bs) (p # q # ps) left =
     (let cost = (if ca = cb then 0 else 1);
          x = min (left + 1) (min (q + 1) (p + cost))
      in x # lev_row ca bs (q # ps) x)"
| "lev_row ca _ _ left = []"

text \<open>The outer loop from row \<open>i\<close> on; the new row becomes the previous one.\<close>

fun lev_rows :: "string \<Rightarrow> string \<Rightarrow> nat list \<Rightarrow> nat \<Rightarrow> nat list" where
  "lev_rows [] b prev i = prev"
| "lev_rows (ca # a) b prev i = lev_rows a b (i # lev_row ca b prev i) (i + 1)"

definition levenshtein :: "string \<Rightarrow> string \<Rightarrow> nat" where
  "levenshtein a b =
     (if length a = 0 then length b
      else if length b = 0 then length a
      else lev_rows a b [0..<length b + 1] 1 ! length b)"

fun suggest_loop :: "string \<Rightarrow> string list \<Rightarrow> string \<Rightarrow> nat \<Rightarrow> string \<times> nat" where
  "suggest_loop unknown [] best bestDist = (best, bestDist)"
| "suggest_loop unknown (v # vs) best bestDist =
     (let d = levenshtein unknown v
      in if d < bestDist then suggest_loop unknown vs v d else suggest_loop unknown vs best bestDist)"

definition Suggest :: "string \<Rightarrow> string list \<Rightarrow> string" where
  "Suggest unknown valid =
     (if length valid = 0 then []
      else let threshold = max 1 (length unknown div 3);
               (best, bestDist) = suggest_loop unknown valid [] (threshold + 1)
           in if bestDist \<le> threshold then best else [])"

section \<open>Edit distance\<close>

text \<open>\<open>align n xs ys\<close>: \<open>xs\<close> becomes \<open>ys\<close> by keeping, replacing, inserting and deleting characters from left
  to right, \<open>n\<close> of them not kept.\<close>

inductive align :: "nat \<Rightarrow> 'a list \<Rightarrow> 'a list \<Rightarrow> bool" where
  nil: "align 0 [] []"
| keep: "align n xs ys \<Longrightarrow> align n (x # xs) (x # ys)"
| repl: "align n xs ys \<Longrightarrow> align (Suc n) (x # xs) (y # ys)"
| ins: "align n xs ys \<Longrightarrow> align (Suc n) xs (y # ys)"
| del: "align n xs ys \<Longrightarrow> align (Suc n) (x # xs) ys"

inductive_cases align_NilE: "align n [] ys"

fun ed :: "'a list \<Rightarrow> 'a list \<Rightarrow> nat" where
  "ed [] ys = length ys"
| "ed xs [] = length xs"
| "ed (x # xs) (y # ys) =
     min (ed (x # xs) ys + 1) (min (ed xs (y # ys) + 1) (ed xs ys + (if x = y then 0 else 1)))"

lemma ed_Nil2 [simp]: "ed xs [] = length xs"
  by (cases xs) auto

lemma align_ins_all: "align (length ys) [] ys"
  by (induction ys) (auto intro: align.intros)

lemma align_del_all: "align (length xs) xs []"
  by (induction xs) (auto intro: align.intros)

lemma align_ed: "align (ed xs ys) xs ys"
proof (induction xs ys rule: ed.induct)
  case (3 x xs y ys)
  let ?a = "ed (x # xs) ys + 1" and ?b = "ed xs (y # ys) + 1"
    and ?c = "ed xs ys + (if x = y then 0 else 1)"
  have "align ?a (x # xs) (y # ys)" "align ?b (x # xs) (y # ys)" "align ?c (x # xs) (y # ys)"
    using 3 by (auto intro: align.intros)
  moreover have "ed (x # xs) (y # ys) \<in> {?a, ?b, ?c}" by (simp add: min_def)
  ultimately show ?case by auto
next
  case (2 x xs)
  then show ?case using align_del_all [of "x # xs"] by simp
qed (auto intro: align_ins_all)

lemma ed_Cons_le1: "ed xs (y # ys) \<le> Suc (ed xs ys)"
  by (cases xs) simp_all

lemma ed_Cons_le2: "ed (x # xs) ys \<le> Suc (ed xs ys)"
  by (cases ys) simp_all

lemma ed_Cons_Cons_le: "ed (x # xs) (y # ys) \<le> ed xs ys + (if x = y then 0 else 1)"
  by simp

lemma ed_le_align: "align n xs ys \<Longrightarrow> ed xs ys \<le> n"
proof (induction rule: align.induct)
  case (keep n xs ys x)
  then show ?case using ed_Cons_Cons_le [of x xs x ys] by simp
next
  case (repl n xs ys x y)
  then show ?case using ed_Cons_Cons_le [of x xs y ys] by (simp split: if_splits)
next
  case (ins n xs ys y)
  then show ?case using ed_Cons_le1 [of xs y ys] by simp
next
  case (del n xs ys x)
  then show ?case using ed_Cons_le2 [of x xs ys] by simp
qed simp

lemma align_append: "align n xs ys \<Longrightarrow> align m us vs \<Longrightarrow> align (n + m) (xs @ us) (ys @ vs)"
  by (induction rule: align.induct) (auto intro: align.intros)

lemma align_rev: "align n xs ys \<Longrightarrow> align n (rev xs) (rev ys)"
proof (induction rule: align.induct)
  case (keep n xs ys x)
  have "align 0 [x] [x]" by (intro align.intros)
  from align_append [OF keep.IH this] show ?case by simp
next
  case (repl n xs ys x y)
  have "align 1 [x] [y]" using align.repl [OF align.nil] by simp
  from align_append [OF repl.IH this] show ?case by simp
next
  case (ins n xs ys y)
  have "align 1 [] [y]" using align_ins_all [of "[y]"] by simp
  from align_append [OF ins.IH this] show ?case by simp
next
  case (del n xs ys x)
  have "align 1 [x] []" using align_del_all [of "[x]"] by simp
  from align_append [OF del.IH this] show ?case by simp
qed (auto intro: align.intros)

lemma ed_rev: "ed (rev xs) (rev ys) = ed xs ys"
  by (metis align_ed align_rev dual_order.antisym ed_le_align rev_rev_ident)

lemma align_sym: "align n xs ys \<Longrightarrow> align n ys xs"
  by (induction rule: align.induct) (auto intro: align.intros)

lemma ed_sym: "ed xs ys = ed ys xs"
  by (meson align_ed align_sym dual_order.antisym ed_le_align)

lemma ed_0_iff: "ed xs ys = 0 \<longleftrightarrow> xs = ys"
proof
  have "align n xs ys \<Longrightarrow> n = 0 \<Longrightarrow> xs = ys" for n
    by (induction rule: align.induct) auto
  then show "ed xs ys = 0 \<Longrightarrow> xs = ys" using align_ed by metis
  have "align 0 xs xs" by (induction xs) (auto intro: align.intros)
  then show "xs = ys \<Longrightarrow> ed xs ys = 0" using ed_le_align by fastforce
qed

lemma ed_length_diff: "length xs \<le> length ys + ed xs ys"
proof -
  have "align n xs ys \<Longrightarrow> length xs \<le> length ys + n" for n
    by (induction rule: align.induct) auto
  then show ?thesis using align_ed by blast
qed

section \<open>The two-row algorithm\<close>

text \<open>The row of distances from \<open>ra\<close> to the prefixes of the second string, both reversed.\<close>

fun dist_row :: "string \<Rightarrow> string \<Rightarrow> string \<Rightarrow> nat list" where
  "dist_row ra rpre [] = [ed ra rpre]"
| "dist_row ra rpre (c # bs) = ed ra rpre # dist_row ra (c # rpre) bs"

lemma dist_row_neq_Nil [simp]: "dist_row ra rpre bs \<noteq> []"
  by (cases bs) auto

lemma dist_row_hd_tl: "dist_row ra rpre bs = ed ra rpre # tl (dist_row ra rpre bs)"
  by (cases bs) auto

lemma length_dist_row [simp]: "length (dist_row ra rpre bs) = Suc (length bs)"
  by (induction bs arbitrary: rpre) auto

lemma nth_dist_row: "dist_row ra rpre bs ! length bs = ed ra (rev bs @ rpre)"
  by (induction bs arbitrary: rpre) auto

lemma dist_row_Nil: "dist_row [] rpre bs = [length rpre..<Suc (length rpre + length bs)]"
proof (induction bs arbitrary: rpre)
  case (Cons c bs)
  then show ?case by (simp add: upt_conv_Cons [of "length rpre"] del: upt_Suc)
qed simp

lemma lev_row_correct:
  "lev_row ca bs (dist_row ra rpre bs) (ed (ca # ra) rpre) = tl (dist_row (ca # ra) rpre bs)"
proof (induction bs arbitrary: rpre)
  case (Cons cb bs)
  have "lev_row ca (cb # bs) (dist_row ra rpre (cb # bs)) (ed (ca # ra) rpre) =
      ed (ca # ra) (cb # rpre) # lev_row ca bs (dist_row ra (cb # rpre) bs) (ed (ca # ra) (cb # rpre))"
    using dist_row_hd_tl [of ra "cb # rpre" bs]
    by (cases "dist_row ra (cb # rpre) bs") (simp_all add: Let_def)
  also have "\<dots> = dist_row (ca # ra) (cb # rpre) bs"
    by (simp only: Cons.IH dist_row_hd_tl [symmetric])
  finally show ?case by simp
qed simp

lemma lev_rows_correct:
  "lev_rows a b (dist_row ra [] b) (Suc (length ra)) = dist_row (rev a @ ra) [] b"
proof (induction a arbitrary: ra)
  case (Cons ca a)
  have "Suc (length ra) # lev_row ca b (dist_row ra [] b) (Suc (length ra)) = dist_row (ca # ra) [] b"
    using lev_row_correct [of ca b ra "[]"] dist_row_hd_tl [of "ca # ra" "[]" b] by simp
  then show ?case using Cons.IH [of "ca # ra"] by simp
qed simp

lemma levenshtein_eq_ed: "levenshtein a b = ed a b"
proof (cases "a = [] \<or> b = []")
  case False
  have "dist_row [] [] b = [0..<length b + 1]" using dist_row_Nil [of "[]" b] by simp
  then have "levenshtein a b = ed (rev a) (rev b)"
    using False lev_rows_correct [of a b "[]"] by (simp add: levenshtein_def nth_dist_row)
  then show ?thesis by (simp add: ed_rev)
qed (auto simp: levenshtein_def)

section \<open>Suggestions\<close>

lemma suggest_loop_correct:
  "suggest_loop u vs best bd = (b, d) \<Longrightarrow>
     d = Min (insert bd (levenshtein u ` set vs)) \<and>
     (if d = bd then b = best else b \<in> set vs \<and> levenshtein u b = d)"
proof (induction u vs best bd rule: suggest_loop.induct)
  case (2 u v vs best bd)
  show ?case
  proof (cases "levenshtein u v < bd")
    case True
    with "2.prems" have "suggest_loop u vs v (levenshtein u v) = (b, d)" by (simp add: Let_def)
    from "2.IH"(1) [OF refl True this]
    have d: "d = Min (insert (levenshtein u v) (levenshtein u ` set vs))"
      and b: "if d = levenshtein u v then b = v else b \<in> set vs \<and> levenshtein u b = d" by auto
    have "d \<le> levenshtein u v" unfolding d by (intro Min_le) auto
    then have "d < bd" using True by simp
    moreover have "Min (insert bd (insert (levenshtein u v) (levenshtein u ` set vs))) = min bd d"
      unfolding d by (subst Min_insert) auto
    ultimately show ?thesis using b by (auto split: if_splits)
  next
    case False
    with "2.prems" have "suggest_loop u vs best bd = (b, d)" by (simp add: Let_def)
    from "2.IH"(2) [OF refl False this]
    have d: "d = Min (insert bd (levenshtein u ` set vs))"
      and b: "if d = bd then b = best else b \<in> set vs \<and> levenshtein u b = d" by auto
    have "Min (insert (levenshtein u v) (insert bd (levenshtein u ` set vs))) = min (levenshtein u v) d"
      unfolding d by (subst Min_insert) auto
    moreover have "d \<le> bd" unfolding d by (intro Min_le) auto
    ultimately have "Min (insert bd (levenshtein u ` set (v # vs))) = d"
      using False by (simp add: insert_commute)
    then show ?thesis using b by auto
  qed
qed auto

text \<open>A suggestion is a valid name at the least distance, and one is made exactly when some valid name is
  within the threshold.\<close>

lemma Suggest_correct:
  fixes u valid
  defines "t \<equiv> max 1 (length u div 3)"
  assumes "[] \<notin> set valid"
  shows "if \<exists>v \<in> set valid. levenshtein u v \<le> t
         then Suggest u valid \<in> set valid \<and>
              (\<forall>v \<in> set valid. levenshtein u (Suggest u valid) \<le> levenshtein u v)
         else Suggest u valid = []"
proof (cases "valid = []")
  case False
  obtain b d where bd: "suggest_loop u valid [] (Suc t) = (b, d)" by force
  from suggest_loop_correct [OF bd]
  have d: "d = Min (insert (Suc t) (levenshtein u ` set valid))"
    and b: "if d = Suc t then b = [] else b \<in> set valid \<and> levenshtein u b = d" by auto
  have le: "d \<le> levenshtein u v" if "v \<in> set valid" for v
    unfolding d using that by (intro Min_le) auto
  have "d \<le> t \<longleftrightarrow> (\<exists>v \<in> set valid. levenshtein u v \<le> t)"
    unfolding d using False by (subst Min_le_iff) auto
  moreover have "Suggest u valid = (if d \<le> t then b else [])"
    using False bd by (simp add: Suggest_def Let_def t_def)
  ultimately show ?thesis using b le by auto
qed (simp add: Suggest_def)

section \<open>Properties\<close>

text \<open>
  C26. The two-row algorithm computes the edit distance: the result is the cost of an alignment of the two
  strings by insertions, deletions and replacements, and no alignment is cheaper. It is symmetric and zero
  exactly on equal strings.
\<close>

theorem levenshtein_is_edit_distance:
  "levenshtein a b = (LEAST n. align n a b) \<and> align (levenshtein a b) a b \<and>
   levenshtein a b = levenshtein b a \<and> (levenshtein a b = 0) = (a = b)"
proof -
  have "(LEAST n. align n a b) = ed a b" by (rule Least_equality) (auto simp: align_ed ed_le_align)
  then show ?thesis by (simp add: levenshtein_eq_ed align_ed ed_sym ed_0_iff)
qed

text \<open>
  \<^verbatim>\<open>Suggest\<close> proposes a valid name exactly when one lies within a third of the length of the misspelt
  name (but at least one edit), and then one at minimal distance.
\<close>

theorem suggest_nearest:
  assumes "[] \<notin> set valid"
  shows "if list_ex (\<lambda>v. levenshtein u v \<le> max 1 (length u div 3)) valid
         then Suggest u valid \<in> set valid \<and>
              list_all (\<lambda>v. levenshtein u (Suggest u valid) \<le> levenshtein u v) valid
         else Suggest u valid = []"
  using Suggest_correct [OF assms, of u] by (simp add: list_ex_iff list_all_iff)

end
