(* ===== verification/Schema.thy ===== *)
theory Schema
  imports Convert Levenshtein
begin

text \<open>
  \<^verbatim>\<open>schema/field.go\<close>, \<^verbatim>\<open>schema/validate.go\<close> and \<^verbatim>\<open>schema/schema.go\<close>: field descriptors, the checks on one
  value, and the validation of keyword arguments and of single assignments.

  Two functions of the Starlark interpreter are arguments of the definitions that use them:
  \<open>repr\<close> for \<^verbatim>\<open>Value.String()\<close> and \<open>equal\<close> for \<^verbatim>\<open>starlark.Equal\<close>.
\<close>

section \<open>Field descriptors\<close>

definition validTypes :: "string list" where
  "validTypes = [[], ''string'', ''int'', ''float'', ''bool'', ''list'', ''dict'']"

text \<open>\<^verbatim>\<open>typeParam.Unpack\<close>.\<close>

definition typeParam_Unpack :: "sval \<Rightarrow> serror + string \<times> schema option" where
  "typeParam_Unpack v =
     (case v of
        SString s \<Rightarrow>
          if s \<noteq> [] \<and> s \<notin> set validTypes
          then Inl (EMsg (''invalid type '' @ go_quote s @
                 ''; valid types: bool, dict, float, int, list, string''))
          else Inr (s, None)
      | SSchema s \<Rightarrow> Inr ([], Some s)
      | _ \<Rightarrow> Inl (EMsg (''type= must be a string or schema, got '' @ stype v)))"

text \<open>The arguments of \<^verbatim>\<open>field()\<close> after \<^verbatim>\<open>UnpackArgs\<close>; \<open>tp\<close> is the result of \<open>typeParam_Unpack\<close>.\<close>

definition fieldImpl ::
  "string \<times> schema option \<Rightarrow> bool \<Rightarrow> sval \<Rightarrow> sval \<Rightarrow> string \<Rightarrow> sval \<Rightarrow> serror + sval" where
  "fieldImpl tp required defVal enumVal doc itemsVal =
     bind_res
       (if itemsVal = SNone then Inr None
        else (case itemsVal of
            SSchema it \<Rightarrow>
              if fst tp \<noteq> ''list'' \<or> snd tp \<noteq> None
              then Inl (EMsg ''field: items= is only valid when type=\"list\"'')
              else Inr (Some it)
          | _ \<Rightarrow> Inl (EMsg (''field: items= must be a schema, got '' @ stype itemsVal))))
       (\<lambda>its. bind_res
         (if enumVal = SNone then Inr None
          else (case enumVal of
              SList f vs \<Rightarrow> Inr (Some vs)
            | _ \<Rightarrow> Inl (EMsg (''field: enum must be a list, got '' @ stype enumVal))))
         (\<lambda>enum.
           if required \<and> defVal \<noteq> SNone
           then Inl (EMsg ''field: required and default are mutually exclusive'')
           else Inr (SField (FieldDescriptor (fst tp) (snd tp) its required defVal enum doc))))"

text \<open>The invariant that \<^verbatim>\<open>field()\<close> establishes on descriptors.\<close>

definition field_wf :: "FieldDescriptor \<Rightarrow> bool" where
  "field_wf fd \<longleftrightarrow>
     fd_typeName fd \<in> set validTypes \<and>
     (fd_schema fd \<noteq> None \<longrightarrow> fd_typeName fd = []) \<and>
     (fd_items fd \<noteq> None \<longrightarrow> fd_typeName fd = ''list'' \<and> fd_schema fd = None) \<and>
     (fd_required fd \<longrightarrow> fd_defVal fd = SNone)"

lemma typeParam_Unpack_wf:
  "typeParam_Unpack v = Inr tp \<Longrightarrow> fst tp \<in> set validTypes \<and> (snd tp \<noteq> None \<longrightarrow> fst tp = [])"
  by (cases v) (auto simp: typeParam_Unpack_def validTypes_def split: if_splits)

lemma fieldImpl_wf:
  "typeParam_Unpack v = Inr tp \<Longrightarrow> fieldImpl tp required defVal enumVal doc itemsVal = Inr f \<Longrightarrow>
     \<exists>fd. f = SField fd \<and> field_wf fd \<and> fd_required fd = required \<and> fd_defVal fd = defVal"
  using typeParam_Unpack_wf [of v tp]
  by (auto simp: fieldImpl_def field_wf_def bind_res_eq_Inr split: if_splits sval.splits)

section \<open>The \<open>schema()\<close> builtin\<close>

fun schema_kwargs ::
  "(string \<times> sval) list \<Rightarrow> string \<Rightarrow> (string \<times> FieldDescriptor) list \<Rightarrow>
     serror + string \<times> (string \<times> FieldDescriptor) list"
where
  "schema_kwargs [] doc flds = Inr (doc, flds)"
| "schema_kwargs ((key, val) # kwargs) doc flds =
     (if key = ''doc'' then
        (case val of SString d \<Rightarrow> schema_kwargs kwargs d flds
         | _ \<Rightarrow> Inl (EMsg (''schema: doc must be a string, got '' @ stype val)))
      else (case val of SField fd \<Rightarrow> schema_kwargs kwargs doc (flds @ [(key, fd)])
         | _ \<Rightarrow> Inl (EMsg (''schema: field '' @ go_quote key @ '' value must be a field(), got '' @
                  stype val))))"

text \<open>\<open>ident\<close> is the identity of the new object.\<close>

definition schemaImpl :: "nat \<Rightarrow> sval list \<Rightarrow> (string \<times> sval) list \<Rightarrow> serror + sval" where
  "schemaImpl ident args kwargs =
     (case args of
        [SString nm] \<Rightarrow>
          bind_res (schema_kwargs kwargs [] []) (\<lambda>r. Inr (SSchema (Schema ident nm (fst r) (snd r))))
      | [v] \<Rightarrow> Inl (EMsg (''schema: name must be a string, got '' @ stype v))
      | _ \<Rightarrow> Inl (EMsg (''schema: requires exactly 1 positional argument (name), got '' @
               show_nat (length args))))"

lemma schema_kwargs_keys:
  "schema_kwargs kwargs doc flds = Inr (doc', flds') \<Longrightarrow>
     map fst flds' = map fst flds @ filter (\<lambda>k. k \<noteq> ''doc'') (map fst kwargs)"
  by (induction kwargs doc flds rule: schema_kwargs.induct) (auto split: if_splits sval.splits)

lemma schemaImpl_order:
  "schemaImpl i args kwargs = Inr v \<Longrightarrow>
     \<exists>s. v = SSchema s \<and> map fst (schema_fields s) = filter (\<lambda>k. k \<noteq> ''doc'') (map fst kwargs)"
  by (auto simp: schemaImpl_def bind_res_eq_Inr dest: schema_kwargs_keys split: list.splits sval.splits)

section \<open>Checks on one value\<close>

definition CheckType :: "sval \<Rightarrow> string \<Rightarrow> bool" where
  "CheckType val typeName =
     (if typeName = [] then True
      else if typeName = ''string'' then (case val of SString _ \<Rightarrow> True | _ \<Rightarrow> False)
      else if typeName = ''int'' then (case val of SInt _ \<Rightarrow> True | _ \<Rightarrow> False)
      else if typeName = ''float'' then (case val of SFloat _ \<Rightarrow> True | _ \<Rightarrow> False)
      else if typeName = ''bool'' then (case val of SBool _ \<Rightarrow> True | _ \<Rightarrow> False)
      else if typeName = ''list'' then (case val of SList _ _ \<Rightarrow> True | _ \<Rightarrow> False)
      else if typeName = ''dict'' then
        (case val of SDict _ _ \<Rightarrow> True | SStarlarkDict _ _ \<Rightarrow> True | SLazyDict _ _ \<Rightarrow> True
         | SSchemaDict _ _ _ \<Rightarrow> True | _ \<Rightarrow> False)
      else False)"

definition checkEnum :: "(sval \<Rightarrow> sval \<Rightarrow> bool) \<Rightarrow> sval \<Rightarrow> sval list \<Rightarrow> bool" where
  "checkEnum equal val enum = list_ex (equal val) enum"

definition formatEnumError :: "(sval \<Rightarrow> string) \<Rightarrow> string \<Rightarrow> sval \<Rightarrow> sval list \<Rightarrow> string" where
  "formatEnumError repr fieldName val enum =
     fieldName @ '': value '' @ repr val @ '' not in enum '' @ repr (SList False enum)"

definition unknownFieldErrorPath :: "string \<Rightarrow> string \<Rightarrow> string list \<Rightarrow> string" where
  "unknownFieldErrorPath path fieldName validFields =
     (let suggestion = Suggest fieldName validFields
      in if suggestion \<noteq> [] then path @ '': unknown field (did you mean '' @ go_quote suggestion @ ''?)''
         else path @ '': unknown field; valid fields: '' @ join '', '' validFields)"

definition unknownFieldError :: "string \<Rightarrow> string list \<Rightarrow> string" where
  "unknownFieldError fieldName validFields = unknownFieldErrorPath fieldName fieldName validFields"

definition joinPath :: "string \<Rightarrow> string \<Rightarrow> string" where
  "joinPath prefix field = (if prefix = [] then field else prefix @ ''.'' @ field)"

definition FieldNames :: "schema \<Rightarrow> string list" where
  "FieldNames s = map fst (schema_fields s)"

definition missing_error :: "string \<Rightarrow> string" where
  "missing_error path = path @ '': required field missing''"

definition expected_error :: "string \<Rightarrow> string \<Rightarrow> sval \<Rightarrow> string" where
  "expected_error path nm val = path @ '': expected '' @ nm @ '' or dict, got '' @ stype val"

definition type_error :: "(sval \<Rightarrow> string) \<Rightarrow> string \<Rightarrow> string \<Rightarrow> sval \<Rightarrow> string" where
  "type_error repr path typeName val =
     path @ '': expected '' @ typeName @ '', got '' @ stype val @ '' ('' @ repr val @ '')''"

section \<open>validateFields\<close>

text \<open>
  \<^const>\<open>None\<close> stands for the panic of the type assertion \<^verbatim>\<open>kv[0].(starlark.String)\<close>. \<open>vf_kwargs\<close> is the
  first phase, \<open>vf_value\<close> the body of its loop for a known field (the errors and the value to store),
  \<open>vf_elems\<close> the loop over the elements of a list, \<open>vf_missing\<close> the second phase.
\<close>

fun vf_missing ::
  "(string \<times> FieldDescriptor) list \<Rightarrow> string \<Rightarrow> string list \<Rightarrow> items \<Rightarrow> string list \<Rightarrow> items \<times> string list"
where
  "vf_missing [] prefix seen result errs = (result, errs)"
| "vf_missing ((nm, fd) # flds) prefix seen result errs =
     (if nm \<in> set seen then vf_missing flds prefix seen result errs
      else if fd_required fd
        then vf_missing flds prefix seen result (errs @ [missing_error (joinPath prefix nm)])
      else if fd_defVal fd \<noteq> SNone
        then vf_missing flds prefix seen (dict_set (SString nm) (fd_defVal fd) result) errs
      else vf_missing flds prefix seen result errs)"

lemma size_schema_fields:
  "map_of flds key = Some fd \<Longrightarrow> size fd < size_list (size_prod (\<lambda>x. 0) size) flds"
  by (induction flds) (auto split: if_splits)

lemma size_field: "map_of (schema_fields s) key = Some fd \<Longrightarrow> size fd < size s"
  using size_schema_fields [of "schema_fields s" key fd] by (cases s) simp

lemma size_subschema:
  "fd_schema fd = Some s \<Longrightarrow> size s < size fd"
  "fd_items fd = Some s \<Longrightarrow> size s < size fd"
  by (cases fd; simp)+

function (sequential) validateFields ::
  "(sval \<Rightarrow> string) \<Rightarrow> (sval \<Rightarrow> sval \<Rightarrow> bool) \<Rightarrow> schema \<Rightarrow> items \<Rightarrow> string \<Rightarrow> (items \<times> string list) option"
  and vf_kwargs ::
  "(sval \<Rightarrow> string) \<Rightarrow> (sval \<Rightarrow> sval \<Rightarrow> bool) \<Rightarrow> schema \<Rightarrow> items \<Rightarrow> string \<Rightarrow> string list \<Rightarrow> string list \<Rightarrow>
     items \<Rightarrow> (string list \<times> string list \<times> items) option"
  and vf_value ::
  "(sval \<Rightarrow> string) \<Rightarrow> (sval \<Rightarrow> sval \<Rightarrow> bool) \<Rightarrow> FieldDescriptor \<Rightarrow> string \<Rightarrow> sval \<Rightarrow>
     (string list \<times> sval option) option"
  and vf_elems ::
  "(sval \<Rightarrow> string) \<Rightarrow> (sval \<Rightarrow> sval \<Rightarrow> bool) \<Rightarrow> schema \<Rightarrow> string \<Rightarrow> nat \<Rightarrow> sval list \<Rightarrow>
     (string list \<times> sval list) option"
where
  "validateFields repr equal s kwargs prefix =
     (case vf_kwargs repr equal s kwargs prefix [] [] [] of
        None \<Rightarrow> None
      | Some (errs, seen, result) \<Rightarrow> Some (vf_missing (schema_fields s) prefix seen result errs))"
| "vf_kwargs repr equal s [] prefix errs seen result = Some (errs, seen, result)"
| "vf_kwargs repr equal s ((SString key, val) # kwargs) prefix errs seen result =
     (case map_of (schema_fields s) key of
        None \<Rightarrow>
          vf_kwargs repr equal s kwargs prefix
            (errs @ [unknownFieldErrorPath (joinPath prefix key) key (FieldNames s)]) seen result
      | Some fd \<Rightarrow>
          (case vf_value repr equal fd (joinPath prefix key) val of
             None \<Rightarrow> None
           | Some (es, stored) \<Rightarrow>
               vf_kwargs repr equal s kwargs prefix (errs @ es) (key # seen)
                 (case stored of None \<Rightarrow> result | Some v \<Rightarrow> dict_set (SString key) v result)))"
| "vf_kwargs repr equal s ((k, val) # kwargs) prefix errs seen result = None"
| "vf_value repr equal fd path val =
     (if val = SNone then
        (if fd_required fd then Some ([missing_error path], None)
         else if fd_defVal fd \<noteq> SNone then Some ([], Some (fd_defVal fd))
         else Some ([], None))
      else (case fd_schema fd of
        Some sub \<Rightarrow>
          (case val of
             SSchemaDict _ _ _ \<Rightarrow> Some ([], Some val)
           | SDict f its \<Rightarrow>
               (case validateFields repr equal sub its path of
                  None \<Rightarrow> None
                | Some (subResult, subErrs) \<Rightarrow>
                    Some (subErrs, if subErrs = [] then Some (SSchemaDict (Some sub) False subResult) else None))
           | _ \<Rightarrow> Some ([expected_error path (schema_name sub) val], None))
      | None \<Rightarrow>
          (case (fd_items fd, fd_typeName fd = ''list'') of
             (Some sub, True) \<Rightarrow>
               (case val of
                  SList f vs \<Rightarrow>
                    (case vf_elems repr equal sub path 0 vs of
                       None \<Rightarrow> None
                     | Some (es, validated) \<Rightarrow>
                         Some (es, if es = [] then Some (SList False validated) else None))
                | _ \<Rightarrow> Some ([path @ '': expected list, got '' @ stype val], None))
           | _ \<Rightarrow>
               (if fd_typeName fd \<noteq> [] \<and> \<not> CheckType val (fd_typeName fd)
                then Some ([type_error repr path (fd_typeName fd) val], None)
                else (case fd_enum fd of
                    Some enum \<Rightarrow>
                      if \<not> checkEnum equal val enum then Some ([formatEnumError repr path val enum], None)
                      else Some ([], Some val)
                  | None \<Rightarrow> Some ([], Some val))))))"
| "vf_elems repr equal sub path i [] = Some ([], [])"
| "vf_elems repr equal sub path i (elem # vs) =
     (case (case elem of
              SSchemaDict _ _ _ \<Rightarrow> Some ([], [elem])
            | SDict f its \<Rightarrow>
                (case validateFields repr equal sub its (path @ ''['' @ show_nat i @ '']'') of
                   None \<Rightarrow> None
                 | Some (subResult, subErrs) \<Rightarrow>
                     Some (subErrs, if subErrs = [] then [SSchemaDict (Some sub) False subResult] else []))
            | _ \<Rightarrow> Some ([expected_error (path @ ''['' @ show_nat i @ '']'') (schema_name sub) elem], []))
      of None \<Rightarrow> None
       | Some (es, ok) \<Rightarrow>
           (case vf_elems repr equal sub path (Suc i) vs of
              None \<Rightarrow> None
            | Some (es', oks) \<Rightarrow> Some (es @ es', ok @ oks)))"
  by pat_completeness auto

termination
proof (relation "measures
    [\<lambda>x. case x of Inl (Inl (_, _, s, _)) \<Rightarrow> size s | Inl (Inr (_, _, s, _)) \<Rightarrow> size s
       | Inr (Inl (_, _, fd, _)) \<Rightarrow> size fd | Inr (Inr (_, _, s, _)) \<Rightarrow> size s,
     \<lambda>x. case x of Inl (Inl _) \<Rightarrow> 1 | Inl (Inr _) \<Rightarrow> 0 | Inr (Inl _) \<Rightarrow> 0 | Inr (Inr _) \<Rightarrow> 2,
     \<lambda>x. case x of Inl (Inl _) \<Rightarrow> 0 | Inl (Inr (_, _, _, kwargs, _)) \<Rightarrow> length kwargs
       | Inr (Inl _) \<Rightarrow> 0 | Inr (Inr (_, _, _, _, _, vs)) \<Rightarrow> length vs]", goal_cases)
qed (auto dest: size_field size_subschema size_subschema(2) [OF sym])

declare validateFields.simps [simp del] vf_value.simps [simp del]

section \<open>Calling a schema\<close>

definition pluralS :: "nat \<Rightarrow> string" where
  "pluralS n = (if n = 1 then [] else ''s'')"

definition validation_message :: "string \<Rightarrow> string list \<Rightarrow> string" where
  "validation_message nm errs =
     nm @ '': '' @ show_nat (length errs) @ '' validation error'' @ pluralS (length errs) @ '':'' @
       [CHR 0x0A] @ ''- '' @ join ([CHR 0x0A] @ ''- '') errs"

text \<open>Keyword arguments always have string names.\<close>

definition kwarg_items :: "(string \<times> sval) list \<Rightarrow> items" where
  "kwarg_items kwargs = map (\<lambda>(k, v). (SString k, v)) kwargs"

definition CallInternal ::
  "(sval \<Rightarrow> string) \<Rightarrow> (sval \<Rightarrow> sval \<Rightarrow> bool) \<Rightarrow> schema \<Rightarrow> sval list \<Rightarrow> (string \<times> sval) list \<Rightarrow>
     (serror + sval) option"
where
  "CallInternal repr equal s args kwargs =
     (if args \<noteq> [] then Some (Inl (EMsg (schema_name s @ '': unexpected positional arguments'')))
      else (case validateFields repr equal s (kwarg_items kwargs) [] of
          None \<Rightarrow> None
        | Some (result, errs) \<Rightarrow>
            if errs \<noteq> [] then Some (Inl (EMsg (validation_message (schema_name s) errs)))
            else Some (Inr (SSchemaDict (Some s) False result))))"

section \<open>ValidateMutation\<close>

text \<open>The loop over list elements, which stops at the first error.\<close>

fun vm_elems ::
  "(sval \<Rightarrow> string) \<Rightarrow> (sval \<Rightarrow> sval \<Rightarrow> bool) \<Rightarrow> schema \<Rightarrow> schema \<Rightarrow> string \<Rightarrow> nat \<Rightarrow> sval list \<Rightarrow>
     (serror + sval list) option"
where
  "vm_elems repr equal s sub nm i [] = Some (Inr [])"
| "vm_elems repr equal s sub nm i (elem # vs) =
     (let elemPath = nm @ ''['' @ show_nat i @ '']'';
          continue = (\<lambda>v. map_option (\<lambda>r. bind_res r (\<lambda>oks. Inr (v # oks)))
            (vm_elems repr equal s sub nm (Suc i) vs))
      in case elem of
           SSchemaDict _ _ _ \<Rightarrow> continue elem
         | SDict f its \<Rightarrow>
             (case validateFields repr equal sub its elemPath of
                None \<Rightarrow> None
              | Some (subResult, subErrs) \<Rightarrow>
                  if subErrs \<noteq> [] then Some (Inl (EMsg (schema_name s @ ''.'' @ hd subErrs)))
                  else continue (SSchemaDict (Some sub) False subResult))
         | _ \<Rightarrow> Some (Inl (EMsg (schema_name s @ ''.'' @ expected_error elemPath (schema_name sub) elem))))"

text \<open>The result \<^term>\<open>Inr None\<close> tells the caller to delete the key.\<close>

definition ValidateMutation ::
  "(sval \<Rightarrow> string) \<Rightarrow> (sval \<Rightarrow> sval \<Rightarrow> bool) \<Rightarrow> schema \<Rightarrow> string \<Rightarrow> sval \<Rightarrow> (serror + sval option) option"
where
  "ValidateMutation repr equal s nm val =
     (case map_of (schema_fields s) nm of
        None \<Rightarrow> Some (Inl (EMsg (schema_name s @ '': '' @ unknownFieldError nm (FieldNames s))))
      | Some fd \<Rightarrow>
        if val = SNone then
          (if fd_required fd
           then Some (Inl (EMsg (schema_name s @ ''.'' @ nm @ '': required field cannot be set to None'')))
           else if fd_defVal fd \<noteq> SNone then Some (Inr (Some (fd_defVal fd)))
           else Some (Inr None))
        else (case fd_schema fd of
          Some sub \<Rightarrow>
            (case val of
               SSchemaDict _ _ _ \<Rightarrow> Some (Inr (Some val))
             | _ \<Rightarrow>
               (case dict_of val of
                  None \<Rightarrow> Some (Inl (EMsg (schema_name s @ ''.'' @ expected_error nm (schema_name sub) val)))
                | Some (f, its) \<Rightarrow>
                    (case validateFields repr equal sub its nm of
                       None \<Rightarrow> None
                     | Some (subResult, subErrs) \<Rightarrow>
                         if subErrs \<noteq> [] then Some (Inl (EMsg (schema_name s @ ''.'' @ hd subErrs)))
                         else Some (Inr (Some (SSchemaDict (Some sub) False subResult))))))
        | None \<Rightarrow>
            (case (fd_items fd, fd_typeName fd = ''list'') of
               (Some sub, True) \<Rightarrow>
                 (case val of
                    SList f vs \<Rightarrow>
                      map_option (\<lambda>r. bind_res r (\<lambda>oks. Inr (Some (SList False oks))))
                        (vm_elems repr equal s sub nm 0 vs)
                  | _ \<Rightarrow> Some (Inl (EMsg (schema_name s @ ''.'' @ nm @ '': expected list, got '' @ stype val))))
             | _ \<Rightarrow>
                 (if fd_typeName fd \<noteq> [] \<and> \<not> CheckType val (fd_typeName fd)
                  then Some (Inl (EMsg (schema_name s @ ''.'' @ type_error repr nm (fd_typeName fd) val)))
                  else (case fd_enum fd of
                      Some enum \<Rightarrow>
                        if \<not> checkEnum equal val enum
                        then Some (Inl (EMsg (schema_name s @ ''.'' @ formatEnumError repr nm val enum)))
                        else Some (Inr (Some val))
                    | None \<Rightarrow> Some (Inr (Some val)))))))"

section \<open>What a validated dict satisfies\<close>

fun is_schema_dict :: "sval \<Rightarrow> bool" where
  "is_schema_dict (SSchemaDict _ _ _) = True"
| "is_schema_dict _ = False"

fun is_schema_list :: "sval \<Rightarrow> bool" where
  "is_schema_list (SList f vs) = list_all is_schema_dict vs"
| "is_schema_list _ = False"

text \<open>A value that may stand in a field: the default, or a value that passed the field's checks.\<close>

definition field_ok :: "(sval \<Rightarrow> sval \<Rightarrow> bool) \<Rightarrow> FieldDescriptor \<Rightarrow> sval \<Rightarrow> bool" where
  "field_ok equal fd v \<longleftrightarrow>
     v \<noteq> SNone \<and>
     (v = fd_defVal fd \<or>
      (case fd_schema fd of
         Some sub \<Rightarrow> is_schema_dict v
       | None \<Rightarrow>
           if fd_items fd \<noteq> None \<and> fd_typeName fd = ''list''
           then is_schema_list v
           else CheckType v (fd_typeName fd) \<and>
                (case fd_enum fd of None \<Rightarrow> True | Some enum \<Rightarrow> checkEnum equal v enum)))"

definition items_ok :: "(sval \<Rightarrow> sval \<Rightarrow> bool) \<Rightarrow> schema \<Rightarrow> items \<Rightarrow> bool" where
  "items_ok equal s its \<longleftrightarrow>
     (\<forall>(k, v) \<in> set its. \<exists>key fd. k = SString key \<and> map_of (schema_fields s) key = Some fd \<and>
        field_ok equal fd v)"

definition conforms :: "(sval \<Rightarrow> sval \<Rightarrow> bool) \<Rightarrow> schema \<Rightarrow> items \<Rightarrow> bool" where
  "conforms equal s its \<longleftrightarrow>
     items_ok equal s its \<and>
     (\<forall>(key, fd) \<in> set (schema_fields s). fd_required fd \<longrightarrow> dict_get its (SString key) \<noteq> None)"

lemma vf_elems_schema_dicts:
  "vf_elems repr equal sub path i vs = Some (es, oks) \<Longrightarrow> list_all is_schema_dict oks"
proof (induction vs arbitrary: i es oks)
  case (Cons v vs)
  from Cons.prems Cons.IH [of "Suc i"] show ?case
    by (cases v) (auto split: option.splits if_splits)
qed simp

lemma vf_value_ok:
  assumes "vf_value repr equal fd path val = Some ([], stored)"
  shows "case stored of Some v \<Rightarrow> field_ok equal fd v | None \<Rightarrow> \<not> fd_required fd"
proof (cases "val = SNone")
  case True
  with assms show ?thesis by (auto simp: vf_value.simps field_ok_def split: if_splits)
next
  case False
  show ?thesis
  proof (cases "fd_schema fd")
    case (Some sub)
    with assms False show ?thesis
      by (cases val) (auto simp: vf_value.simps field_ok_def split: option.splits if_splits)
  next
    case None
    show ?thesis
    proof (cases "fd_items fd \<noteq> None \<and> fd_typeName fd = ''list''")
      case True
      then obtain sub where sub: "fd_items fd = Some sub" by auto
      show ?thesis
      proof (cases "\<exists>f vs. val = SList f vs")
        case vs: True
        with assms True sub None obtain oks where
          "vf_elems repr equal sub path 0 (case val of SList f vs \<Rightarrow> vs) = Some ([], oks)"
          "stored = Some (SList False oks)"
          by (auto simp: vf_value.simps split: option.splits if_splits)
        with True None vf_elems_schema_dicts show ?thesis by (fastforce simp: vf_value.simps field_ok_def)
      qed (use assms True sub None \<open>val \<noteq> SNone\<close> in \<open>cases val; simp add: vf_value.simps\<close>)
    next
      case False
      with assms \<open>val \<noteq> SNone\<close> None show ?thesis
        by (auto simp: vf_value.simps field_ok_def CheckType_def [of _ "[]"] split: option.splits if_splits bool.splits)
    qed
  qed
qed

lemma items_ok_set:
  "items_ok equal s its \<Longrightarrow> map_of (schema_fields s) key = Some fd \<Longrightarrow> field_ok equal fd v \<Longrightarrow>
     items_ok equal s (dict_set (SString key) v its)"
  unfolding items_ok_def by (fastforce dest!: set_dict_setD)

text \<open>The first phase: an error list that stays empty means that every stored value is fine, that every
  argument names a field, and that no required field among the seen ones is missing.\<close>

definition vf_inv ::
  "(sval \<Rightarrow> sval \<Rightarrow> bool) \<Rightarrow> schema \<Rightarrow> string list \<Rightarrow> items \<Rightarrow> bool" where
  "vf_inv equal s seen result \<longleftrightarrow>
     items_ok equal s result \<and>
     (\<forall>key \<in> set seen. \<forall>fd. map_of (schema_fields s) key = Some fd \<longrightarrow> fd_required fd \<longrightarrow>
        dict_get result (SString key) \<noteq> None)"

lemma vf_inv_step:
  assumes "vf_inv equal s seen result" and "map_of (schema_fields s) key = Some fd"
    and "vf_value repr equal fd path val = Some ([], stored)"
  shows "vf_inv equal s (key # seen)
     (case stored of None \<Rightarrow> result | Some v \<Rightarrow> dict_set (SString key) v result)"
  using assms vf_value_ok [OF assms(3)]
  by (auto simp: vf_inv_def items_ok_set split: option.splits)

lemma vf_kwargs_errs:
  "vf_kwargs repr equal s kwargs prefix errs seen result = Some (errs', seen', result') \<Longrightarrow>
     \<exists>es. errs' = errs @ es"
proof (induction kwargs arbitrary: errs seen result)
  case (Cons kv kwargs)
  obtain k v where kv: "kv = (k, v)" by force
  from Cons.prems obtain key where "k = SString key" unfolding kv by (cases k) auto
  with Cons.prems show ?case unfolding kv by (auto split: option.splits dest!: Cons.IH)
qed simp

lemma vf_kwargs_sound:
  "vf_kwargs repr equal s kwargs prefix [] seen result = Some ([], seen', result') \<Longrightarrow>
     vf_inv equal s seen result \<Longrightarrow> vf_inv equal s seen' result'"
proof (induction kwargs arbitrary: seen result)
  case (Cons kv kwargs)
  obtain k val where kv: "kv = (k, val)" by force
  from Cons.prems(1) obtain key where key: "k = SString key" unfolding kv by (cases k) auto
  from Cons.prems(1) obtain fd stored where fd: "map_of (schema_fields s) key = Some fd"
    and v: "vf_value repr equal fd (joinPath prefix key) val = Some ([], stored)"
    and rest: "vf_kwargs repr equal s kwargs prefix [] (key # seen)
        (case stored of None \<Rightarrow> result | Some v \<Rightarrow> dict_set (SString key) v result) =
        Some ([], seen', result')"
    unfolding kv key by (auto split: option.splits dest: vf_kwargs_errs)
  from Cons.IH [OF rest vf_inv_step [OF Cons.prems(2) fd v]] show ?case .
qed auto

lemma vf_missing_errs: "vf_missing flds prefix seen result errs = (result', errs') \<Longrightarrow> \<exists>es. errs' = errs @ es"
  by (induction flds prefix seen result errs rule: vf_missing.induct) (auto split: if_splits)

lemma vf_missing_sound:
  "vf_missing flds prefix seen result [] = (result', []) \<Longrightarrow> items_ok equal s result \<Longrightarrow>
     (\<And>key fd. (key, fd) \<in> set flds \<Longrightarrow> map_of (schema_fields s) key = Some fd) \<Longrightarrow>
     items_ok equal s result' \<and>
     (\<forall>(key, fd) \<in> set flds. fd_required fd \<longrightarrow> key \<in> set seen) \<and>
     (\<forall>k. dict_get result k \<noteq> None \<longrightarrow> dict_get result' k \<noteq> None)"
proof (induction flds prefix seen result "[] :: string list" rule: vf_missing.induct)
  case (2 nm fd flds prefix seen result)
  have fd: "map_of (schema_fields s) nm = Some fd" using "2.prems"(3) by simp
  have *: "items_ok equal s (dict_set (SString nm) (fd_defVal fd) result)" if "fd_defVal fd \<noteq> SNone"
    using that "2.prems"(2) fd by (intro items_ok_set) (auto simp: field_ok_def)
  show ?case using 2 * by (auto split: if_splits dest: vf_missing_errs)
qed auto

lemma validateFields_sound:
  assumes v: "validateFields repr equal s kwargs prefix = Some (result, [])"
    and d: "distinct (FieldNames s)"
  shows "conforms equal s result"
proof -
  from v obtain errs seen r where kw: "vf_kwargs repr equal s kwargs prefix [] [] [] = Some (errs, seen, r)"
    and m: "vf_missing (schema_fields s) prefix seen r errs = (result, [])"
    by (auto simp: validateFields.simps split: option.splits)
  have e: "errs = []" using vf_missing_errs [OF m] by simp
  have flds: "\<And>key fd. (key, fd) \<in> set (schema_fields s) \<Longrightarrow> map_of (schema_fields s) key = Some fd"
    using d by (simp add: FieldNames_def)
  have "vf_inv equal s [] []" by (simp add: vf_inv_def items_ok_def)
  from vf_kwargs_sound [OF kw [unfolded e] this] have inv: "vf_inv equal s seen r" .
  then have "items_ok equal s r" by (simp add: vf_inv_def)
  from vf_missing_sound [OF m [unfolded e] this flds] inv show ?thesis
    by (fastforce simp: conforms_def vf_inv_def dest: flds)
qed

lemma vm_elems_schema_dicts:
  "vm_elems repr equal s sub nm i vs = Some (Inr oks) \<Longrightarrow> list_all is_schema_dict oks"
proof (induction vs arbitrary: i oks)
  case (Cons v vs)
  from Cons.prems Cons.IH [of "Suc i"] show ?case
    by (cases v) (auto simp: Let_def bind_res_eq_Inr split: option.splits if_splits)
qed simp

lemma ValidateMutation_ok:
  assumes "ValidateMutation repr equal s nm val = Some (Inr stored)"
  shows "\<exists>fd. map_of (schema_fields s) nm = Some fd \<and>
     (case stored of Some v \<Rightarrow> field_ok equal fd v | None \<Rightarrow> \<not> fd_required fd)"
proof -
  from assms obtain fd where fd: "map_of (schema_fields s) nm = Some fd"
    by (auto simp: ValidateMutation_def split: option.splits)
  have "case stored of Some v \<Rightarrow> field_ok equal fd v | None \<Rightarrow> \<not> fd_required fd"
  proof (cases "val = SNone")
    case True
    with assms fd show ?thesis by (auto simp: ValidateMutation_def field_ok_def split: if_splits)
  next
    case False
    show ?thesis
    proof (cases "fd_schema fd")
      case (Some sub)
      have "is_schema_dict (the stored) \<and> stored \<noteq> None"
        using assms fd False Some
        by (cases val) (auto simp: ValidateMutation_def dict_of_def split: option.splits if_splits prod.splits)
      then show ?thesis using Some by (cases "the stored") (auto simp: field_ok_def)
    next
      case None
      show ?thesis
      proof (cases "fd_items fd \<noteq> None \<and> fd_typeName fd = ''list''")
        case True
        then obtain sub where sub: "fd_items fd = Some sub" by auto
        from assms fd \<open>val \<noteq> SNone\<close> None True sub obtain f vs oks
          where "val = SList f vs" "vm_elems repr equal s sub nm 0 vs = Some (Inr oks)"
            and "stored = Some (SList False oks)"
          by (cases val) (auto simp: ValidateMutation_def bind_res_eq_Inr)
        with True None vm_elems_schema_dicts show ?thesis by (fastforce simp: field_ok_def)
      next
        case False
        with assms fd \<open>val \<noteq> SNone\<close> None show ?thesis
          by (auto simp: ValidateMutation_def field_ok_def CheckType_def [of _ "[]"]
              split: option.splits if_splits bool.splits)
      qed
    qed
  qed
  with fd show ?thesis by blast
qed

section \<open>Panics\<close>

text \<open>Plain dicts that validation descends into have string keys only.\<close>

fun string_keyed :: "sval \<Rightarrow> bool" where
  "string_keyed (SDict f its) = list_all (\<lambda>(k, v). (\<exists>s. k = SString s) \<and> string_keyed v) its"
| "string_keyed (SList f vs) = list_all string_keyed vs"
| "string_keyed _ = True"

lemma vf_value_None:
  assumes "vf_value repr equal fd path val = None"
  shows "(\<exists>sub f its. fd_schema fd = Some sub \<and> val = SDict f its \<and>
            validateFields repr equal sub its path = None) \<or>
         (\<exists>sub f vs. fd_schema fd = None \<and> fd_items fd = Some sub \<and> fd_typeName fd = ''list'' \<and>
            val = SList f vs \<and> vf_elems repr equal sub path 0 vs = None)"
proof (cases "fd_schema fd")
  case (Some sub)
  with assms show ?thesis
    by (cases val) (simp_all add: vf_value.simps split: if_splits option.splits prod.splits)
next
  case None
  show ?thesis
  proof (cases "fd_items fd \<noteq> None \<and> fd_typeName fd = ''list''")
    case True
    then obtain sub where "fd_items fd = Some sub" by auto
    with assms True None show ?thesis
      by (cases val) (simp_all add: vf_value.simps split: if_splits option.splits prod.splits)
  next
    case False
    with assms None show ?thesis
      by (auto simp: vf_value.simps split: if_splits option.splits bool.splits)
  qed
qed

lemma validateFields_no_panic:
  "list_all (\<lambda>(k, v). (\<exists>s. k = SString s) \<and> string_keyed v) kwargs \<Longrightarrow>
     validateFields repr equal s kwargs prefix \<noteq> None"
  "list_all (\<lambda>(k, v). (\<exists>s. k = SString s) \<and> string_keyed v) kwargs \<Longrightarrow>
     vf_kwargs repr equal s kwargs prefix errs seen result \<noteq> None"
  "string_keyed val \<Longrightarrow> vf_value repr equal fd path val \<noteq> None"
  "list_all string_keyed vs \<Longrightarrow> vf_elems repr equal s path i vs \<noteq> None"
proof (induction repr equal s kwargs prefix and repr equal s kwargs prefix errs seen result
    and repr equal fd path val and repr equal s path i vs
    rule: validateFields_vf_kwargs_vf_value_vf_elems.induct)
  case (1 repr equal s kwargs prefix)
  then show ?case by (auto simp: validateFields.simps split: option.splits)
next
  case (3 repr equal s key val kwargs prefix errs seen result)
  then show ?case by (auto split: option.splits)
next
  case (5 repr equal fd path val)
  show ?case
  proof
    assume "vf_value repr equal fd path val = None"
    from vf_value_None [OF this] show False
      by (elim disjE exE conjE) (use 5 in fastforce)+
  qed
next
  case (7 repr equal sub path i elem vs)
  then show ?case by (cases elem) (auto split: option.splits, blast+)
qed auto

lemma validateFields_panics:
  "(k, v) \<in> set kwargs \<Longrightarrow> (\<And>s. k \<noteq> SString s) \<Longrightarrow> validateFields repr equal s kwargs prefix = None"
proof -
  assume k: "(k, v) \<in> set kwargs" "\<And>s. k \<noteq> SString s"
  have "vf_kwargs repr equal s kwargs prefix errs seen result = None" for errs seen result
    using k(1)
  proof (induction kwargs arbitrary: errs seen result)
    case (Cons kv kwargs)
    obtain k' v' where kv: "kv = (k', v')" by force
    show ?case using Cons k(2) unfolding kv by (cases k') (auto split: option.splits)
  qed simp
  then show ?thesis by (simp add: validateFields.simps)
qed

section \<open>Properties\<close>


definition ex_schema :: schema where
  "ex_schema = Schema 0 ''Bucket'' [] [(''size'', FieldDescriptor ''int'' None None True SNone None [])]"


text \<open>
  C36. A dict argument with a key that is not a string makes validation panic: the type assertion on the
  key of a nested dict is unchecked, so the call does not return an error but ends the process.
\<close>

theorem schema_call_panics:
  assumes "map_of (schema_fields s) key = Some fd" and "fd_schema fd = Some sub"
    and "(SInt i, v) \<in> set its"
  shows "CallInternal repr equal s [] [(key, SDict f its)] = None"
proof -
  have "validateFields repr equal sub its path = None" for path
    using assms(3) by (rule validateFields_panics) simp
  with assms show ?thesis
    by (simp add: CallInternal_def kwarg_items_def validateFields.simps vf_value.simps)
qed

theorem schema_call_panics_witness:
  "CallInternal stype (=) (Schema 1 ''App'' [] [(''bucket'', FieldDescriptor [] (Some ex_schema) None False SNone None [])])
     [] [(''bucket'', SDict False [(SInt 1, SInt 2)])] = None"
  by (rule schema_call_panics [where fd = "FieldDescriptor [] (Some ex_schema) None False SNone None []"]) simp_all

end
