(* ===== verification/DictObjects.thy ===== *)
theory DictObjects
  imports Schema
begin

text \<open>
  The dict-like objects scripts work on: \<^verbatim>\<open>StarlarkDict\<close> (\<^verbatim>\<open>convert/starlark_dict.go\<close>), \<^verbatim>\<open>SchemaDict\<close>
  (\<^verbatim>\<open>schema/schema_dict.go\<close>) and \<^verbatim>\<open>MutableStruct\<close> (\<^verbatim>\<open>builtins/mutable_struct.go\<close>). A method that mutates
  its receiver returns the new receiver beside its result.
\<close>

definition builtinMethodNames :: "string list" where
  "builtinMethodNames =
     [''clear'', ''get'', ''items'', ''keys'', ''pop'', ''setdefault'', ''update'', ''values'']"

text \<open>A bound builtin method.\<close>

definition builtin_value :: sval where
  "builtin_value = SOther ''builtin_function_or_method'' True"

text \<open>The string keys of a dict, in order.\<close>

definition string_keys :: "items \<Rightarrow> string list" where
  "string_keys its = List.map_filter (\<lambda>(k, v). case k of SString s \<Rightarrow> Some s | _ \<Rightarrow> None) its"

section \<open>StarlarkDict\<close>

text \<open>\<^verbatim>\<open>materialized\<close>: the dict, with the error of a failed lazy conversion; \<^verbatim>\<open>dict\<close>: without it.\<close>

definition materialized :: "sval \<Rightarrow> serror + bool \<times> items" where
  "materialized sd =
     (case sd of
        SStarlarkDict f its \<Rightarrow> Inr (f, its)
      | SLazyDict f src \<Rightarrow> ensure f src
      | _ \<Rightarrow> Inl (EUnsupportedType (stype sd)))"

definition sd_dict :: "sval \<Rightarrow> bool \<times> items" where
  "sd_dict sd = (case materialized sd of Inr d \<Rightarrow> d | Inl e \<Rightarrow> (case sd of SLazyDict f _ \<Rightarrow> (f, []) | _ \<Rightarrow> (False, [])))"

definition sd_Freeze :: "sval \<Rightarrow> sval" where
  "sd_Freeze sd = freeze sd"

definition sd_Truth :: "sval \<Rightarrow> bool" where
  "sd_Truth sd = (snd (sd_dict sd) \<noteq> [])"

definition sd_Len :: "sval \<Rightarrow> nat" where
  "sd_Len sd = length (snd (sd_dict sd))"

definition sd_Attr :: "sval \<Rightarrow> string \<Rightarrow> serror + sval" where
  "sd_Attr sd nm =
     (if nm \<in> set builtinMethodNames then Inr builtin_value
      else bind_res (materialized sd) (\<lambda>d.
        bind_res (get_key (snd d) (SString nm)) (\<lambda>r.
          Inr (case r of None \<Rightarrow> SNone | Some v \<Rightarrow> v))))"

definition sd_AttrNames :: "sval \<Rightarrow> string list" where
  "sd_AttrNames sd = sort (string_keys (snd (sd_dict sd)) @ builtinMethodNames)"

definition sd_SetKey :: "sval \<Rightarrow> sval \<Rightarrow> sval \<Rightarrow> serror + sval" where
  "sd_SetKey sd k v =
     (let (f, its) = sd_dict sd in bind_res (set_key f its k v) (\<lambda>its'. Inr (SStarlarkDict f its')))"

definition sd_SetField :: "sval \<Rightarrow> string \<Rightarrow> sval \<Rightarrow> serror + sval" where
  "sd_SetField sd nm val =
     (let (f, its) = sd_dict sd
      in bind_res (set_key f its (SString nm) val) (\<lambda>its'. Inr (SStarlarkDict f its')))"

definition sd_Get :: "sval \<Rightarrow> sval \<Rightarrow> serror + sval option" where
  "sd_Get sd key = bind_res (materialized sd) (\<lambda>d. get_key (snd d) key)"

definition sd_keysMethod :: "sval \<Rightarrow> serror + sval" where
  "sd_keysMethod sd = bind_res (materialized sd) (\<lambda>d. Inr (SList False (map fst (snd d))))"

definition sd_valuesMethod :: "sval \<Rightarrow> serror + sval" where
  "sd_valuesMethod sd = bind_res (materialized sd) (\<lambda>d. Inr (SList False (map snd (snd d))))"

definition sd_itemsMethod :: "sval \<Rightarrow> serror + sval" where
  "sd_itemsMethod sd =
     bind_res (materialized sd) (\<lambda>d. Inr (SList False (map (\<lambda>(k, v). STuple [k, v]) (snd d))))"

definition sd_getMethod :: "sval \<Rightarrow> sval \<Rightarrow> sval \<Rightarrow> serror + sval" where
  "sd_getMethod sd key dflt =
     bind_res (materialized sd) (\<lambda>d.
       bind_res (get_key (snd d) key) (\<lambda>r. Inr (case r of None \<Rightarrow> dflt | Some v \<Rightarrow> v)))"

text \<open>\<open>repr\<close> prints the key in the message, as before.\<close>

definition sd_popMethod ::
  "(sval \<Rightarrow> string) \<Rightarrow> sval \<Rightarrow> sval \<Rightarrow> sval option \<Rightarrow> serror + sval \<times> sval" where
  "sd_popMethod repr sd key dflt =
     (let (f, its) = sd_dict sd
      in bind_res (delete_key f its key) (\<lambda>(r, its').
           case r of
             Some v \<Rightarrow> Inr (v, SStarlarkDict f its')
           | None \<Rightarrow> (case dflt of
                 Some d \<Rightarrow> Inr (d, SStarlarkDict f its')
               | None \<Rightarrow> Inl (EMsg (''pop: key '' @ repr key @ '' not found'')))))"

fun set_keys :: "bool \<Rightarrow> items \<Rightarrow> items \<Rightarrow> serror + items" where
  "set_keys f its [] = Inr its"
| "set_keys f its ((k, v) # kvs) = bind_res (set_key f its k v) (\<lambda>its'. set_keys f its' kvs)"

definition sd_updateMethod :: "sval \<Rightarrow> sval \<Rightarrow> serror + sval \<times> sval" where
  "sd_updateMethod sd other =
     (let (f, its) = sd_dict sd;
          upd = (\<lambda>kvs. bind_res (set_keys f its kvs) (\<lambda>its'. Inr (SNone, SStarlarkDict f its')))
      in case other of
           SStarlarkDict _ kvs \<Rightarrow> upd kvs
         | SLazyDict _ _ \<Rightarrow> upd (snd (sd_dict other))
         | SDict _ kvs \<Rightarrow> upd kvs
         | _ \<Rightarrow> Inl (EMsg (''update: unsupported argument type '' @ stype other)))"

definition sd_clearMethod :: "sval \<Rightarrow> serror + sval \<times> sval" where
  "sd_clearMethod sd =
     (let (f, its) = sd_dict sd in bind_res (clear_dict f its) (\<lambda>its'. Inr (SNone, SStarlarkDict f its')))"

definition sd_setdefaultMethod :: "sval \<Rightarrow> sval \<Rightarrow> sval \<Rightarrow> serror + sval \<times> sval" where
  "sd_setdefaultMethod sd key dflt =
     (let (f, its) = sd_dict sd
      in bind_res (get_key its key) (\<lambda>r.
           case r of
             Some v \<Rightarrow> Inr (v, SStarlarkDict f its)
           | None \<Rightarrow> bind_res (set_key f its key dflt) (\<lambda>its'. Inr (dflt, SStarlarkDict f its'))))"

section \<open>SchemaDict\<close>

text \<open>\<^const>\<open>None\<close> is again the panic of a validation. Deleting ignores the error of a frozen dict, as the
  code does.\<close>

definition sch_SetKey ::
  "(sval \<Rightarrow> string) \<Rightarrow> (sval \<Rightarrow> sval \<Rightarrow> bool) \<Rightarrow> schema option \<Rightarrow> bool \<Rightarrow> items \<Rightarrow> sval \<Rightarrow> sval \<Rightarrow>
     (serror + items) option"
where
  "sch_SetKey repr equal sch f its k v =
     (case (sch, k) of
        (Some s, SString nm) \<Rightarrow>
          (case ValidateMutation repr equal s nm v of
             None \<Rightarrow> None
           | Some (Inl e) \<Rightarrow> Some (Inl e)
           | Some (Inr None) \<Rightarrow>
               Some (Inr (case delete_key f its k of Inr (_, its') \<Rightarrow> its' | Inl _ \<Rightarrow> its))
           | Some (Inr (Some processedVal)) \<Rightarrow> Some (set_key f its k processedVal))
      | _ \<Rightarrow> Some (set_key f its k v))"

definition sch_SetField ::
  "(sval \<Rightarrow> string) \<Rightarrow> (sval \<Rightarrow> sval \<Rightarrow> bool) \<Rightarrow> schema option \<Rightarrow> bool \<Rightarrow> items \<Rightarrow> string \<Rightarrow> sval \<Rightarrow>
     (serror + items) option"
where
  "sch_SetField repr equal sch f its nm v = sch_SetKey repr equal sch f its (SString nm) v"

fun sch_set_keys ::
  "(sval \<Rightarrow> string) \<Rightarrow> (sval \<Rightarrow> sval \<Rightarrow> bool) \<Rightarrow> schema option \<Rightarrow> bool \<Rightarrow> items \<Rightarrow> items \<Rightarrow> (serror + items) option"
where
  "sch_set_keys repr equal sch f its [] = Some (Inr its)"
| "sch_set_keys repr equal sch f its ((k, v) # kvs) =
     (case sch_SetKey repr equal sch f its k v of
        None \<Rightarrow> None
      | Some (Inl e) \<Rightarrow> Some (Inl e)
      | Some (Inr its') \<Rightarrow> sch_set_keys repr equal sch f its' kvs)"

definition sch_updateMethod ::
  "(sval \<Rightarrow> string) \<Rightarrow> (sval \<Rightarrow> sval \<Rightarrow> bool) \<Rightarrow> schema option \<Rightarrow> bool \<Rightarrow> items \<Rightarrow> sval \<Rightarrow> (serror + items) option"
where
  "sch_updateMethod repr equal sch f its other =
     (case other of
        SSchemaDict _ _ kvs \<Rightarrow> sch_set_keys repr equal sch f its kvs
      | SDict _ kvs \<Rightarrow> sch_set_keys repr equal sch f its kvs
      | _ \<Rightarrow> Some (Inl (EMsg (''update: unsupported argument type '' @ stype other))))"

definition sch_setdefaultMethod ::
  "(sval \<Rightarrow> string) \<Rightarrow> (sval \<Rightarrow> sval \<Rightarrow> bool) \<Rightarrow> schema option \<Rightarrow> bool \<Rightarrow> items \<Rightarrow> sval \<Rightarrow> sval \<Rightarrow>
     (serror + sval \<times> items) option"
where
  "sch_setdefaultMethod repr equal sch f its key dflt =
     (case get_key its key of
        Inl e \<Rightarrow> Some (Inl e)
      | Inr (Some v) \<Rightarrow> Some (Inr (v, its))
      | Inr None \<Rightarrow>
          map_option (\<lambda>r. bind_res r (\<lambda>its'. Inr (dflt, its'))) (sch_SetKey repr equal sch f its key dflt))"

definition sch_popMethod ::
  "(sval \<Rightarrow> string) \<Rightarrow> bool \<Rightarrow> items \<Rightarrow> sval \<Rightarrow> sval option \<Rightarrow> serror + sval \<times> items" where
  "sch_popMethod repr f its key dflt =
     bind_res (delete_key f its key) (\<lambda>(r, its').
       case r of
         Some v \<Rightarrow> Inr (v, its')
       | None \<Rightarrow> (case dflt of
             Some d \<Rightarrow> Inr (d, its')
           | None \<Rightarrow> Inl (EMsg (''pop: key '' @ repr key @ '' not found''))))"

definition sch_clearMethod :: "bool \<Rightarrow> items \<Rightarrow> serror + items" where
  "sch_clearMethod f its = clear_dict f its"

definition sch_Attr :: "items \<Rightarrow> string \<Rightarrow> serror + sval" where
  "sch_Attr its nm =
     (if nm \<in> set builtinMethodNames then Inr builtin_value
      else bind_res (get_key its (SString nm)) (\<lambda>r. Inr (case r of None \<Rightarrow> SNone | Some v \<Rightarrow> v)))"

definition sch_getMethod :: "items \<Rightarrow> sval \<Rightarrow> sval \<Rightarrow> serror + sval" where
  "sch_getMethod its key dflt =
     bind_res (get_key its key) (\<lambda>r. Inr (case r of None \<Rightarrow> dflt | Some v \<Rightarrow> v))"

section \<open>MutableStruct\<close>

fun ms_split_kwargs ::
  "(string \<times> sval) list \<Rightarrow> schema option \<Rightarrow> (string \<times> sval) list \<Rightarrow>
     serror + schema option \<times> (string \<times> sval) list"
where
  "ms_split_kwargs [] sc flds = Inr (sc, flds)"
| "ms_split_kwargs ((k, v) # kwargs) sc flds =
     (if k = ''schema'' then
        (case v of SSchema s \<Rightarrow> ms_split_kwargs kwargs (Some s) flds
         | _ \<Rightarrow> Inl (EMsg (''mutable_struct: schema= must be a schema(), got '' @ stype v)))
      else ms_split_kwargs kwargs sc (flds @ [(k, v)]))"

definition MakeMutableStruct ::
  "(sval \<Rightarrow> string) \<Rightarrow> (sval \<Rightarrow> sval \<Rightarrow> bool) \<Rightarrow> sval list \<Rightarrow> (string \<times> sval) list \<Rightarrow> (serror + sval) option"
where
  "MakeMutableStruct repr equal args kwargs =
     (if args \<noteq> [] then Some (Inl (EMsg ''mutable_struct: unexpected positional arguments''))
      else (case ms_split_kwargs kwargs None [] of
          Inl e \<Rightarrow> Some (Inl e)
        | Inr (Some sc, flds) \<Rightarrow>
            (case validateFields repr equal sc (kwarg_items flds) [] of
               None \<Rightarrow> None
             | Some (result, errs) \<Rightarrow>
                 if errs \<noteq> [] then Some (Inl (EMsg (validation_message (schema_name sc) errs)))
                 else Some (Inr (SMutableStruct (Some sc) False result)))
        | Inr (None, flds) \<Rightarrow>
            Some (Inr (SMutableStruct None False (dict_update [] (kwarg_items flds))))))"

definition ms_Attr :: "items \<Rightarrow> string \<Rightarrow> serror + sval" where
  "ms_Attr its nm =
     (case dict_get its (SString nm) of
        None \<Rightarrow> Inl (EMsg (''mutable_struct has no .'' @ nm @ '' attribute''))
      | Some v \<Rightarrow> Inr v)"

definition ms_AttrNames :: "schema option \<Rightarrow> items \<Rightarrow> string list" where
  "ms_AttrNames sch its =
     (case sch of Some s \<Rightarrow> sort (FieldNames s) | None \<Rightarrow> sort (string_keys its))"

definition ms_SetField ::
  "(sval \<Rightarrow> string) \<Rightarrow> (sval \<Rightarrow> sval \<Rightarrow> bool) \<Rightarrow> schema option \<Rightarrow> bool \<Rightarrow> items \<Rightarrow> string \<Rightarrow> sval \<Rightarrow>
     (serror + items) option"
where
  "ms_SetField repr equal sch f its nm val =
     (case sch of
        Some s \<Rightarrow>
          (case ValidateMutation repr equal s nm val of
             None \<Rightarrow> None
           | Some (Inl e) \<Rightarrow> Some (Inl e)
           | Some (Inr None) \<Rightarrow>
               Some (bind_res (delete_key f its (SString nm)) (\<lambda>(_, its'). Inr its'))
           | Some (Inr (Some processedVal)) \<Rightarrow> Some (set_key f its (SString nm) processedVal))
      | None \<Rightarrow> Some (set_key f its (SString nm) val))"

text \<open>The loop of \<^verbatim>\<open>Binary\<close> over the fields of the right operand.\<close>

fun ms_merge ::
  "(sval \<Rightarrow> string) \<Rightarrow> (sval \<Rightarrow> sval \<Rightarrow> bool) \<Rightarrow> schema option \<Rightarrow> items \<Rightarrow> items \<Rightarrow> (serror + items) option"
where
  "ms_merge repr equal sch merged [] = Some (Inr merged)"
| "ms_merge repr equal sch merged ((SString key, v) # kvs) =
     (case sch of
        Some s \<Rightarrow>
          (case ValidateMutation repr equal s key v of
             None \<Rightarrow> None
           | Some (Inl e) \<Rightarrow> Some (Inl e)
           | Some (Inr None) \<Rightarrow> ms_merge repr equal sch (dict_delete (SString key) merged) kvs
           | Some (Inr (Some p)) \<Rightarrow> ms_merge repr equal sch (dict_set (SString key) p merged) kvs)
      | None \<Rightarrow> ms_merge repr equal sch (dict_set (SString key) v merged) kvs)"
| "ms_merge repr equal sch merged ((k, v) # kvs) =
     Some (Inl (EIn ''cannot merge mutable_struct: non-string key'' (EKeyNotString k)))"

text \<open>\<open>x + y\<close> on two mutable structs, the left operand first. Two schemas are the same object when their
  identities agree.\<close>

definition ms_Binary ::
  "(sval \<Rightarrow> string) \<Rightarrow> (sval \<Rightarrow> sval \<Rightarrow> bool) \<Rightarrow> schema option \<times> items \<Rightarrow> schema option \<times> items \<Rightarrow>
     (serror + sval) option"
where
  "ms_Binary repr equal left right =
     (let go = (\<lambda>sch. map_option (\<lambda>r. bind_res r (\<lambda>its. Inr (SMutableStruct sch False its)))
        (ms_merge repr equal sch (dict_update [] (snd left)) (snd right)))
      in case (fst left, fst right) of
           (None, None) \<Rightarrow> go None
         | (Some ls, Some rs) \<Rightarrow>
             if schema_id ls \<noteq> schema_id rs
             then Some (Inl (EMsg (''cannot merge mutable_struct: schemas differ ('' @ schema_name ls @
                    '' vs '' @ schema_name rs @ '')'')))
             else go (Some ls)
         | (Some ls, None) \<Rightarrow> go (Some ls)
         | (None, Some rs) \<Rightarrow> go (Some rs))"

section \<open>Reading what was written\<close>

text \<open>The contract of an object with \<^verbatim>\<open>Get\<close> and \<^verbatim>\<open>SetKey\<close> on string keys: a successful write is what a later
  read of the key returns, and nothing else changes.\<close>

locale settable_mapping =
  fixes get :: "'d \<Rightarrow> string \<Rightarrow> sval option" and set_at :: "'d \<Rightarrow> string \<Rightarrow> sval \<Rightarrow> serror + 'd"
  assumes get_set: "set_at d k v = Inr d' \<Longrightarrow> get d' k' = (if k' = k then Some v else get d k')"
begin

text \<open>After any sequence of successful writes the last one to a key decides.\<close>

fun set_all :: "'d \<Rightarrow> (string \<times> sval) list \<Rightarrow> serror + 'd" where
  "set_all d [] = Inr d"
| "set_all d ((k, v) # kvs) = bind_res (set_at d k v) (\<lambda>d'. set_all d' kvs)"

lemma get_set_all:
  "set_all d kvs = Inr d' \<Longrightarrow>
     get d' k = (case map_of (rev kvs) k of Some v \<Rightarrow> Some v | None \<Rightarrow> get d k)"
proof (induction d kvs rule: set_all.induct)
  case (2 d k' v kvs)
  then obtain d1 where "set_at d k' v = Inr d1" "set_all d1 kvs = Inr d'"
    by (auto simp: bind_res_eq_Inr)
  with 2 show ?case by (auto simp: get_set map_add_def split: option.splits)
qed auto

end

lemma sd_Get_eager [simp]: "sd_Get (SStarlarkDict f its) (SString k) = Inr (dict_get its (SString k))"
  by (simp add: sd_Get_def materialized_def get_key_def)

lemma sd_SetField_eager:
  "sd_SetField (SStarlarkDict f its) k v =
     (if f then Inl EFrozen else Inr (SStarlarkDict f (dict_set (SString k) v its)))"
  by (simp add: sd_SetField_def sd_dict_def materialized_def set_key_def)

definition sd_lookup :: "sval \<Rightarrow> string \<Rightarrow> sval option" where
  "sd_lookup sd k = dict_get (snd (sd_dict sd)) (SString k)"

interpretation sd: settable_mapping sd_lookup sd_SetField
  by unfold_locales
    (auto simp: sd_lookup_def sd_SetField_def sd_dict_def materialized_def set_key_def bind_res_eq_Inr
      split: prod.splits if_splits)

text \<open>A frozen dict rejects every mutation.\<close>

lemma sd_frozen:
  assumes "fst (sd_dict sd)"
  shows "sd_SetKey sd k v = Inl EFrozen" "sd_SetField sd nm v = Inl EFrozen"
    "sd_popMethod repr sd k dflt = Inl EFrozen" "sd_clearMethod sd = Inl EFrozen"
  using assms
  by (auto simp: sd_SetKey_def sd_SetField_def sd_popMethod_def sd_clearMethod_def set_key_def
      delete_key_def clear_dict_def split: prod.splits)

section \<open>Assignments keep a SchemaDict valid\<close>

lemma dict_get_delete_other:
  "k' \<noteq> SString k \<Longrightarrow> dict_get (dict_delete (SString k) its) k' = dict_get its k'"
  by (induction its) auto

lemma conforms_set:
  assumes "conforms equal s its" and "map_of (schema_fields s) nm = Some fd" and "field_ok equal fd v"
  shows "conforms equal s (dict_set (SString nm) v its)"
  using assms by (auto simp: conforms_def items_ok_set)

lemma conforms_delete:
  assumes "conforms equal s its" and "map_of (schema_fields s) nm = Some fd" and "\<not> fd_required fd"
    and "distinct (FieldNames s)"
  shows "conforms equal s (dict_delete (SString nm) its)"
proof -
  have "key \<noteq> nm" if "(key, fd') \<in> set (schema_fields s)" "fd_required fd'" for key fd'
    using that assms(2,3,4) by (auto simp: FieldNames_def dest: eq_key_imp_eq_value)
  with assms(1) show ?thesis
    by (fastforce simp: conforms_def items_ok_def dict_get_delete_other dest: set_dict_deleteD)
qed

lemma ValidateMutation_conforms:
  assumes "ValidateMutation repr equal s nm v = Some (Inr stored)" and "conforms equal s its"
    and "distinct (FieldNames s)"
  shows "case stored of None \<Rightarrow> conforms equal s (dict_delete (SString nm) its)
     | Some p \<Rightarrow> conforms equal s (dict_set (SString nm) p its)"
  using ValidateMutation_ok [OF assms(1)] conforms_set [OF assms(2)] conforms_delete [OF assms(2) _ _ assms(3)]
  by (auto split: option.splits)

lemma sch_SetKey_conforms:
  assumes "sch_SetKey repr equal (Some s) f its (SString nm) v = Some (Inr its')"
    and "conforms equal s its" and "distinct (FieldNames s)"
  shows "conforms equal s its'"
proof -
  from assms(1) obtain stored where vm: "ValidateMutation repr equal s nm v = Some (Inr stored)"
    by (auto simp: sch_SetKey_def split: option.splits sum.splits)
  with ValidateMutation_conforms [OF vm assms(2,3)] assms(1,2) show ?thesis
    by (auto simp: sch_SetKey_def set_key_def delete_key_def split: option.splits if_splits)
qed

lemma sch_set_keys_conforms:
  "sch_set_keys repr equal (Some s) f its kvs = Some (Inr its') \<Longrightarrow> conforms equal s its \<Longrightarrow>
     distinct (FieldNames s) \<Longrightarrow> (\<And>k v. (k, v) \<in> set kvs \<Longrightarrow> \<exists>nm. k = SString nm) \<Longrightarrow>
     conforms equal s its'"
proof (induction kvs arbitrary: its)
  case (Cons kv kvs)
  obtain nm v where kv: "kv = (SString nm, v)" using Cons.prems(4) by (cases kv) auto
  from Cons.prems(1) obtain its1 where "sch_SetKey repr equal (Some s) f its (SString nm) v = Some (Inr its1)"
    and rest: "sch_set_keys repr equal (Some s) f its1 kvs = Some (Inr its')"
    unfolding kv by (auto split: option.splits sum.splits)
  from sch_SetKey_conforms [OF this(1) Cons.prems(2,3)] Cons.IH [OF rest] Cons.prems(3,4)
  show ?case by auto
qed auto

lemma ms_merge_conforms:
  "ms_merge repr equal (Some s) merged kvs = Some (Inr its) \<Longrightarrow> conforms equal s merged \<Longrightarrow>
     distinct (FieldNames s) \<Longrightarrow> conforms equal s its"
proof (induction kvs arbitrary: merged)
  case (Cons kv kvs)
  obtain k v where kv: "kv = (k, v)" by force
  from Cons.prems(1) obtain nm where k: "k = SString nm" unfolding kv by (cases k) auto
  from Cons.prems(1) obtain stored where vm: "ValidateMutation repr equal s nm v = Some (Inr stored)"
    unfolding kv k by (auto split: option.splits sum.splits)
  from ValidateMutation_conforms [OF vm Cons.prems(2,3)] Cons.IH Cons.prems(1,3) show ?case
    unfolding kv k by (auto simp: vm split: option.splits)
qed auto

lemma ms_merge_plain:
  "ms_merge repr equal None merged kvs = Some (Inr its) \<Longrightarrow> its = dict_update merged kvs"
proof (induction kvs arbitrary: merged)
  case (Cons kv kvs)
  obtain k v where kv: "kv = (k, v)" by force
  from Cons show ?case unfolding kv by (cases k) auto
qed simp

section \<open>Properties\<close>



end
