(* ===== verification/Paths.thy ===== *)
theory Paths
  imports DictObjects
begin

text \<open>
  The builtins that read and write along paths of keys (\<^verbatim>\<open>builtins/builtins.go\<close>, \<^verbatim>\<open>builtins/refs.go\<close>,
  \<^verbatim>\<open>builtins/observed_helpers.go\<close>, \<^verbatim>\<open>builtins/condition_access.go\<close>): \<^verbatim>\<open>get\<close>, \<^verbatim>\<open>get_label\<close>, \<^verbatim>\<open>get_annotation\<close>,
  \<^verbatim>\<open>get_observed\<close>, \<^verbatim>\<open>is_observed\<close>, \<^verbatim>\<open>observed_body\<close>, \<^verbatim>\<open>get_condition\<close> and \<^verbatim>\<open>set_xr_status\<close>. The arguments are
  those after \<^verbatim>\<open>UnpackArgs\<close>; an optional argument that was not given is \<^const>\<open>None\<close>.
\<close>

section \<open>The Mapping and HasSetKey interfaces\<close>

text \<open>\<^verbatim>\<open>v.(starlark.Mapping)\<close> and its \<^verbatim>\<open>Get\<close> on a string key; \<^const>\<open>None\<close> when the value is no mapping.\<close>

definition mapping_get :: "sval \<Rightarrow> string \<Rightarrow> (serror + sval option) option" where
  "mapping_get v k =
     (case v of
        SDict f its \<Rightarrow> Some (get_key its (SString k))
      | SStarlarkDict f its \<Rightarrow> Some (sd_Get v (SString k))
      | SLazyDict f src \<Rightarrow> Some (sd_Get v (SString k))
      | SSchemaDict s f its \<Rightarrow> Some (get_key its (SString k))
      | _ \<Rightarrow> None)"

definition is_mapping :: "sval \<Rightarrow> bool" where
  "is_mapping v \<longleftrightarrow> mapping_get v [] \<noteq> None"

text \<open>\<^verbatim>\<open>v.(starlark.HasSetKey)\<close> and its \<^verbatim>\<open>SetKey\<close>: the outer \<^const>\<open>None\<close> is a panic.\<close>

definition container_set ::
  "(sval \<Rightarrow> string) \<Rightarrow> (sval \<Rightarrow> sval \<Rightarrow> bool) \<Rightarrow> string \<Rightarrow> sval \<Rightarrow> string \<Rightarrow> sval \<Rightarrow> (serror + sval) option" where
  "container_set repr equal fnName cur k v =
     (case cur of
        SDict f its \<Rightarrow> Some (bind_res (set_key f its (SString k) v) (\<lambda>its'. Inr (SDict f its')))
      | SStarlarkDict f its \<Rightarrow> Some (sd_SetKey cur (SString k) v)
      | SLazyDict f src \<Rightarrow> Some (sd_SetKey cur (SString k) v)
      | SSchemaDict s f its \<Rightarrow>
          map_option (\<lambda>r. bind_res r (\<lambda>its'. Inr (SSchemaDict s f its')))
            (sch_SetKey repr equal s f its (SString k) v)
      | _ \<Rightarrow> Some (Inl (EMsg (fnName @ '': cannot set key on '' @ stype cur))))"

text \<open>The container after the object under one of its keys was mutated in place.\<close>

definition replace_child :: "sval \<Rightarrow> string \<Rightarrow> sval \<Rightarrow> sval" where
  "replace_child cur k v =
     (case cur of
        SDict f its \<Rightarrow> SDict f (dict_set (SString k) v its)
      | SStarlarkDict f its \<Rightarrow> SStarlarkDict f (dict_set (SString k) v its)
      | SLazyDict f src \<Rightarrow> SStarlarkDict (fst (sd_dict cur)) (dict_set (SString k) v (snd (sd_dict cur)))
      | SSchemaDict s f its \<Rightarrow> SSchemaDict s f (dict_set (SString k) v its)
      | _ \<Rightarrow> cur)"

section \<open>Paths and names\<close>

fun path_list :: "nat \<Rightarrow> sval list \<Rightarrow> serror + string list" where
  "path_list i [] = Inr []"
| "path_list i (SString s # vs) = bind_res (path_list (Suc i) vs) (\<lambda>ks. Inr (s # ks))"
| "path_list i (v # vs) =
     Inl (EMsg (''get: path list element '' @ show_nat i @ '' is '' @ stype v @ '', want string''))"

definition pathToKeys :: "sval \<Rightarrow> serror + string list" where
  "pathToKeys path =
     (case path of
        SString p \<Rightarrow> Inr (split_on (CHR ''.'') p)
      | SList f vs \<Rightarrow> path_list 0 vs
      | _ \<Rightarrow> Inl (EMsg (''get: path must be string or list, got '' @ stype path)))"

definition pathKeys :: "string \<Rightarrow> sval option \<Rightarrow> serror + string list option" where
  "pathKeys fnName path =
     (case path of
        None \<Rightarrow> Inr None
      | Some p \<Rightarrow>
          if p = SNone then Inr None
          else if p = SString [] \<or> (\<exists>f \<in> {True, False}. p = SList f [])
            then Inl (EMsg (fnName @ '': path must not be empty''))
          else bind_res (pathToKeys p) (\<lambda>ks. Inr (Some ks)))"

definition refName :: "string \<Rightarrow> sval \<Rightarrow> serror + string" where
  "refName fnName v =
     (let check = (\<lambda>nm. if nm = [] then Inl (EMsg (fnName @ '': name must not be empty'')) else Inr nm)
      in case v of
           SString s \<Rightarrow> check s
         | SResourceRef n \<Rightarrow> check n
         | SSkippedRef n \<Rightarrow> check n
         | SExtraRef n \<Rightarrow> check n
         | _ \<Rightarrow> Inl (EMsg (fnName @ '': name must be a string or resource handle, got '' @ stype v)))"

section \<open>Reading\<close>

fun get_walk :: "sval \<Rightarrow> string list \<Rightarrow> sval \<Rightarrow> sval" where
  "get_walk current [] dflt = current"
| "get_walk current (key # keys) dflt =
     (case mapping_get current key of
        Some (Inr (Some v)) \<Rightarrow> if v = SNone then dflt else get_walk v keys dflt
      | _ \<Rightarrow> dflt)"

definition getFnImpl :: "sval \<Rightarrow> sval \<Rightarrow> sval \<Rightarrow> serror + sval" where
  "getFnImpl obj path dflt = bind_res (pathToKeys path) (\<lambda>keys. Inr (get_walk obj keys dflt))"

fun walkPath :: "sval \<Rightarrow> string list \<Rightarrow> sval \<Rightarrow> serror + sval" where
  "walkPath current [] dflt = Inr current"
| "walkPath current (key # keys) dflt =
     (case mapping_get current key of
        None \<Rightarrow> Inr dflt
      | Some (Inl e) \<Rightarrow> Inl e
      | Some (Inr None) \<Rightarrow> Inr dflt
      | Some (Inr (Some v)) \<Rightarrow> if v = SNone then Inr dflt else walkPath v keys dflt)"

definition lookupKeys :: "sval \<Rightarrow> string list option \<Rightarrow> sval \<Rightarrow> serror + sval" where
  "lookupKeys rt keys dflt = (case keys of None \<Rightarrow> Inr rt | Some ks \<Rightarrow> walkPath rt ks dflt)"

definition getObservedImpl :: "string \<Rightarrow> sval option \<Rightarrow> sval \<Rightarrow> sval option \<Rightarrow> sval \<Rightarrow> serror + sval" where
  "getObservedImpl fnName observed nameVal path dflt =
     bind_res (refName fnName nameVal) (\<lambda>nm.
     bind_res (pathKeys fnName path) (\<lambda>keys.
       case observed of
         None \<Rightarrow> Inr dflt
       | Some obs \<Rightarrow>
           bind_res (sd_Get obs (SString nm)) (\<lambda>r.
             case r of
               None \<Rightarrow> Inr dflt
             | Some res \<Rightarrow> if res = SNone then Inr dflt else lookupKeys res keys dflt)))"

definition isObservedImpl :: "string \<Rightarrow> sval \<Rightarrow> sval \<Rightarrow> serror + sval" where
  "isObservedImpl fnName observed nameVal =
     bind_res (refName fnName nameVal) (\<lambda>nm.
     bind_res (sd_Get observed (SString nm)) (\<lambda>r. Inr (SBool (r \<noteq> None))))"

definition observedBodyImpl :: "string \<Rightarrow> sval \<Rightarrow> sval \<Rightarrow> sval \<Rightarrow> serror + sval" where
  "observedBodyImpl fnName observed nameVal dflt =
     bind_res (refName fnName nameVal) (\<lambda>nm.
     bind_res (sd_Get observed (SString nm)) (\<lambda>r.
       Inr (case r of None \<Rightarrow> dflt | Some v \<Rightarrow> if v = SNone then dflt else v)))"

text \<open>One level of a lookup that treats every failure as absent.\<close>

definition lenient_get :: "sval \<Rightarrow> string \<Rightarrow> sval option" where
  "lenient_get v k =
     (case mapping_get v k of Some (Inr (Some x)) \<Rightarrow> if x = SNone then None else Some x | _ \<Rightarrow> None)"

definition metadataLookup :: "sval \<Rightarrow> string \<Rightarrow> sval \<Rightarrow> string \<Rightarrow> sval" where
  "metadataLookup res key dflt mapName =
     (case lenient_get res ''metadata'' of
        None \<Rightarrow> dflt
      | Some metaVal \<Rightarrow>
          (case lenient_get metaVal mapName of
             None \<Rightarrow> dflt
           | Some mapVal \<Rightarrow>
               (case mapping_get mapVal key of Some (Inr (Some v)) \<Rightarrow> v | _ \<Rightarrow> dflt)))"

definition getLabelImpl :: "string \<Rightarrow> sval \<Rightarrow> string \<Rightarrow> sval \<Rightarrow> serror + sval" where
  "getLabelImpl fnName res key dflt =
     (if key = [] then Inl (EMsg (fnName @ '': key must not be empty''))
      else Inr (metadataLookup res key dflt ''labels''))"

definition getAnnotationImpl :: "string \<Rightarrow> sval \<Rightarrow> string \<Rightarrow> sval \<Rightarrow> serror + sval" where
  "getAnnotationImpl fnName res key dflt =
     (if key = [] then Inl (EMsg (fnName @ '': key must not be empty''))
      else Inr (metadataLookup res key dflt ''annotations''))"

subsection \<open>Conditions of an observed resource\<close>

definition conditionFields :: "string list" where
  "conditionFields = [''status'', ''reason'', ''message'', ''lastTransitionTime'']"

text \<open>A level of \<^verbatim>\<open>get_condition\<close>: an error of the lookup propagates, anything missing ends with None.\<close>

definition strict_get :: "sval \<Rightarrow> string \<Rightarrow> serror + sval option" where
  "strict_get v k =
     (case mapping_get v k of
        None \<Rightarrow> Inr None
      | Some (Inl e) \<Rightarrow> Inl e
      | Some (Inr None) \<Rightarrow> Inr None
      | Some (Inr (Some x)) \<Rightarrow> Inr (if x = SNone then None else Some x))"

definition condition_dict :: "sval \<Rightarrow> sval" where
  "condition_dict item =
     SDict False (dict_update [] (map (\<lambda>fld. (SString fld,
       (case lenient_get item fld of Some v \<Rightarrow> v | None \<Rightarrow> SString []))) conditionFields))"

fun find_condition :: "string \<Rightarrow> sval list \<Rightarrow> sval" where
  "find_condition condType [] = SNone"
| "find_condition condType (item # rest) =
     (case mapping_get item ''type'' of
        Some (Inr (Some (SString t))) \<Rightarrow>
          if t = condType then condition_dict item else find_condition condType rest
      | _ \<Rightarrow> find_condition condType rest)"

text \<open>\<open>as_indexable\<close> is \<^verbatim>\<open>starlark.Indexable\<close>: of the values here, lists and tuples; a string is indexable
  too, but its elements are strings and no mappings.\<close>

fun as_indexable :: "sval \<Rightarrow> sval list option" where
  "as_indexable (SList f vs) = Some vs"
| "as_indexable (STuple vs) = Some vs"
| "as_indexable v = None"

definition getConditionImpl :: "string \<Rightarrow> sval \<Rightarrow> sval \<Rightarrow> string \<Rightarrow> serror + sval" where
  "getConditionImpl fnName observed nameVal condType =
     bind_res (refName fnName nameVal) (\<lambda>nm.
     if condType = [] then Inl (EMsg (fnName @ '': type must not be empty''))
     else bind_res (strict_get observed nm) (\<lambda>r. case r of None \<Rightarrow> Inr SNone | Some res \<Rightarrow>
       bind_res (strict_get res ''status'') (\<lambda>r. case r of None \<Rightarrow> Inr SNone | Some st \<Rightarrow>
         bind_res (strict_get st ''conditions'') (\<lambda>r. case r of None \<Rightarrow> Inr SNone | Some conds \<Rightarrow>
           (case as_indexable conds of
              None \<Rightarrow> Inr SNone
            | Some items \<Rightarrow> Inr (find_condition condType items))))))"

section \<open>Writing the status\<close>

definition malformed_path :: "string \<Rightarrow> bool" where
  "malformed_path path \<longleftrightarrow> has_prefix path ''.'' \<or> has_suffix path ''.'' \<or> contains path ''..''"

text \<open>
  The loop over the segments. An intermediate object that is no mapping is replaced by a new dict;
  the walk goes on in the new dict, and what is written there is seen in the parent only if the parent
  stored that very object (a \<^verbatim>\<open>SchemaDict\<close> may store a validated copy).
\<close>

fun set_path ::
  "(sval \<Rightarrow> string) \<Rightarrow> (sval \<Rightarrow> sval \<Rightarrow> bool) \<Rightarrow> string \<Rightarrow> sval \<Rightarrow> string list \<Rightarrow> sval \<Rightarrow> (serror + sval) option"
where
  "set_path repr equal fnName cur [] val = Some (Inr cur)"
| "set_path repr equal fnName cur [leaf] val = container_set repr equal fnName cur leaf val"
| "set_path repr equal fnName cur (seg # seg' # segs) val =
     (case mapping_get cur seg of
        None \<Rightarrow> Some (Inl (EMsg (fnName @ '': cannot set key on '' @ stype cur)))
      | Some (Inl e) \<Rightarrow> Some (Inl e)
      | Some (Inr found) \<Rightarrow>
          (case (case found of Some v \<Rightarrow> if is_mapping v then Some v else None | None \<Rightarrow> None) of
             Some nxt \<Rightarrow>
               map_option (\<lambda>r. bind_res r (\<lambda>child. Inr (replace_child cur seg child)))
                 (set_path repr equal fnName nxt (seg' # segs) val)
           | None \<Rightarrow>
               (case container_set repr equal fnName cur seg (SStarlarkDict False []) of
                  None \<Rightarrow> None
                | Some (Inl e) \<Rightarrow> Some (Inl e)
                | Some (Inr cur') \<Rightarrow>
                    map_option (\<lambda>r. bind_res r (\<lambda>child.
                        Inr (if mapping_get cur' seg = Some (Inr (Some (SStarlarkDict False [])))
                             then replace_child cur' seg child else cur')))
                      (set_path repr equal fnName (SStarlarkDict False []) (seg' # segs) val))))"

text \<open>The result is the returned value and the new dxr.\<close>

definition setXRStatus ::
  "(sval \<Rightarrow> string) \<Rightarrow> (sval \<Rightarrow> sval \<Rightarrow> bool) \<Rightarrow> string \<Rightarrow> sval \<Rightarrow> string \<Rightarrow> sval \<Rightarrow> (serror + sval \<times> sval) option"
where
  "setXRStatus repr equal fnName dxr path val =
     (if path = [] then Some (Inl (EMsg (fnName @ '': path must not be empty'')))
      else if malformed_path path then Some (Inl (EMsg (fnName @ '': malformed path '' @ go_quote path)))
      else if val = SNone then Some (Inr (SBool False, dxr))
      else map_option (\<lambda>r. bind_res r (\<lambda>dxr'. Inr (SBool True, dxr')))
             (set_path repr equal fnName dxr (''status'' # split_on (CHR ''.'') path) val))"

section \<open>Walks\<close>

text \<open>A lookup along a path that falls back to a default as soon as a step fails: \<^verbatim>\<open>get\<close> here and \<^verbatim>\<open>dict.dig\<close>
  in the theory \<open>DictModule\<close>.\<close>

locale path_walk =
  fixes step :: "sval \<Rightarrow> string \<Rightarrow> sval option" and walk :: "sval \<Rightarrow> string list \<Rightarrow> sval \<Rightarrow> sval"
  assumes walk_Nil: "walk v [] d = v"
    and walk_Cons: "walk v (k # ks) d = (case step v k of None \<Rightarrow> d | Some v' \<Rightarrow> walk v' ks d)"
begin

fun follow :: "sval \<Rightarrow> string list \<Rightarrow> sval option" where
  "follow v [] = Some v"
| "follow v (k # ks) = (case step v k of None \<Rightarrow> None | Some v' \<Rightarrow> follow v' ks)"

lemma walk_follow: "walk v ks d = (case follow v ks of None \<Rightarrow> d | Some x \<Rightarrow> x)"
  by (induction v ks rule: follow.induct) (auto simp: walk_Nil walk_Cons split: option.splits)

lemma follow_append: "follow v (ks @ ks') = (case follow v ks of None \<Rightarrow> None | Some x \<Rightarrow> follow x ks')"
  by (induction v ks rule: follow.induct) (auto split: option.splits)

text \<open>Walking a path is walking its first part and then the rest.\<close>

lemma walk_append:
  "walk v (ks @ ks') d = (case follow v ks of None \<Rightarrow> d | Some x \<Rightarrow> walk x ks' d)"
  by (simp add: walk_follow follow_append split: option.splits)

end

interpretation get: path_walk lenient_get get_walk
  by unfold_locales (auto simp: lenient_get_def split: option.splits sum.splits)

section \<open>The status is read back\<close>

text \<open>Trees of plain dicts and read \<^verbatim>\<open>StarlarkDict\<close>s: what the dxr is built from.\<close>

fun plain_tree :: "sval \<Rightarrow> bool" where
  "plain_tree (SSchemaDict s f its) = (s = None \<and> list_all (\<lambda>(k, v). plain_tree v) its)"
| "plain_tree (SLazyDict f src) = False"
| "plain_tree (SDict f its) = list_all (\<lambda>(k, v). plain_tree v) its"
| "plain_tree (SStarlarkDict f its) = list_all (\<lambda>(k, v). plain_tree v) its"
| "plain_tree v = True"

lemma plain_mapping:
  assumes "plain_tree cur"
  shows "mapping_get cur k =
    (case cur of SDict f its \<Rightarrow> Some (Inr (dict_get its (SString k)))
     | SStarlarkDict f its \<Rightarrow> Some (Inr (dict_get its (SString k)))
     | SSchemaDict s f its \<Rightarrow> Some (Inr (dict_get its (SString k)))
     | _ \<Rightarrow> None)"
  using assms by (cases cur) (auto simp: mapping_get_def get_key_def)

lemma plain_mapping_Inr: "plain_tree cur \<Longrightarrow> mapping_get cur k \<noteq> Some (Inl e)"
  by (auto simp: plain_mapping split: sval.splits)

lemma plain_child: "plain_tree cur \<Longrightarrow> mapping_get cur k = Some (Inr (Some v)) \<Longrightarrow> plain_tree v"
  by (fastforce simp: plain_mapping list_all_iff dest: dict_get_SomeD split: sval.splits)

lemma plain_set_items:
  "list_all (\<lambda>(k, v). plain_tree v) its \<Longrightarrow> plain_tree v \<Longrightarrow>
     list_all (\<lambda>(k, v). plain_tree v) (dict_set k v its)"
  by (auto simp: list_all_iff dest!: set_dict_setD)

lemma plain_container_set:
  assumes "plain_tree cur" and "container_set repr equal fnName cur k v = Some (Inr cur')"
  shows "mapping_get cur' k' = (if k' = k then Some (Inr (Some v)) else mapping_get cur k')"
    and "plain_tree v \<Longrightarrow> plain_tree cur'" and "is_mapping cur'"
proof -
  obtain con f its where cur: "(con = SDict \<or> con = SStarlarkDict \<or> con = SSchemaDict None)"
      "cur = con f its" and cur': "cur' = con f (dict_set (SString k) v its)"
    using assms by (cases cur) (auto simp: container_set_def sd_SetKey_def sd_dict_def materialized_def
        sch_SetKey_def set_key_def bind_res_eq_Inr split: if_splits)
  then show "mapping_get cur' k' = (if k' = k then Some (Inr (Some v)) else mapping_get cur k')"
    and "is_mapping cur'"
    by (auto simp: mapping_get_def get_key_def is_mapping_def)
  show "plain_tree cur'" if "plain_tree v"
    using cur assms(1) plain_set_items [OF _ that] unfolding cur' by auto
qed

lemma plain_replace_child:
  assumes "plain_tree cur" and "mapping_get cur k\<^sub>0 \<noteq> None"
  shows "mapping_get (replace_child cur k v) k' = (if k' = k then Some (Inr (Some v)) else mapping_get cur k')"
  using assms by (cases cur) (auto simp: replace_child_def mapping_get_def get_key_def)

lemma plain_container_set_total: "plain_tree cur \<Longrightarrow> container_set repr equal fnName cur k v \<noteq> None"
  by (cases cur) (auto simp: container_set_def sch_SetKey_def)

lemma set_path_total: "plain_tree cur \<Longrightarrow> set_path repr equal fnName cur segs val \<noteq> None"
proof (induction repr equal fnName cur segs val rule: set_path.induct)
  case (3 repr equal fnName cur seg seg' segs val)
  then show ?case
    by (auto simp: plain_container_set_total plain_mapping_Inr split: option.splits sum.splits if_splits
        dest: plain_child)
qed (auto simp: plain_container_set_total)

text \<open>One step of the walk: the child that the walk goes on in, the container afterwards, and what it
  holds under every key.\<close>

lemma set_path_step:
  assumes "set_path repr equal fnName cur (seg # seg' # segs) val = Some (Inr cur')" and "plain_tree cur"
  obtains nxt child where
    "set_path repr equal fnName nxt (seg' # segs) val = Some (Inr child)" "plain_tree nxt"
    "\<And>k. mapping_get cur' k = (if k = seg then Some (Inr (Some child)) else mapping_get cur k)"
    "mapping_get cur seg \<noteq> None"
    "(mapping_get cur seg = Some (Inr (Some nxt)) \<and> is_mapping nxt) \<or>
     (nxt = SStarlarkDict False [] \<and> (\<forall>v. mapping_get cur seg = Some (Inr (Some v)) \<longrightarrow> \<not> is_mapping v))"
proof -
  from assms(1) plain_mapping_Inr [OF assms(2)] obtain found where f: "mapping_get cur seg = Some (Inr found)"
    by (auto split: option.splits sum.splits)
  show ?thesis
  proof (cases "\<exists>nxt. found = Some nxt \<and> is_mapping nxt")
    case True
    then obtain nxt where nxt: "found = Some nxt" "is_mapping nxt" by blast
    with assms(1) f obtain child where "set_path repr equal fnName nxt (seg' # segs) val = Some (Inr child)"
      and cur': "cur' = replace_child cur seg child" by (auto simp: bind_res_eq_Inr)
    moreover have "plain_tree nxt" using f nxt plain_child [OF assms(2)] by simp
    ultimately show ?thesis
      using f nxt that plain_replace_child [OF assms(2), of seg seg child] by simp
  next
    case False
    then have none: "(case found of Some v \<Rightarrow> if is_mapping v then Some v else None | None \<Rightarrow> None) = None"
      by (auto split: option.splits)
    with assms(1) f obtain mid child where
      mid: "container_set repr equal fnName cur seg (SStarlarkDict False []) = Some (Inr mid)"
      and child: "set_path repr equal fnName (SStarlarkDict False []) (seg' # segs) val = Some (Inr child)"
      and cur': "cur' = (if mapping_get mid seg = Some (Inr (Some (SStarlarkDict False [])))
                         then replace_child mid seg child else mid)"
      by (auto simp: bind_res_eq_Inr split: option.splits sum.splits)
    note set = plain_container_set [OF assms(2) mid]
    have "cur' = replace_child mid seg child" using cur' set(1) [of seg] by simp
    moreover have "plain_tree mid" using set(2) by simp
    ultimately have "mapping_get cur' k = (if k = seg then Some (Inr (Some child)) else mapping_get cur k)" for k
      using plain_replace_child [of mid seg seg child k] set(1) by simp
    with child f False that [of "SStarlarkDict False []" child] show ?thesis by auto
  qed
qed

lemma set_path_not_None:
  "set_path repr equal fnName cur segs val = Some (Inr cur') \<Longrightarrow> segs \<noteq> [] \<Longrightarrow> plain_tree cur \<Longrightarrow> cur' \<noteq> SNone"
proof (induction repr equal fnName cur segs val rule: set_path.induct)
  case (2 repr equal fnName cur leaf val)
  then have "is_mapping cur'" by (auto intro: plain_container_set(3))
  then show ?case by (auto simp: is_mapping_def mapping_get_def)
next
  case (3 repr equal fnName cur seg seg' segs val)
  have "mapping_get cur' seg \<noteq> None" by (rule set_path_step [OF "3.prems"(1,3)]) simp
  then show ?case by (auto simp: mapping_get_def)
qed simp

lemma set_path_read_back:
  "set_path repr equal fnName cur segs val = Some (Inr cur') \<Longrightarrow> plain_tree cur \<Longrightarrow> segs \<noteq> [] \<Longrightarrow>
     val \<noteq> SNone \<Longrightarrow> get_walk cur' segs d = val"
proof (induction segs arbitrary: cur cur' rule: induct_list012)
  case (2 leaf)
  then show ?case by (simp add: plain_container_set(1))
next
  case (3 seg seg' segs)
  obtain nxt child
    where "set_path repr equal fnName nxt (seg' # segs) val = Some (Inr child)" "plain_tree nxt"
      and "mapping_get cur' seg = Some (Inr (Some child))"
    by (rule set_path_step [OF "3.prems"(1,2)]) auto
  with "3.IH"(2) [of nxt child] "3.prems"(4) set_path_not_None [of repr equal fnName nxt "seg' # segs" val child]
  show ?case by simp
qed simp

text \<open>Paths that part ways with the written one are not touched.\<close>

fun diverge :: "string list \<Rightarrow> string list \<Rightarrow> bool" where
  "diverge (a # as) (b # bs) = (a \<noteq> b \<or> diverge as bs)"
| "diverge _ _ = False"

lemma diverge_empty: "diverge ks (seg # segs) \<Longrightarrow> get_walk (SStarlarkDict False []) ks d = d"
  by (cases ks) (auto simp: mapping_get_def)

lemma set_path_frame:
  "set_path repr equal fnName cur segs val = Some (Inr cur') \<Longrightarrow> plain_tree cur \<Longrightarrow> diverge ks segs \<Longrightarrow>
     get_walk cur' ks d = get_walk cur ks d"
proof (induction segs arbitrary: cur cur' ks rule: induct_list012)
  case 1
  then show ?case by (cases ks) auto
next
  case (2 leaf)
  then show ?case by (cases ks) (auto simp: plain_container_set(1) split: list.splits)
next
  case (3 seg seg' segs)
  obtain a as where ks: "ks = a # as" using "3.prems"(3) by (cases ks) auto
  obtain nxt child
    where nxt: "set_path repr equal fnName nxt (seg' # segs) val = Some (Inr child)" "plain_tree nxt"
      and get: "\<And>k. mapping_get cur' k = (if k = seg then Some (Inr (Some child)) else mapping_get cur k)"
      and old: "mapping_get cur seg \<noteq> None"
        "(mapping_get cur seg = Some (Inr (Some nxt)) \<and> is_mapping nxt) \<or>
         (nxt = SStarlarkDict False [] \<and> (\<forall>v. mapping_get cur seg = Some (Inr (Some v)) \<longrightarrow> \<not> is_mapping v))"
    by (rule set_path_step [OF "3.prems"(1,2)]) blast
  show ?case
  proof (cases "a = seg")
    case True
    with "3.prems"(3) have div: "diverge as (seg' # segs)" by (simp add: ks)
    then obtain b bs where as: "as = b # bs" by (cases as) auto
    from "3.IH"(2) [OF nxt div] have "get_walk child as d = get_walk nxt as d" .
    moreover have "child \<noteq> SNone" using set_path_not_None [OF nxt(1) _ nxt(2)] by simp
    ultimately have lhs: "get_walk cur' ks d = get_walk nxt as d" using True get by (simp add: ks)
    from old(2) show ?thesis
    proof (elim disjE conjE)
      assume "mapping_get cur seg = Some (Inr (Some nxt))" "is_mapping nxt"
      moreover from this(2) have "nxt \<noteq> SNone" by (auto simp: is_mapping_def mapping_get_def)
      ultimately show ?thesis using True lhs by (simp add: ks)
    next
      assume nxt': "nxt = SStarlarkDict False []"
        and nm: "\<forall>v. mapping_get cur seg = Some (Inr (Some v)) \<longrightarrow> \<not> is_mapping v"
      have "mapping_get v b = None" if "\<not> is_mapping v" for v
        using that by (auto simp: is_mapping_def mapping_get_def split: sval.splits)
      then have "get_walk cur (seg # as) d = d"
        using nm old(1) plain_mapping_Inr [OF "3.prems"(2), of seg]
        by (cases "mapping_get cur seg") (auto simp: as split: option.splits sum.splits)
      then show ?thesis using True lhs diverge_empty [OF div, of d] by (simp add: ks nxt')
    qed
  next
    case False
    then show ?thesis by (simp add: ks get)
  qed
qed

section \<open>Properties\<close>



end
