(* ===== verification/DictModule.thy ===== *)
theory DictModule
  imports Paths
begin

text \<open>
  The \<^verbatim>\<open>dict\<close> module, \<^verbatim>\<open>builtins/dict.go\<close>: shallow and deep merge, pick, omit, compact, dig and has_path.
  \<^verbatim>\<open>compactValue\<close> is also what \<^verbatim>\<open>Resource()\<close> applies to every body.
\<close>

definition maxMergeDepth :: nat where
  "maxMergeDepth = 32"

definition dictItems :: "string \<Rightarrow> sval \<Rightarrow> serror + items" where
  "dictItems fnName v =
     (case dict_of v of
        None \<Rightarrow> Inl (EMsg (fnName @ '': got '' @ stype v @ '', want dict''))
      | Some (f, its) \<Rightarrow> Inr its)"

definition isDict :: "sval \<Rightarrow> bool" where
  "isDict v \<longleftrightarrow> dict_of v \<noteq> None"

text \<open>\<^verbatim>\<open>asMapping\<close> and the \<^verbatim>\<open>Get\<close> of the result on a string key.\<close>

definition asMapping_get :: "sval \<Rightarrow> string \<Rightarrow> (serror + sval option) option" where
  "asMapping_get v k =
     (case v of SMutableStruct s f its \<Rightarrow> Some (get_key its (SString k)) | _ \<Rightarrow> mapping_get v k)"

section \<open>merge\<close>

fun merge_args :: "string \<Rightarrow> sval list \<Rightarrow> items \<Rightarrow> serror + items" where
  "merge_args fnName [] result = Inr result"
| "merge_args fnName (arg # args) result =
     bind_res (dictItems fnName arg) (\<lambda>its. merge_args fnName args (dict_update result its))"

definition dictMergeImpl :: "string \<Rightarrow> sval list \<Rightarrow> (string \<times> sval) list \<Rightarrow> serror + sval" where
  "dictMergeImpl fnName args kwargs =
     (if kwargs \<noteq> [] then Inl (EMsg (fnName @ '': unexpected keyword arguments''))
      else if length args < 2
        then Inl (EMsg (fnName @ '': requires at least 2 arguments, got '' @ show_nat (length args)))
      else bind_res (merge_args fnName args []) (\<lambda>r. Inr (SDict False r)))"

section \<open>deep_merge\<close>

lemma dict_of_lazies: "dict_of v = Some (f, its) \<Longrightarrow> items_lazies its \<le> lazies v"
  by (cases v) (auto simp: dict_of_def split: sum.splits dest!: ensure_items)

lemma dict_of_measure:
  assumes "dict_of v = Some (f, its)"
  shows "items_lazies its < lazies v \<or>
     (items_lazies its = lazies v \<and> size_list (size_prod size size) its < size v)"
  using assms by (cases v) (auto simp: dict_of_def split: sum.splits dest!: ensure_items)

lemma dictItems_measure:
  "dictItems fnName v = Inr its \<Longrightarrow> items_lazies its < lazies v \<or>
     (items_lazies its = lazies v \<and> size_list (size_prod size size) its < size v)"
  using dict_of_measure by (auto simp: dictItems_def split: option.splits)

definition depth_error :: "string \<Rightarrow> serror" where
  "depth_error fnName = EMsg (fnName @ '': recursion depth exceeds maximum ('' @ show_nat maxMergeDepth @ '')'')"

text \<open>\<open>deepApply\<close> is the loop over the override items.\<close>

function (sequential) deepMergeTwo :: "string \<Rightarrow> sval \<Rightarrow> sval \<Rightarrow> nat \<Rightarrow> serror + sval"
  and deepApply :: "string \<Rightarrow> items \<Rightarrow> items \<Rightarrow> nat \<Rightarrow> serror + items"
where
  "deepMergeTwo fnName base override depth =
     (if depth > maxMergeDepth then Inl (depth_error fnName)
      else bind_res (dictItems fnName base) (\<lambda>baseItems.
           bind_res (dictItems fnName override) (\<lambda>overrideItems.
           bind_res (deepApply fnName overrideItems (dict_update [] baseItems) depth) (\<lambda>r.
             Inr (SDict False r)))))"
| "deepApply fnName [] result depth = Inr result"
| "deepApply fnName ((key, v) # its) result depth =
     (if (case dict_get result key of Some existing \<Rightarrow> isDict existing \<and> isDict v | None \<Rightarrow> False)
      then bind_res (deepMergeTwo fnName (the (dict_get result key)) v (depth + 1)) (\<lambda>merged.
             deepApply fnName its (dict_set key merged result) depth)
      else deepApply fnName its (dict_set key v result) depth)"
  by pat_completeness auto

termination
proof (relation "measures
    [\<lambda>x. case x of Inl (_, _, v, _) \<Rightarrow> lazies v | Inr (_, its, _) \<Rightarrow> items_lazies its,
     \<lambda>x. case x of Inl (_, _, v, _) \<Rightarrow> size v | Inr (_, its, _) \<Rightarrow> size_list (size_prod size size) its]",
    goal_cases)
  case (2 fnName base override depth b ov)
  then show ?case using dictItems_measure [of fnName override ov] by auto
qed auto

declare deepMergeTwo.simps [simp del]

fun deep_fold :: "string \<Rightarrow> sval \<Rightarrow> sval list \<Rightarrow> serror + sval" where
  "deep_fold fnName accumulated [] = Inr accumulated"
| "deep_fold fnName accumulated (arg # args) =
     bind_res (deepMergeTwo fnName accumulated arg 0) (\<lambda>acc. deep_fold fnName acc args)"

definition dictDeepMergeImpl :: "string \<Rightarrow> sval list \<Rightarrow> (string \<times> sval) list \<Rightarrow> serror + sval" where
  "dictDeepMergeImpl fnName args kwargs =
     (if kwargs \<noteq> [] then Inl (EMsg (fnName @ '': unexpected keyword arguments''))
      else if length args < 2
        then Inl (EMsg (fnName @ '': requires at least 2 arguments, got '' @ show_nat (length args)))
      else deep_fold fnName (hd args) (tl args))"

section \<open>pick and omit\<close>

fun pick_loop :: "string \<Rightarrow> sval \<Rightarrow> sval list \<Rightarrow> items \<Rightarrow> serror + items" where
  "pick_loop fnName d [] result = Inr result"
| "pick_loop fnName d (k # ks) result =
     (case as_string k of
        None \<Rightarrow> Inl (EMsg (fnName @ '': key list element is '' @ stype k @ '', want string''))
      | Some s \<Rightarrow>
          (case asMapping_get d s of
             Some (Inl e) \<Rightarrow> Inl e
           | Some (Inr (Some v)) \<Rightarrow> pick_loop fnName d ks (dict_set (SString s) v result)
           | _ \<Rightarrow> pick_loop fnName d ks result))"

definition dictPickImpl :: "string \<Rightarrow> sval \<Rightarrow> sval list \<Rightarrow> serror + sval" where
  "dictPickImpl fnName d keys =
     (if asMapping_get d [] = None then Inl (EMsg (fnName @ '': got '' @ stype d @ '', want dict''))
      else bind_res (pick_loop fnName d keys []) (\<lambda>r. Inr (SDict False r)))"

fun exclude_keys :: "string \<Rightarrow> sval list \<Rightarrow> serror + string list" where
  "exclude_keys fnName [] = Inr []"
| "exclude_keys fnName (k # ks) =
     (case as_string k of
        None \<Rightarrow> Inl (EMsg (fnName @ '': key list element is '' @ stype k @ '', want string''))
      | Some s \<Rightarrow> bind_res (exclude_keys fnName ks) (\<lambda>ex. Inr (s # ex)))"

fun omit_loop :: "string list \<Rightarrow> items \<Rightarrow> items \<Rightarrow> items" where
  "omit_loop exclude [] result = result"
| "omit_loop exclude ((k, v) # its) result =
     omit_loop exclude its
       (case as_string k of
          None \<Rightarrow> result
        | Some s \<Rightarrow> if s \<in> set exclude then result else dict_set (SString s) v result)"

definition dictOmitImpl :: "string \<Rightarrow> sval \<Rightarrow> sval list \<Rightarrow> serror + sval" where
  "dictOmitImpl fnName d keys =
     bind_res (exclude_keys fnName keys) (\<lambda>exclude.
     bind_res (dictItems fnName d) (\<lambda>its. Inr (SDict False (omit_loop exclude its []))))"

section \<open>compact\<close>

text \<open>\<^verbatim>\<open>materialize\<close>: the result dict, allocated with the entries before the current one.\<close>

definition materialize :: "items \<Rightarrow> items option \<Rightarrow> items" where
  "materialize prev result = (case result of Some r \<Rightarrow> r | None \<Rightarrow> dict_update [] prev)"

text \<open>
  \<open>compactEntries\<close> is the loop of \<^verbatim>\<open>compactDict\<close> over the items (\<open>prev\<close> are those behind it), \<open>compactElems\<close>
  the loop of \<^verbatim>\<open>compactList\<close>; the Boolean says whether anything changed.
\<close>

function (sequential) compactValue :: "string \<Rightarrow> sval \<Rightarrow> nat \<Rightarrow> serror + sval \<times> bool"
  and compactEntries ::
    "string \<Rightarrow> nat \<Rightarrow> items \<Rightarrow> items \<Rightarrow> items option \<Rightarrow> bool \<Rightarrow> serror + items option \<times> bool"
  and compactElems ::
    "string \<Rightarrow> nat \<Rightarrow> sval list \<Rightarrow> sval list \<Rightarrow> sval list option \<Rightarrow> serror + sval list option"
where
  "compactValue fnName v depth =
     (if depth > maxMergeDepth then Inl (depth_error fnName)
      else (case dict_of v of
          Some (f, its) \<Rightarrow>
            bind_res (compactEntries fnName depth [] its None False) (\<lambda>(result, changed).
              if \<not> changed
              then Inr ((case v of SDict _ _ \<Rightarrow> v | _ \<Rightarrow> SDict False (dict_update [] its)), False)
              else Inr (SDict False (the result), True))
        | None \<Rightarrow>
            (case v of
               SList f vs \<Rightarrow>
                 bind_res (compactElems fnName depth [] vs None) (\<lambda>elems.
                   Inr (case elems of None \<Rightarrow> (v, False) | Some es \<Rightarrow> (SList False es, True)))
             | _ \<Rightarrow> Inr (v, False))))"
| "compactEntries fnName depth prev [] result changed = Inr (result, changed)"
| "compactEntries fnName depth prev ((k, v) # rest) result changed =
     (if v = SNone
      then compactEntries fnName depth (prev @ [(k, v)]) rest (Some (materialize prev result)) True
      else bind_res (compactValue fnName v (depth + 1)) (\<lambda>r.
        compactEntries fnName depth (prev @ [(k, v)]) rest
          (map_option (dict_set k (fst r))
             (if snd r then Some (materialize prev result) else result))
          (changed \<or> snd r)))"
| "compactElems fnName depth prev [] elems = Inr elems"
| "compactElems fnName depth prev (v # rest) elems =
     bind_res (compactValue fnName v (depth + 1)) (\<lambda>r.
       compactElems fnName depth (prev @ [v]) rest
         (map_option (\<lambda>es. es @ [fst r]) (if snd r \<and> elems = None then Some prev else elems)))"
  by pat_completeness auto

termination
proof (relation "measures
    [\<lambda>x. case x of Inl (_, v, _) \<Rightarrow> lazies v | Inr (Inl (_, _, _, its, _)) \<Rightarrow> items_lazies its
       | Inr (Inr (_, _, _, vs, _)) \<Rightarrow> sum_list (map lazies vs),
     \<lambda>x. case x of Inl (_, v, _) \<Rightarrow> size v
       | Inr (Inl (_, _, _, its, _)) \<Rightarrow> size_list (size_prod size size) its
       | Inr (Inr (_, _, _, vs, _)) \<Rightarrow> size_list size vs]", goal_cases)
qed (auto dest: dict_of_measure)

declare compactValue.simps [simp del]

text \<open>\<^verbatim>\<open>dictCompactImpl\<close>: the top level is always a fresh dict, each value is compacted from depth 0 on.\<close>

fun compact_top :: "string \<Rightarrow> items \<Rightarrow> items \<Rightarrow> serror + items" where
  "compact_top fnName [] result = Inr result"
| "compact_top fnName ((k, v) # its) result =
     (if v = SNone then compact_top fnName its result
      else bind_res (compactValue fnName v 0) (\<lambda>r. compact_top fnName its (dict_set k (fst r) result)))"

definition dictCompactImpl :: "string \<Rightarrow> sval \<Rightarrow> serror + sval" where
  "dictCompactImpl fnName d =
     bind_res (dictItems fnName d) (\<lambda>its.
     bind_res (compact_top fnName its []) (\<lambda>r. Inr (SDict False r)))"

section \<open>dig and has_path\<close>

definition validateDictPath :: "string \<Rightarrow> string \<Rightarrow> serror + unit" where
  "validateDictPath fnName path =
     (if path = [] then Inl (EMsg (fnName @ '': path must not be empty''))
      else if malformed_path path then Inl (EMsg (fnName @ '': malformed path '' @ go_quote path))
      else Inr ())"

fun dig_walk :: "sval \<Rightarrow> string list \<Rightarrow> sval \<Rightarrow> sval" where
  "dig_walk current [] dflt = current"
| "dig_walk current (seg # segs) dflt =
     (case asMapping_get current seg of Some (Inr (Some v)) \<Rightarrow> dig_walk v segs dflt | _ \<Rightarrow> dflt)"

definition dictDigImpl :: "string \<Rightarrow> sval \<Rightarrow> string \<Rightarrow> sval \<Rightarrow> serror + sval" where
  "dictDigImpl fnName d path dflt =
     bind_res (validateDictPath fnName path) (\<lambda>_. Inr (dig_walk d (split_on (CHR ''.'') path) dflt))"

fun has_walk :: "sval \<Rightarrow> string list \<Rightarrow> bool" where
  "has_walk current [] = True"
| "has_walk current (seg # segs) =
     (case asMapping_get current seg of Some (Inr (Some v)) \<Rightarrow> has_walk v segs | _ \<Rightarrow> False)"

definition dictHasPathImpl :: "string \<Rightarrow> sval \<Rightarrow> string \<Rightarrow> serror + sval" where
  "dictHasPathImpl fnName d path =
     bind_res (validateDictPath fnName path) (\<lambda>_. Inr (SBool (has_walk d (split_on (CHR ''.'') path))))"

text \<open>One step of \<^verbatim>\<open>dict.dig\<close>; unlike \<^verbatim>\<open>get\<close> it returns a None that is there.\<close>

definition dig_step :: "sval \<Rightarrow> string \<Rightarrow> sval option" where
  "dig_step v k = (case asMapping_get v k of Some (Inr r) \<Rightarrow> r | _ \<Rightarrow> None)"

interpretation dig: path_walk dig_step dig_walk
  by unfold_locales (auto simp: dig_step_def split: option.splits sum.splits)

lemma has_walk_Cons:
  "has_walk v (k # ks) = (case dig_step v k of None \<Rightarrow> False | Some v' \<Rightarrow> has_walk v' ks)"
  by (auto simp: dig_step_def split: option.splits sum.splits)

lemma has_walk_follow: "has_walk v ks \<longleftrightarrow> dig.follow v ks \<noteq> None"
  by (induction ks arbitrary: v) (auto simp: has_walk_Cons simp del: has_walk.simps(2) split: option.splits)

text \<open>A path passes validation exactly when none of its segments is empty.\<close>

lemma split_on_Cons_hd: "\<exists>p ps. split_on sep s = p # ps"
  by (cases "split_on sep s") auto

lemma malformed_iff: "path \<noteq> [] \<and> \<not> malformed_path path \<longleftrightarrow> [] \<notin> set (split_on (CHR ''.'') path)"
proof -
  have inner: "[] \<in> set (tl (split_on sep s)) \<longleftrightarrow> has_suffix s [sep] \<or> contains s [sep, sep]" for sep s
  proof (induction s)
    case Nil
    then show ?case by (simp add: has_suffix_def)
  next
    case (Cons c cs)
    obtain p ps where sp: "split_on sep cs = p # ps" using split_on_Cons_hd by blast
    have suf: "has_suffix (c # cs) [sep] \<longleftrightarrow> (if cs = [] then c = sep else has_suffix cs [sep])"
      by (cases cs rule: rev_cases) (auto simp: has_suffix_def)
    have p: "p = [] \<longleftrightarrow> cs = [] \<or> has_prefix cs [sep]"
      using sp by (cases cs) (auto simp: has_prefix_def split: list.splits if_splits)
    show ?case
    proof (cases "c = sep")
      case True
      then have "[] \<in> set (tl (split_on sep (c # cs))) \<longleftrightarrow> p = [] \<or> [] \<in> set (tl (split_on sep cs))"
        by (auto simp: sp)
      then show ?thesis
        unfolding Cons.IH p suf using True by (cases cs) (auto simp: has_prefix_def has_suffix_def)
    next
      case False
      moreover have "\<not> has_suffix [] [sep]" by (simp add: has_suffix_def)
      ultimately show ?thesis using Cons.IH by (auto simp: sp suf has_prefix_def)
    qed
  qed
  obtain p ps where sp: "split_on (CHR ''.'') path = p # ps" using split_on_Cons_hd by blast
  have "p = [] \<longleftrightarrow> path = [] \<or> has_prefix path ''.''"
    using sp by (cases path) (auto simp: has_prefix_def split: list.splits if_splits)
  then show ?thesis using inner [of "CHR ''.''" path] by (auto simp: malformed_path_def sp)
qed

section \<open>What compaction keeps\<close>

text \<open>Content of a value: all dict types are one, and freezing does not count.\<close>

fun erase :: "sval \<Rightarrow> sval" where
  "erase (SDict f its) = SDict False (map (\<lambda>(k, v). (k, erase v)) its)"
| "erase (SStarlarkDict f its) = SDict False (map (\<lambda>(k, v). (k, erase v)) its)"
| "erase (SSchemaDict s f its) = SDict False (map (\<lambda>(k, v). (k, erase v)) its)"
| "erase (SMutableStruct s f its) = SDict False (map (\<lambda>(k, v). (k, erase v)) its)"
| "erase (SList f vs) = SList False (map erase vs)"
| "erase v = v"

text \<open>The specification: drop the entries that are None, in every dict at any depth.\<close>

fun prune :: "sval \<Rightarrow> sval" where
  "prune (SDict f its) = SDict f (map (\<lambda>(k, v). (k, prune v)) (filter (\<lambda>(k, v). v \<noteq> SNone) its))"
| "prune (SList f vs) = SList f (map prune vs)"
| "prune v = v"

fun sval_wf :: "sval \<Rightarrow> bool" where
  "sval_wf (SDict f its) = (dict_wf its \<and> list_all (\<lambda>(k, v). sval_wf v) its)"
| "sval_wf (SStarlarkDict f its) = (dict_wf its \<and> list_all (\<lambda>(k, v). sval_wf v) its)"
| "sval_wf (SSchemaDict s f its) = (dict_wf its \<and> list_all (\<lambda>(k, v). sval_wf v) its)"
| "sval_wf (SMutableStruct s f its) = (dict_wf its \<and> list_all (\<lambda>(k, v). sval_wf v) its)"
| "sval_wf (SList f vs) = list_all sval_wf vs"
| "sval_wf v = True"

definition erase_items :: "items \<Rightarrow> items" where
  "erase_items its = map (\<lambda>(k, v). (k, erase v)) its"

definition pruned :: "items \<Rightarrow> items" where
  "pruned its = map (\<lambda>(k, v). (k, prune (erase v))) (filter (\<lambda>(k, v). v \<noteq> SNone) its)"

lemma erase_items_simps [simp]:
  "erase_items [] = []" "erase_items ((k, v) # its) = (k, erase v) # erase_items its"
  "erase_items (xs @ ys) = erase_items xs @ erase_items ys"
  by (simp_all add: erase_items_def)

lemma pruned_simps [simp]:
  "pruned [] = []"
  "pruned ((k, v) # its) = (if v = SNone then pruned its else (k, prune (erase v)) # pruned its)"
  "pruned (xs @ ys) = pruned xs @ pruned ys"
  by (simp_all add: pruned_def)

lemma erase_SNone [simp]: "erase v = SNone \<longleftrightarrow> v = SNone"
  by (cases v) auto

lemma prune_erase_dict: "prune (SDict False (erase_items its)) = SDict False (pruned its)"
  by (induction its) auto

lemma dict_of_erase:
  "dict_of v = Some (f, its) \<Longrightarrow> lazies v = 0 \<Longrightarrow>
     erase v = SDict False (erase_items its) \<and> items_lazies its = 0 \<and>
     (sval_wf v \<longrightarrow> dict_wf its \<and> list_all (\<lambda>(k, v). sval_wf v) its)"
  by (cases v) (auto simp: dict_of_def erase_items_def)

text \<open>The loop invariants: nothing was pruned so far and nothing was allocated, or the allocated part is
  the pruned part.\<close>

definition entries_inv :: "items \<Rightarrow> items option \<Rightarrow> bool \<Rightarrow> bool" where
  "entries_inv prev result changed \<longleftrightarrow>
     (case result of None \<Rightarrow> \<not> changed \<and> pruned prev = erase_items prev
      | Some r \<Rightarrow> changed \<and> erase_items r = pruned prev)"

definition elems_inv :: "sval list \<Rightarrow> sval list option \<Rightarrow> bool" where
  "elems_inv prev elems \<longleftrightarrow>
     (case elems of None \<Rightarrow> map (prune \<circ> erase) prev = map erase prev
      | Some es \<Rightarrow> map erase es = map (prune \<circ> erase) prev)"

lemma keys_pruned: "erase_items r = pruned prev \<Longrightarrow> set (map fst r) \<subseteq> set (map fst prev)"
proof -
  assume "erase_items r = pruned prev"
  then have "map fst (erase_items r) = map fst (pruned prev)" by simp
  then have "map fst r = map fst (filter (\<lambda>(k, v). v \<noteq> SNone) prev)"
    by (simp add: erase_items_def pruned_def comp_def case_prod_beta)
  then show ?thesis by auto
qed

lemma fresh_pruned:
  assumes "erase_items r = pruned prev" and "dict_get prev k = None"
  shows "dict_set k v r = r @ [(k, v)]"
proof (rule dict_set_fresh)
  show "dict_get r k = None"
    using keys_pruned [OF assms(1)] assms(2) by (fastforce simp: dict_get_None_iff)
qed

lemma entries_inv_step:
  assumes inv: "entries_inv prev result changed" and wf: "dict_wf (prev @ (k, v) # rest)"
    and v: "erase w = prune (erase v)" "\<not> c \<longrightarrow> erase w = erase v" and nn: "v \<noteq> SNone"
  shows "entries_inv (prev @ [(k, v)])
     (map_option (dict_set k w) (if c then Some (materialize prev result) else result)) (changed \<or> c)"
proof -
  have fresh: "dict_get prev k = None" and wfp: "dict_wf prev" using wf by (auto simp: dict_wf_append)
  show ?thesis
  proof (cases result)
    case None
    with inv have p: "pruned prev = erase_items prev" and "\<not> changed" by (auto simp: entries_inv_def)
    with None v nn fresh_pruned [OF p [symmetric] fresh] show ?thesis
      by (auto simp: entries_inv_def materialize_def dict_update_Nil [OF wfp])
  next
    case (Some r)
    with inv have p: "erase_items r = pruned prev" and "changed" by (auto simp: entries_inv_def)
    with Some v nn fresh_pruned [OF p fresh] show ?thesis
      by (auto simp: entries_inv_def materialize_def)
  qed
qed

lemma entries_inv_None:
  assumes inv: "entries_inv prev result changed" and wf: "dict_wf (prev @ rest)"
  shows "entries_inv (prev @ [(k, SNone)]) (Some (materialize prev result)) True"
proof -
  have "dict_wf prev" using wf by (auto simp: dict_wf_append)
  with inv show ?thesis
    by (auto simp: entries_inv_def materialize_def dict_update_Nil split: option.splits)
qed

lemma compact_correct:
  "compactValue fnName v depth = Inr (w, c) \<Longrightarrow> lazies v = 0 \<Longrightarrow> sval_wf v \<Longrightarrow>
     erase w = prune (erase v) \<and> (\<not> c \<longrightarrow> erase w = erase v)"
  "compactEntries fnName depth prev rest result changed = Inr (result', changed') \<Longrightarrow>
     items_lazies rest = 0 \<Longrightarrow> dict_wf (prev @ rest) \<Longrightarrow> list_all (\<lambda>(k, v). sval_wf v) rest \<Longrightarrow>
     entries_inv prev result changed \<Longrightarrow> entries_inv (prev @ rest) result' changed'"
  "compactElems fnName depth pre vs elems = Inr elems' \<Longrightarrow> sum_list (map lazies vs) = 0 \<Longrightarrow>
     list_all sval_wf vs \<Longrightarrow> elems_inv pre elems \<Longrightarrow> elems_inv (pre @ vs) elems'"
proof (induction fnName v depth and fnName depth prev rest result changed and fnName depth pre vs elems
    arbitrary: w c and result' changed' and elems'
    rule: compactValue_compactEntries_compactElems.induct)
  case (1 fnName v depth)
  have le: "\<not> depth > maxMergeDepth" using "1.prems"(1) by (auto simp: compactValue.simps split: if_splits)
  show ?case
  proof (cases "dict_of v")
    case (Some d)
    obtain f its where d: "d = (f, its)" by force
    note er = dict_of_erase [OF Some [unfolded d] "1.prems"(2)]
    obtain result changed where loop: "compactEntries fnName depth [] its None False = Inr (result, changed)"
      and w: "if changed then w = SDict False (the result) \<and> c
              else \<not> c \<and> w = (case v of SDict _ _ \<Rightarrow> v | _ \<Rightarrow> SDict False (dict_update [] its))"
      using "1.prems"(1) le by (auto simp: compactValue.simps Some d bind_res_eq_Inr split: if_splits)
    have "entries_inv its result changed"
      using "1.IH"(2) [OF le Some d [symmetric] loop] er "1.prems"(3) by (simp add: entries_inv_def)
    moreover have "erase (case v of SDict _ _ \<Rightarrow> v | _ \<Rightarrow> SDict False (dict_update [] its)) = erase v"
      using er "1.prems"(3) by (cases v) (auto simp: dict_update_Nil erase_items_def)
    ultimately show ?thesis using w er prune_erase_dict [of its]
      by (auto simp: entries_inv_def erase_items_def split: option.splits if_splits)
  next
    case None
    show ?thesis
    proof (cases "\<exists>f vs. v = SList f vs")
      case True
      then obtain f vs where v: "v = SList f vs" by blast
      obtain elems where loop: "compactElems fnName depth [] vs None = Inr elems"
        and w: "(case elems of None \<Rightarrow> (SList f vs, False) | Some es \<Rightarrow> (SList False es, True)) = (w, c)"
        using "1.prems"(1) le None by (auto simp: compactValue.simps v bind_res_eq_Inr)
      have "elems_inv vs elems"
        using "1.IH"(1) [OF le None v loop] "1.prems"(2,3) by (simp add: v elems_inv_def)
      with w show ?thesis by (auto simp: v elems_inv_def split: option.splits)
    next
      case False
      with "1.prems"(1) le None have "w = v \<and> \<not> c" by (cases v) (auto simp: compactValue.simps)
      with False None show ?thesis by (cases v) (auto simp: dict_of_def)
    qed
  qed
next
  case (3 fnName depth prev k v rest result changed)
  show ?case
  proof (cases "v = SNone")
    case True
    with 3 entries_inv_None [of prev result changed "(k, v) # rest" k] show ?thesis by simp
  next
    case False
    from "3.prems"(1) False obtain r where r: "compactValue fnName v (depth + 1) = Inr r"
      and rest: "compactEntries fnName depth (prev @ [(k, v)]) rest
          (map_option (dict_set k (fst r)) (if snd r then Some (materialize prev result) else result))
          (changed \<or> snd r) = Inr (result', changed')"
      by (auto simp: bind_res_eq_Inr)
    have "erase (fst r) = prune (erase v) \<and> (\<not> snd r \<longrightarrow> erase (fst r) = erase v)"
      using r "3.prems"(2,4) by (intro "3.IH"(2)) (auto simp: False)
    with "3.prems"(3,5) False
    have "entries_inv (prev @ [(k, v)])
      (map_option (dict_set k (fst r)) (if snd r then Some (materialize prev result) else result))
      (changed \<or> snd r)" by (intro entries_inv_step) auto
    with "3.IH"(3) [OF False r rest] "3.prems"(2,3,4) show ?thesis by simp
  qed
next
  case (5 fnName depth prev v rest elems)
  from "5.prems"(1) obtain r where r: "compactValue fnName v (depth + 1) = Inr r"
    and rest: "compactElems fnName depth (prev @ [v]) rest
      (map_option (\<lambda>es. es @ [fst r]) (if snd r \<and> elems = None then Some prev else elems)) = Inr elems'"
    by (auto simp: bind_res_eq_Inr)
  have "erase (fst r) = prune (erase v) \<and> (\<not> snd r \<longrightarrow> erase (fst r) = erase v)"
    using r "5.prems"(2,3) by (intro "5.IH"(1)) auto
  with "5.prems"(4) have "elems_inv (prev @ [v])
      (map_option (\<lambda>es. es @ [fst r]) (if snd r \<and> elems = None then Some prev else elems))"
    by (auto simp: elems_inv_def split: option.splits)
  with "5.IH"(2) [OF r rest] "5.prems"(2,3) show ?case by simp
qed auto

section \<open>Depth\<close>

text \<open>Nesting depth of the containers that compaction descends into.\<close>

fun sdepth :: "sval \<Rightarrow> nat" where
  "sdepth (SDict f its) = Suc (foldr max (map (\<lambda>(k, v). sdepth v) its) 0)"
| "sdepth (SStarlarkDict f its) = Suc (foldr max (map (\<lambda>(k, v). sdepth v) its) 0)"
| "sdepth (SSchemaDict s f its) = Suc (foldr max (map (\<lambda>(k, v). sdepth v) its) 0)"
| "sdepth (SMutableStruct s f its) = Suc (foldr max (map (\<lambda>(k, v). sdepth v) its) 0)"
| "sdepth (SList f vs) = Suc (foldr max (map sdepth vs) 0)"
| "sdepth v = 0"

lemma foldr_max_le: "foldr max (xs :: nat list) 0 \<le> n \<longleftrightarrow> (\<forall>x \<in> set xs. x \<le> n)"
  by (induction xs) auto

lemma dict_of_sdepth:
  "dict_of v = Some (f, its) \<Longrightarrow> lazies v = 0 \<Longrightarrow> sdepth v \<le> n \<Longrightarrow>
     0 < n \<and> items_lazies its = 0 \<and> list_all (\<lambda>(k, v). sdepth v \<le> n - 1) its"
  by (cases v; cases n) (auto simp: dict_of_def foldr_max_le list_all_iff)

lemma compact_succeeds:
  "lazies v = 0 \<Longrightarrow> depth + sdepth v \<le> maxMergeDepth \<Longrightarrow> converts (compactValue fnName v depth)"
  "items_lazies rest = 0 \<Longrightarrow> list_all (\<lambda>(k, v). Suc depth + sdepth v \<le> maxMergeDepth) rest \<Longrightarrow>
     converts (compactEntries fnName depth prev rest result changed)"
  "sum_list (map lazies vs) = 0 \<Longrightarrow> list_all (\<lambda>v. Suc depth + sdepth v \<le> maxMergeDepth) vs \<Longrightarrow>
     converts (compactElems fnName depth pre vs elems)"
proof (induction fnName v depth and fnName depth prev rest result changed and fnName depth pre vs elems
    rule: compactValue_compactEntries_compactElems.induct)
  case (1 fnName v depth)
  have le: "\<not> depth > maxMergeDepth" using "1.prems"(2) by simp
  show ?case
  proof (cases "dict_of v")
    case (Some d)
    obtain f its where d: "d = (f, its)" by force
    have "sdepth v \<le> maxMergeDepth - depth" using "1.prems"(2) by simp
    from dict_of_sdepth [OF Some [unfolded d] "1.prems"(1) this]
    have "items_lazies its = 0" "list_all (\<lambda>(k, v). Suc depth + sdepth v \<le> maxMergeDepth) its"
      by (auto simp: list_all_iff)
    with "1.IH"(2) [OF le Some d [symmetric]] le show ?thesis
      by (auto simp: compactValue.simps Some d converts_bind converts_def split: if_splits)
  next
    case None
    show ?thesis
    proof (cases "\<exists>f vs. v = SList f vs")
      case True
      then obtain f vs where v: "v = SList f vs" by blast
      have "foldr max (map sdepth vs) 0 \<le> maxMergeDepth - Suc depth" using "1.prems"(2) by (simp add: v)
      then have "list_all (\<lambda>v. Suc depth + sdepth v \<le> maxMergeDepth) vs"
        using "1.prems"(2) by (auto simp: v foldr_max_le list_all_iff)
      with "1.IH"(1) [OF le None v] "1.prems"(1) le None show ?thesis
        by (auto simp: compactValue.simps v)
    qed (use le None in \<open>cases v; simp add: compactValue.simps\<close>)
  qed
next
  case (3 fnName depth prev k v rest result changed)
  show ?case
  proof (cases "v = SNone")
    case False
    with 3 have "converts (compactValue fnName v (depth + 1))" by auto
    then obtain r where r: "compactValue fnName v (depth + 1) = Inr r" by (auto simp: converts_def)
    from "3.IH"(3) [OF False r] "3.prems" show ?thesis using False r by simp
  qed (use 3 in auto)
next
  case (5 fnName depth prev v rest elems)
  then have "converts (compactValue fnName v (depth + 1))" by auto
  then obtain r where r: "compactValue fnName v (depth + 1) = Inr r" by (auto simp: converts_def)
  from "5.IH"(2) [OF r] "5.prems" show ?case using r by simp
qed auto

section \<open>What merging returns\<close>

lemma merge_args_get:
  "merge_args fnName args result = Inr r \<Longrightarrow>
     (\<And>a f its. a \<in> set args \<Longrightarrow> dict_of a = Some (f, its) \<Longrightarrow> dict_wf its) \<Longrightarrow>
     dict_get r k = foldl (\<lambda>acc a. case dict_get (snd (the (dict_of a))) k of Some v \<Rightarrow> Some v | None \<Rightarrow> acc)
       (dict_get result k) args"
proof (induction args arbitrary: result)
  case (Cons a args)
  from Cons.prems(1) obtain f its where a: "dict_of a = Some (f, its)"
    and rest: "merge_args fnName args (dict_update result its) = Inr r"
    by (auto simp: bind_res_eq_Inr dictItems_def split: option.splits)
  have "dict_wf its" using a Cons.prems(2) by auto
  moreover have "dict_wf kvs" if "b \<in> set args" "dict_of b = Some (g, kvs)" for b g kvs
    using that Cons.prems(2) by auto
  ultimately show ?case using Cons.IH [OF rest] a by (simp add: dict_get_update)
qed simp

text \<open>One key of a deep merge.\<close>

definition deep_value :: "string \<Rightarrow> nat \<Rightarrow> sval option \<Rightarrow> sval option \<Rightarrow> serror + sval option" where
  "deep_value fnName depth b ov =
     (case (b, ov) of
        (x, None) \<Rightarrow> Inr x
      | (None, Some y) \<Rightarrow> Inr (Some y)
      | (Some x, Some y) \<Rightarrow>
          if isDict x \<and> isDict y then bind_res (deepMergeTwo fnName x y (depth + 1)) (\<lambda>m. Inr (Some m))
          else Inr (Some y))"

lemma deepApply_get:
  "deepApply fnName its result depth = Inr r \<Longrightarrow> dict_wf its \<Longrightarrow>
     deep_value fnName depth (dict_get result k) (dict_get its k) = Inr (dict_get r k)"
proof (induction its arbitrary: result)
  case (Cons kv its)
  obtain key v where kv: "kv = (key, v)" by force
  obtain m where m: "deep_value fnName depth (dict_get result key) (Some v) = Inr (Some m)"
    and rest: "deepApply fnName its (dict_set key m result) depth = Inr r"
    using Cons.prems(1) unfolding kv
    by (auto simp: deep_value_def bind_res_eq_Inr split: if_splits option.splits)
  from Cons.IH [OF rest] Cons.prems(2)
  have IH: "deep_value fnName depth (dict_get (dict_set key m result) k) (dict_get its k) = Inr (dict_get r k)"
    by (simp add: kv)
  show ?case
  proof (cases "key_eq k key")
    case True
    then have "dict_get its k = None" "dict_get result k = dict_get result key"
      using Cons.prems(2) dict_get_cong [of k key] by (auto simp: kv)
    with IH m True show ?thesis by (simp add: kv deep_value_def)
  qed (use IH in \<open>simp add: kv\<close>)
qed (simp add: deep_value_def split: option.splits)

lemma deepMergeTwo_get:
  assumes "deepMergeTwo fnName base override depth = Inr m"
    and "dict_of base = Some (f, bits)" "dict_wf bits" "dict_of override = Some (g, oits)" "dict_wf oits"
  shows "\<exists>r. m = SDict False r \<and>
     (\<forall>k. deep_value fnName depth (dict_get bits k) (dict_get oits k) = Inr (dict_get r k))"
proof -
  from assms obtain r where "m = SDict False r" "deepApply fnName oits (dict_update [] bits) depth = Inr r"
    by (auto simp: deepMergeTwo.simps dictItems_def bind_res_eq_Inr split: if_splits)
  with deepApply_get [of fnName oits "dict_update [] bits" depth r] assms(3,5) show ?thesis
    by (simp add: dict_update_Nil)
qed

section \<open>pick and omit split a dict\<close>

lemma pick_loop_get:
  "pick_loop fnName d ks result = Inr r \<Longrightarrow> dict_of d = Some (f, its) \<Longrightarrow> lazies d = 0 \<Longrightarrow>
     dict_get r (SString s) =
       (if SString s \<in> set ks \<and> dict_get its (SString s) \<noteq> None then dict_get its (SString s)
        else dict_get result (SString s))"
proof (induction ks arbitrary: result)
  case (Cons k ks)
  from Cons.prems(1) obtain t where k: "k = SString t" by (auto split: option.splits)
  have get: "asMapping_get d t = Some (Inr (dict_get its (SString t)))"
    using Cons.prems(2,3)
    by (cases d) (auto simp: dict_of_def asMapping_get_def mapping_get_def get_key_def)
  from Cons get show ?case by (auto simp: k split: option.splits)
qed simp

lemma exclude_keys_set: "exclude_keys fnName ks = Inr ex \<Longrightarrow> ks = map SString ex"
  by (induction ks arbitrary: ex) (auto simp: bind_res_eq_Inr split: option.splits)

lemma omit_loop_get:
  "dict_wf its \<Longrightarrow> dict_get (omit_loop ex its result) (SString s) =
     (if s \<notin> set ex \<and> dict_get its (SString s) \<noteq> None then dict_get its (SString s)
      else dict_get result (SString s))"
proof (induction its arbitrary: result)
  case (Cons kv its)
  obtain k v where kv: "kv = (k, v)" by force
  show ?case
  proof (cases "as_string k")
    case None
    then have "k \<noteq> SString s" by auto
    with Cons None show ?thesis by (simp add: kv)
  next
    case (Some t)
    then have "k = SString t" by simp
    with Cons show ?thesis by (auto simp: kv)
  qed
qed simp

section \<open>Properties\<close>

text \<open>
  C11. Compaction of a body nested at most 32 deep always succeeds, and the result holds the same content
  without the entries that are None, in every dict at any depth, with the order of the rest kept; list
  elements stay. The copy-on-write shortcut reports no change only if there was nothing to remove.
\<close>

theorem compact_removes_none:
  assumes "lazies v = 0" and "sval_wf v" and "sdepth v \<le> maxMergeDepth"
  shows "\<exists>w changed. compactValue fnName v 0 = Inr (w, changed) \<and> erase w = prune (erase v) \<and>
     (changed \<or> erase w = erase v)"
  using compact_succeeds(1) [of v 0 fnName] compact_correct(1) [of fnName v 0] assms
  by (fastforce simp: converts_def)

theorem compact_removes_none_witness:
  "\<exists>w changed. compactValue ''Resource'' (SDict False [(SString ''a'', SNone),
       (SString ''b'', SList False [SNone, SDict False [(SString ''c'', SNone)]])]) 0 = Inr (w, changed) \<and>
     erase w = SDict False [(SString ''b'', SList False [SNone, SDict False []])]"
  using compact_removes_none [of "SDict False [(SString ''a'', SNone),
       (SString ''b'', SList False [SNone, SDict False [(SString ''c'', SNone)]])]" "''Resource''"]
  by (auto simp: maxMergeDepth_def)

text \<open>
  Deep merge, key by key: a key of one side only keeps its value, a key of both sides gets the
  override's value, unless both values are dicts, which are merged in turn.
\<close>

theorem deep_merge_by_key:
  assumes "deepMergeTwo fnName base override depth = Inr m"
    and "dict_of base = Some (f, bits)" and "dict_wf bits"
    and "dict_of override = Some (g, oits)" and "dict_wf oits"
  shows "\<exists>r. m = SDict False r \<and>
     (case (dict_get bits k, dict_get oits k) of
        (x, None) \<Rightarrow> dict_get r k = x
      | (None, Some y) \<Rightarrow> dict_get r k = Some y
      | (Some x, Some y) \<Rightarrow>
          if isDict x \<and> isDict y
          then (\<exists>sub. deepMergeTwo fnName x y (depth + 1) = Inr sub \<and> dict_get r k = Some sub)
          else dict_get r k = Some y)"
proof -
  from deepMergeTwo_get [OF assms] obtain r where r: "m = SDict False r"
    and "deep_value fnName depth (dict_get bits k) (dict_get oits k) = Inr (dict_get r k)" by blast
  then show ?thesis
    by (cases "dict_get bits k"; cases "dict_get oits k")
      (auto simp: deep_value_def bind_res_eq_Inr split: if_splits option.splits)
qed

text \<open>
  \<^verbatim>\<open>dict.pick\<close> and \<^verbatim>\<open>dict.omit\<close> with the same keys split a dict: every string key of the dict is in exactly
  one of the two results, with its value, and no other string key is in either.
\<close>

theorem pick_omit_partition:
  assumes "dictPickImpl fnName d keys = Inr (SDict fp picked)"
    and "dictOmitImpl fnName d keys = Inr (SDict fo omitted)"
    and "dict_of d = Some (f, its)" and "dict_wf its" and "lazies d = 0"
  shows "dict_get picked (SString s) = (if SString s \<in> set keys then dict_get its (SString s) else None) \<and>
     dict_get omitted (SString s) = (if SString s \<in> set keys then None else dict_get its (SString s))"
proof -
  from assms(1) have "pick_loop fnName d keys [] = Inr picked"
    by (auto simp: dictPickImpl_def bind_res_eq_Inr split: if_splits)
  from pick_loop_get [OF this assms(3,5)] have p: "dict_get picked (SString s) =
      (if SString s \<in> set keys then dict_get its (SString s) else None)" by auto
  from assms(2,3) obtain ex where ex: "exclude_keys fnName keys = Inr ex" "omitted = omit_loop ex its []"
    by (auto simp: dictOmitImpl_def dictItems_def bind_res_eq_Inr)
  have "SString s \<in> set keys \<longleftrightarrow> s \<in> set ex" using exclude_keys_set [OF ex(1)] by auto
  with p omit_loop_get [OF assms(4), of ex "[]" s] show ?thesis by (auto simp: ex(2))
qed

text \<open>
  \<^verbatim>\<open>dict.has_path\<close> and \<^verbatim>\<open>dict.dig\<close> accept exactly the paths without an empty segment, and they agree:
  the path exists if and only if the result of \<^verbatim>\<open>dig\<close> does not depend on the default.
\<close>

theorem has_path_dig_agree:
  "(\<exists>r. dictHasPathImpl fnName d path = Inr r) = ([] \<notin> set (split_on (CHR ''.'') path)) \<and>
   (\<exists>r. dictDigImpl fnName d path dflt = Inr r) = ([] \<notin> set (split_on (CHR ''.'') path)) \<and>
   (dictHasPathImpl fnName d path = Inr (SBool True)) =
     ([] \<notin> set (split_on (CHR ''.'') path) \<and>
      (\<exists>v. range (dictDigImpl fnName d path) = {Inr v}))"
proof -
  let ?ks = "split_on (CHR ''.'') path"
  have val: "validateDictPath fn path = Inr () \<longleftrightarrow> [] \<notin> set ?ks" for fn
    unfolding malformed_iff [symmetric] by (simp add: validateDictPath_def)
  show ?thesis
  proof (cases "[] \<notin> set ?ks")
    case True
    then have ok: "validateDictPath fnName path = Inr ()" using val by blast
    have "has_walk d ?ks \<longleftrightarrow> (\<exists>v. range (\<lambda>dflt. dig_walk d ?ks dflt) = {v})"
    proof (cases "dig.follow d ?ks")
      case None
      then have "range (\<lambda>dflt. dig_walk d ?ks dflt) = UNIV" by (auto simp: dig.walk_follow)
      moreover have "(UNIV :: sval set) \<noteq> {v}" for v
        by (metis UNIV_I singletonD sval.distinct(1))
      ultimately show ?thesis using None by (auto simp: has_walk_follow)
    next
      case (Some v)
      then show ?thesis by (auto simp: has_walk_follow dig.walk_follow)
    qed
    moreover have "range (dictDigImpl fnName d path) = Inr ` range (\<lambda>dflt. dig_walk d ?ks dflt)"
      by (auto simp: dictDigImpl_def ok)
    moreover have "(\<exists>v. (Inr ` A :: (serror + sval) set) = {Inr v}) \<longleftrightarrow> (\<exists>v. A = {v})" for A :: "sval set"
      by (auto simp: set_eq_iff image_iff)
    ultimately show ?thesis using True ok by (auto simp: dictHasPathImpl_def dictDigImpl_def)
  next
    case False
    then obtain e where "validateDictPath fnName path = Inl e" using val by (cases "validateDictPath fnName path") auto
    with False show ?thesis by (auto simp: dictHasPathImpl_def dictDigImpl_def)
  qed
qed

end
