(* ===== verification/Conditions.thy ===== *)
theory Conditions
  imports Sequencer DictModule
begin

text \<open>
  The collectors of a script's side effects other than resources: \<^verbatim>\<open>builtins/conditions.go\<close> (conditions,
  events, \<^verbatim>\<open>fatal\<close>), \<^verbatim>\<open>builtins/connection.go\<close> (connection details) and \<^verbatim>\<open>builtins/ttl.go\<close> (response TTL).
  Arguments are those after \<^verbatim>\<open>UnpackArgs\<close>, defaults filled in.
\<close>

section \<open>Conditions and events\<close>

record CollectedCondition =
  cd_Type :: string
  cd_Status :: string
  cd_Reason :: string
  cd_Message :: string
  cd_Target :: string

record ConditionCollector =
  cc_conditions :: "CollectedCondition list"
  cc_events :: "CollectedEvent list"
  cc_deprecated :: "string list"

definition CompositeReadyConditionType :: string where
  "CompositeReadyConditionType = ''ComposedResourcesReady''"

definition NewConditionCollector :: ConditionCollector where
  "NewConditionCollector = \<lparr>cc_conditions = [], cc_events = [], cc_deprecated = []\<rparr>"

definition AddEvent :: "CollectedEvent \<Rightarrow> ConditionCollector \<Rightarrow> ConditionCollector" where
  "AddEvent e cc = cc\<lparr>cc_events := cc_events cc @ [e]\<rparr>"

definition AddCondition :: "CollectedCondition \<Rightarrow> ConditionCollector \<Rightarrow> ConditionCollector" where
  "AddCondition c cc = cc\<lparr>cc_conditions := cc_conditions cc @ [c]\<rparr>"

definition warnDeprecatedOnce :: "string \<Rightarrow> string \<Rightarrow> ConditionCollector \<Rightarrow> ConditionCollector" where
  "warnDeprecatedOnce key message cc =
     (if key \<in> set (cc_deprecated cc) then cc
      else cc\<lparr>cc_deprecated := key # cc_deprecated cc,
              cc_events := cc_events cc @
                [\<lparr>ev_Severity = ''Warning'', ev_Message = message, ev_Target = ''Composite''\<rparr>]\<rparr>)"

definition setConditionFn ::
  "string \<Rightarrow> string \<Rightarrow> string \<Rightarrow> string \<Rightarrow> string \<Rightarrow> ConditionCollector \<Rightarrow> serror + ConditionCollector" where
  "setConditionFn typ status reason message target cc =
     (if typ = CompositeReadyConditionType
      then Inl (EMsg (''set_condition: '' @ go_quote CompositeReadyConditionType @
             '' is reserved for composite-ready gating; use set_composite_ready() or Resource(..., when=False) instead''))
      else Inr (cc\<lparr>cc_conditions := cc_conditions cc @
             [\<lparr>cd_Type = typ, cd_Status = status, cd_Reason = reason, cd_Message = message,
               cd_Target = target\<rparr>]\<rparr>))"

definition emitEventFn ::
  "string \<Rightarrow> string \<Rightarrow> string \<Rightarrow> ConditionCollector \<Rightarrow> serror + ConditionCollector" where
  "emitEventFn severity message target cc =
     (if severity \<noteq> ''Normal'' \<and> severity \<noteq> ''Warning''
      then Inl (EMsg (''emit_event: severity must be \"Normal\" or \"Warning\", got '' @ go_quote severity))
      else Inr (cc\<lparr>cc_events := cc_events cc @
             [\<lparr>ev_Severity = severity, ev_Message = message, ev_Target = target\<rparr>]\<rparr>))"

definition fatalFn :: "string \<Rightarrow> serror + sval" where
  "fatalFn message = Inl (EIn ''FatalError'' (EMsg message))"

subsection \<open>Events and conditions on the response\<close>

text \<open>
  The helpers of the function SDK that append to the response are parameters: the conditions with the
  three statuses, the results of the two severities, and the options on what was appended last.
\<close>

record 'r sdk =
  sdk_ConditionTrue :: "'r \<Rightarrow> string \<Rightarrow> string \<Rightarrow> 'r"
  sdk_ConditionFalse :: "'r \<Rightarrow> string \<Rightarrow> string \<Rightarrow> 'r"
  sdk_ConditionUnknown :: "'r \<Rightarrow> string \<Rightarrow> string \<Rightarrow> 'r"
  sdk_WithMessage :: "'r \<Rightarrow> string \<Rightarrow> 'r"
  sdk_ConditionTargetCompositeAndClaim :: "'r \<Rightarrow> 'r"
  sdk_Normal :: "'r \<Rightarrow> string \<Rightarrow> 'r"
  sdk_Warning :: "'r \<Rightarrow> string \<Rightarrow> 'r"
  sdk_ResultTargetCompositeAndClaim :: "'r \<Rightarrow> 'r"

definition applyCondition :: "'r sdk \<Rightarrow> 'r \<Rightarrow> CollectedCondition \<Rightarrow> 'r" where
  "applyCondition sdk rsp c =
     (let rsp = (if cd_Status c = ''True'' then sdk_ConditionTrue sdk rsp (cd_Type c) (cd_Reason c)
                 else if cd_Status c = ''False'' then sdk_ConditionFalse sdk rsp (cd_Type c) (cd_Reason c)
                 else sdk_ConditionUnknown sdk rsp (cd_Type c) (cd_Reason c));
          rsp = (if cd_Message c \<noteq> [] then sdk_WithMessage sdk rsp (cd_Message c) else rsp)
      in if cd_Target c = ''CompositeAndClaim'' then sdk_ConditionTargetCompositeAndClaim sdk rsp else rsp)"

definition ApplyConditions :: "'r sdk \<Rightarrow> 'r \<Rightarrow> CollectedCondition list \<Rightarrow> 'r" where
  "ApplyConditions sdk rsp conditions = foldl (applyCondition sdk) rsp conditions"

definition applyEvent :: "'r sdk \<Rightarrow> 'r \<Rightarrow> CollectedEvent \<Rightarrow> 'r" where
  "applyEvent sdk rsp e =
     (let target = (\<lambda>r. if ev_Target e = ''CompositeAndClaim'' then sdk_ResultTargetCompositeAndClaim sdk r else r)
      in if ev_Severity e = ''Normal'' then target (sdk_Normal sdk rsp (ev_Message e))
         else if ev_Severity e = ''Warning'' then target (sdk_Warning sdk rsp (ev_Message e))
         else rsp)"

definition ApplyEvents :: "'r sdk \<Rightarrow> 'r \<Rightarrow> CollectedEvent list \<Rightarrow> 'r" where
  "ApplyEvents sdk rsp events = foldl (applyEvent sdk) rsp events"

subsection \<open>What the collector holds\<close>

text \<open>Scripts cannot forge the gating condition, and every event has one of the two severities.\<close>

definition cc_wf :: "ConditionCollector \<Rightarrow> bool" where
  "cc_wf cc \<longleftrightarrow>
     (\<forall>c \<in> set (cc_conditions cc). cd_Type c \<noteq> CompositeReadyConditionType) \<and>
     (\<forall>e \<in> set (cc_events cc). ev_Severity e \<in> {''Normal'', ''Warning''})"

lemma cc_wf_ops:
  "cc_wf NewConditionCollector"
  "cc_wf cc \<Longrightarrow> ev_Severity e \<in> {''Normal'', ''Warning''} \<Longrightarrow> cc_wf (AddEvent e cc)"
  "cc_wf cc \<Longrightarrow> cc_wf (warnDeprecatedOnce key m cc)"
  "cc_wf cc \<Longrightarrow> setConditionFn t st r m tg cc = Inr cc' \<Longrightarrow> cc_wf cc'"
  "cc_wf cc \<Longrightarrow> emitEventFn sev m tg cc = Inr cc' \<Longrightarrow> cc_wf cc'"
  by (auto simp: cc_wf_def NewConditionCollector_def AddEvent_def warnDeprecatedOnce_def setConditionFn_def
      emitEventFn_def split: if_splits)

section \<open>Connection details\<close>

type_synonym ConnectionCollector = "(string \<times> string) list"

text \<open>The loop writes as it goes: on an error the keys before it stay.\<close>

fun connection_loop :: "items \<Rightarrow> ConnectionCollector \<Rightarrow> (serror + unit) \<times> ConnectionCollector" where
  "connection_loop [] details = (Inr (), details)"
| "connection_loop ((k, v) # its) details =
     (case as_string k of
        None \<Rightarrow> (Inl (EMsg (''set_connection_details: key must be string, got '' @ stype k)), details)
      | Some ks \<Rightarrow>
          (case as_string v of
             None \<Rightarrow> (Inl (EMsg (''set_connection_details: value must be string, got '' @ stype v)), details)
           | Some vs \<Rightarrow> connection_loop its (AList.update ks vs details)))"

definition setConnectionDetailsFn ::
  "items \<Rightarrow> ConnectionCollector \<Rightarrow> (serror + sval) \<times> ConnectionCollector" where
  "setConnectionDetailsFn d details =
     (case connection_loop d details of
        (Inl e, details') \<Rightarrow> (Inl e, details') | (Inr _, details') \<Rightarrow> (Inr SNone, details'))"

lemma connection_loop_get:
  "connection_loop its details = (Inr (), details') \<Longrightarrow> dict_wf its \<Longrightarrow>
     map_of details' k =
       (case dict_get its (SString k) of Some v \<Rightarrow> as_string v | None \<Rightarrow> map_of details k)"
proof (induction its arbitrary: details)
  case (Cons kv its)
  obtain a v where kv: "kv = (a, v)" by force
  from Cons.prems(1) obtain ks vs where a: "a = SString ks" and v: "v = SString vs"
    and rest: "connection_loop its (AList.update ks vs details) = (Inr (), details')"
    by (auto simp: kv split: option.splits)
  from Cons.IH [OF rest] Cons.prems(2) show ?case by (auto simp: kv a v split: option.splits)
qed simp

section \<open>Response TTL\<close>

text \<open>
  A \<^verbatim>\<open>time.Duration\<close> is an int64 of nanoseconds; \<open>parse\<close> stands for \<^verbatim>\<open>time.ParseDuration\<close>. The product
  \<^verbatim>\<open>time.Duration(secs) * time.Second\<close> wraps around in 64 bits.
\<close>

definition maxDurationSeconds :: int where
  "maxDurationSeconds = 9223372036"

definition wrap64 :: "int \<Rightarrow> int" where
  "wrap64 x = (x + 2 ^ 63) mod 2 ^ 64 - 2 ^ 63"

definition is_int64 :: "int \<Rightarrow> bool" where
  "is_int64 i \<longleftrightarrow> - (2 ^ 63) \<le> i \<and> i < 2 ^ 63"

definition setResponseTTLFn ::
  "(string \<Rightarrow> string + int) \<Rightarrow> string \<Rightarrow> sval \<Rightarrow> int option \<Rightarrow> serror + int option" where
  "setResponseTTLFn parse fnName duration ttl =
     bind_res
       (case duration of
          SString s \<Rightarrow> (case parse s of Inl e \<Rightarrow> Inl (EIn fnName (EMsg e)) | Inr d \<Rightarrow> Inr d)
        | SInt secs \<Rightarrow>
            if \<not> is_int64 secs then Inl (EMsg (fnName @ '': integer too large''))
            else if secs > maxDurationSeconds then Inl (EIn fnName (EIntTooLarge secs))
            else Inr (wrap64 (secs * 1000000000))
        | _ \<Rightarrow> Inl (EMsg (fnName @ '': got '' @ stype duration @ '', want string or int'')))
       (\<lambda>d. if d < 0 then Inl (EMsg (fnName @ '': duration must be non-negative'')) else Inr (Some d))"

lemma wrap64_id: "is_int64 x \<Longrightarrow> wrap64 x = x"
  by (simp add: wrap64_def is_int64_def mod_pos_pos_trivial)

lemma setResponseTTL_bounds:
  "setResponseTTLFn parse fnName (SInt secs) ttl = Inr r \<Longrightarrow> 0 \<le> secs \<Longrightarrow>
     r = Some (secs * 1000000000) \<and> is_int64 (secs * 1000000000)"
  by (auto simp: setResponseTTLFn_def bind_res_eq_Inr wrap64_id is_int64_def maxDurationSeconds_def split: if_splits)

section \<open>Properties\<close>

text \<open>
  An integer TTL of at least -9223372036 seconds is treated exactly: too large a number and a negative
  one are errors, anything else becomes that many seconds in nanoseconds, without wrapping around in the
  64 bits of a duration.
\<close>

theorem ttl_seconds_exact:
  assumes "- maxDurationSeconds \<le> secs"
  shows "(\<exists>e. setResponseTTLFn parse fnName (SInt secs) ttl = Inl e) = (secs < 0 \<or> maxDurationSeconds < secs) \<and>
     (0 \<le> secs \<and> secs \<le> maxDurationSeconds \<longrightarrow>
        setResponseTTLFn parse fnName (SInt secs) ttl = Inr (Some (secs * 1000000000)) \<and>
        is_int64 (secs * 1000000000))"
proof -
  have w: "wrap64 (secs * 1000000000) = secs * 1000000000" if "secs \<le> maxDurationSeconds"
    using assms that by (intro wrap64_id) (simp add: is_int64_def maxDurationSeconds_def)
  have "is_int64 secs" if "secs \<le> maxDurationSeconds"
    using assms that by (simp add: is_int64_def maxDurationSeconds_def)
  with assms w show ?thesis
    by (auto simp: setResponseTTLFn_def is_int64_def maxDurationSeconds_def)
qed

text \<open>
  Below that bound the product of seconds and nanoseconds wraps around: -9223372037 seconds are
  accepted as a positive TTL of about 292 years instead of being rejected as negative.
\<close>

theorem ttl_negative_wraps:
  "setResponseTTLFn parse fnName (SInt (- 9223372037)) ttl = Inr (Some 9223372036709551616)"
  by (simp add: setResponseTTLFn_def is_int64_def maxDurationSeconds_def wrap64_def)

end
