(* ===== verification/Graph.thy ===== *)
theory Graph
  imports Prelude
begin

text \<open>
  Finite directed graphs given by successor lists: what the dependency validation
  (\<^verbatim>\<open>builtins/usage.go\<close>), the creation sequencing and the OCI resolver (\<^verbatim>\<open>runtime/oci/resolver.go\<close>)
  share. The locale \<open>finite_digraph\<close> is their common interface.
\<close>

definition edges_of :: "('a \<Rightarrow> 'a list) \<Rightarrow> ('a \<times> 'a) set" where
  "edges_of succs = {(x, y). y \<in> set (succs x)}"

lemma edges_of_iff [simp]: "(x, y) \<in> edges_of succs \<longleftrightarrow> y \<in> set (succs x)"
  by (simp add: edges_of_def)

text \<open>A closed walk \<open>x\<^sub>0, x\<^sub>1, \<dots>, x\<^sub>0\<close> along the edges, of at least one edge.\<close>

definition is_cycle :: "('a \<times> 'a) set \<Rightarrow> 'a list \<Rightarrow> bool" where
  "is_cycle E c \<longleftrightarrow> 2 \<le> length c \<and> hd c = last c \<and> successively (\<lambda>x y. (x, y) \<in> E) c"

lemma successively_trancl:
  "successively (\<lambda>x y. (x, y) \<in> E) (x # y # ys) \<Longrightarrow> (x, last (y # ys)) \<in> E\<^sup>+"
proof (induction ys arbitrary: x y)
  case (Cons z zs)
  then have "(x, y) \<in> E" and "(y, last (z # zs)) \<in> E\<^sup>+" by auto
  then show ?case by (simp add: trancl_into_trancl2)
qed auto

lemma is_cycle_not_acyclic: "is_cycle E c \<Longrightarrow> \<not> acyclic E"
proof -
  assume c: "is_cycle E c"
  then obtain x y ys where c_eq: "c = x # y # ys"
    by (cases c; cases "tl c") (auto simp: is_cycle_def)
  have "(x, last (y # ys)) \<in> E\<^sup>+"
    using c unfolding is_cycle_def c_eq by (blast intro: successively_trancl)
  moreover have "last (y # ys) = x" using c by (auto simp: is_cycle_def c_eq)
  ultimately have "(x, x) \<in> E\<^sup>+" by simp
  then show ?thesis by (auto simp: acyclic_def)
qed

text \<open>Adding a node whose successors are all in an already closed, acyclic part.\<close>

lemma acyclic_insert_closed:
  assumes acyc: "acyclic (E \<inter> B \<times> UNIV)" and closed: "E `` B \<subseteq> B" and new: "E `` {n} \<subseteq> B"
    and fresh: "n \<notin> B"
  shows "acyclic (E \<inter> insert n B \<times> UNIV)"
proof (rule acyclicI, intro allI notI)
  fix x assume xx: "(x, x) \<in> (E \<inter> insert n B \<times> UNIV)\<^sup>+"
  have step: "b \<in> B" if "(a, b) \<in> E \<inter> insert n B \<times> UNIV" for a b
    using that closed new by auto
  have inside: "b \<in> B \<and> (a \<in> B \<longrightarrow> (a, b) \<in> (E \<inter> B \<times> UNIV)\<^sup>+)"
    if "(a, b) \<in> (E \<inter> insert n B \<times> UNIV)\<^sup>+" for a b
    using that
  proof (induction rule: trancl_induct)
    case (base y)
    then show ?case using step [of a y] by auto
  next
    case (step y z)
    then show ?case using closed new by (auto intro: trancl_into_trancl)
  qed
  from inside [OF xx] have "(x, x) \<in> (E \<inter> B \<times> UNIV)\<^sup>+" by blast
  with acyc show False by (auto simp: acyclic_def)
qed

section \<open>Finite graphs\<close>

locale finite_digraph =
  fixes succs :: "'a \<Rightarrow> 'a list" and V :: "'a set"
  assumes finite_V: "finite V"
    and succs_V: "y \<in> set (succs x) \<Longrightarrow> x \<in> V \<and> y \<in> V"
begin

lemma edges_V: "edges_of succs \<subseteq> V \<times> V"
  using succs_V by auto

lemma finite_edges: "finite (edges_of succs)"
  using edges_V finite_V by (meson finite_SigmaI finite_subset)

lemma acyclic_wf: "acyclic (edges_of succs) \<Longrightarrow> wf ((edges_of succs)\<inverse>)"
  by (rule finite_acyclic_wf_converse [OF finite_edges])

text \<open>In an acyclic graph every set that holds a node holds one that the set has no successor of,
  and it can be reached from that node.\<close>

lemma sink_reachable:
  assumes "acyclic (edges_of succs)" and "x \<in> A"
  obtains y where "y \<in> A" and "(x, y) \<in> (edges_of succs)\<^sup>*" and "\<And>z. z \<in> set (succs y) \<Longrightarrow> z \<notin> A"
proof -
  let ?B = "{y \<in> A. (x, y) \<in> (edges_of succs)\<^sup>*}"
  have "x \<in> ?B" using assms(2) by simp
  then obtain y where y: "y \<in> ?B" and min: "\<And>z. (z, y) \<in> (edges_of succs)\<inverse> \<Longrightarrow> z \<notin> ?B"
    by (rule wfE_min [OF acyclic_wf [OF assms(1)]]) blast
  have "z \<notin> A" if "z \<in> set (succs y)" for z
  proof -
    from that have "(y, z) \<in> edges_of succs" by simp
    with y have "(x, z) \<in> (edges_of succs)\<^sup>*" by (auto intro: rtrancl_into_rtrancl)
    with min [of z] that show ?thesis by auto
  qed
  with y that show ?thesis by auto
qed

end

end
