(* ===== verification/Dependencies.thy ===== *)
theory Dependencies
  imports Sequencer Graph
begin

text \<open>
  \<^verbatim>\<open>ValidateDependencies\<close> and \<^verbatim>\<open>WarnUnmatchedStringRefs\<close> of \<^verbatim>\<open>builtins/usage.go\<close>: the check for
  missing targets and the depth-first search with three colours that reports a cycle. The result
  of the search is characterised completely: it succeeds exactly on acyclic graphs, and the path
  it reports is a cycle of the graph.
\<close>

section \<open>Model\<close>

text \<open>
  Errors: the missing target (with the sorted available names) and the circular path. The path is
  \<^const>\<open>None\<close> if the loop that reconstructs it from the parent links did not end.
\<close>

datatype dep_error =
    MissingTarget string string "string list"
  | Circular "string list option"

fun missing_target :: "DependencyPair list \<Rightarrow> string list \<Rightarrow> dep_error option" where
  "missing_target [] resourceNames = None"
| "missing_target (d # ds) resourceNames =
     (if \<not> IsRef d then missing_target ds resourceNames
      else if Dependency d \<notin> set resourceNames
        then Some (MissingTarget (Dependent d) (Dependency d) (sort resourceNames))
      else missing_target ds resourceNames)"

fun build_adj ::
  "DependencyPair list \<Rightarrow> (string \<times> string list) list \<Rightarrow> (string \<times> string list) list" where
  "build_adj [] adj = adj"
| "build_adj (d # ds) adj =
     build_adj ds
       (AList.update (Dependent d)
          ((case map_of adj (Dependent d) of None \<Rightarrow> [] | Some ns \<Rightarrow> ns) @ [Dependency d]) adj)"

definition nbrs :: "(string \<times> string list) list \<Rightarrow> string \<Rightarrow> string list" where
  "nbrs adj n = (case map_of adj n of None \<Rightarrow> [] | Some ns \<Rightarrow> ns)"

definition sorted_nodes :: "DependencyPair list \<Rightarrow> string list" where
  "sorted_nodes deps = sort (remdups (concat (map (\<lambda>d. [Dependent d, Dependency d]) deps)))"

datatype color = White | Gray | Black

record dfs_state =
  color :: "string \<Rightarrow> color"
  parent :: "string \<Rightarrow> string"

text \<open>The loop \<^verbatim>\<open>for cur != neighbor { cur = parent[cur]; cycle = append(cycle, cur) }\<close>.\<close>

partial_function (option) walk_back ::
  "(string \<Rightarrow> string) \<Rightarrow> string \<Rightarrow> string \<Rightarrow> string list \<Rightarrow> string list option" where
  "walk_back par neighbor cur cycle =
     (if cur = neighbor then Some cycle
      else walk_back par neighbor (par cur) (cycle @ [par cur]))"

declare walk_back.simps [code]

definition cycle_error :: "dfs_state \<Rightarrow> string \<Rightarrow> string \<Rightarrow> dep_error" where
  "cycle_error st node neighbor =
     Circular (map_option rev (walk_back (parent st) neighbor node [neighbor, node]))"

text \<open>
  The closure \<^verbatim>\<open>dfs\<close> after it has coloured its node gray: the loop over the neighbours that are left,
  with the recursive call inlined at a white neighbour.
\<close>

function visit ::
  "(string \<times> string list) list \<Rightarrow> string \<Rightarrow> string list \<Rightarrow> dfs_state \<Rightarrow> dep_error + dfs_state"
where
  "visit adj node [] st = Inr (st\<lparr>color := (color st)(node := Black)\<rparr>)"
| "visit adj node (neighbor # rest) st =
     (if color st neighbor = Gray then Inl (cycle_error st node neighbor)
      else if color st neighbor = White then
        (case visit adj neighbor (nbrs adj neighbor)
                (st\<lparr>parent := (parent st)(neighbor := node),
                   color := (color st)(neighbor := Gray)\<rparr>) of
           Inl e \<Rightarrow> Inl e
         | Inr st' \<Rightarrow> visit adj node rest st')
      else visit adj node rest st)"
  by pat_completeness auto

text \<open>A search never makes a node white again; with it the nested recursion ends, because every
  inner call has fewer white keys of \<open>adj\<close> or, at a leaf, no neighbours at all.\<close>

lemma visit_white_mono:
  "visit_dom (adj, node, nbs, st) \<Longrightarrow> visit adj node nbs st = Inr st' \<Longrightarrow>
     color st' n = White \<Longrightarrow> color st n = White"
proof (induction arbitrary: st' rule: visit.pinduct)
  case (1 adj node st)
  then show ?case by (auto simp: visit.psimps split: if_splits)
next
  case (2 adj node neighbor rest st)
  show ?case
  proof (cases "color st neighbor = White")
    case True
    with "2.prems" "2.hyps" obtain st1
      where st1: "visit adj neighbor (nbrs adj neighbor)
          (st\<lparr>parent := (parent st)(neighbor := node), color := (color st)(neighbor := Gray)\<rparr>) = Inr st1"
        and rest: "visit adj node rest st1 = Inr st'"
      by (auto simp: visit.psimps split: sum.splits)
    have "color st1 n = White" by (rule "2.IH"(2)) (use True st1 rest "2.prems" in auto)
    then show ?thesis using "2.IH"(1) [OF _ True st1] True by (auto split: if_splits)
  next
    case False
    with "2.prems" "2.hyps" "2.IH"(3) show ?thesis
      by (auto simp: visit.psimps split: if_splits)
  qed
qed

definition white_keys :: "(string \<times> string list) list \<Rightarrow> dfs_state \<Rightarrow> string set" where
  "white_keys adj st = {k \<in> fst ` set adj. color st k = White}"

lemma finite_white_keys [simp]: "finite (white_keys adj st)"
  by (simp add: white_keys_def)

lemma white_keys_gray:
  "color st n = White \<Longrightarrow>
   white_keys adj (st\<lparr>parent := p, color := (color st)(n := Gray)\<rparr>) = white_keys adj st - {n}"
  by (auto simp: white_keys_def)

lemma nbrs_Nil: "n \<notin> fst ` set adj \<Longrightarrow> nbrs adj n = []"
  by (simp add: nbrs_def map_of_eq_None_iff [THEN iffD2])

termination visit
proof (relation "measures [\<lambda>(adj, node, nbs, st). card (white_keys adj st),
    \<lambda>(adj, node, nbs, st). length nbs]", goal_cases)
  case (2 adj node neighbor rest st)
  show ?case
  proof (cases "neighbor \<in> white_keys adj st")
    case True
    then have "card (white_keys adj st - {neighbor}) < card (white_keys adj st)"
      by (intro card_Diff1_less) auto
    with 2 show ?thesis by (simp add: white_keys_gray)
  next
    case False
    with 2 have "nbrs adj neighbor = []" by (intro nbrs_Nil) (auto simp: white_keys_def)
    with 2 False show ?thesis by (simp add: white_keys_gray)
  qed
next
  case (3 adj node neighbor rest st st')
  have "white_keys adj st' \<subseteq> white_keys adj st"
    using visit_white_mono [OF 3(4) 3(3)]
    by (fastforce simp: white_keys_def split: if_split_asm)
  then have "card (white_keys adj st') \<le> card (white_keys adj st)" by (intro card_mono) auto
  then show ?case by auto
qed auto

definition dfs ::
  "(string \<times> string list) list \<Rightarrow> string \<Rightarrow> dfs_state \<Rightarrow> dep_error + dfs_state" where
  "dfs adj node st = visit adj node (nbrs adj node) (st\<lparr>color := (color st)(node := Gray)\<rparr>)"

fun dfs_all ::
  "(string \<times> string list) list \<Rightarrow> string list \<Rightarrow> dfs_state \<Rightarrow> dep_error + unit" where
  "dfs_all adj [] st = Inr ()"
| "dfs_all adj (node # nodes) st =
     (if color st node = White
      then (case dfs adj node st of Inl e \<Rightarrow> Inl e | Inr st' \<Rightarrow> dfs_all adj nodes st')
      else dfs_all adj nodes st)"

definition ValidateDependencies :: "DependencyPair list \<Rightarrow> string list \<Rightarrow> dep_error + unit" where
  "ValidateDependencies deps resourceNames =
     (case missing_target deps resourceNames of
        Some e \<Rightarrow> Inl e
      | None \<Rightarrow>
          dfs_all (build_adj deps []) (sorted_nodes deps)
            \<lparr>color = (\<lambda>_. White), parent = (\<lambda>_. [])\<rparr>)"

definition WarnUnmatchedStringRefs :: "DependencyPair list \<Rightarrow> string list \<Rightarrow> string list" where
  "WarnUnmatchedStringRefs deps resourceNames =
     map (\<lambda>d. ''depends_on: '' @ go_quote (Dependency d) @ '' (string ref in Resource('' @
            go_quote (Dependent d) @ '')) does not match any resource created by this script; '' @
            ''available resources: ['' @ join '', '' (sort resourceNames) @ '']'')
       (filter (\<lambda>d. \<not> IsRef d \<and> Dependency d \<notin> set resourceNames) deps)"

section \<open>The dependency graph\<close>

definition dep_rel :: "DependencyPair list \<Rightarrow> (string \<times> string) set" where
  "dep_rel deps = (\<lambda>d. (Dependent d, Dependency d)) ` set deps"

lemma nbrs_empty [simp]: "nbrs [] n = []"
  by (simp add: nbrs_def)

lemma nbrs_build_adj:
  "nbrs (build_adj deps adj) n = nbrs adj n @ map Dependency (filter (\<lambda>d. Dependent d = n) deps)"
  by (induction deps arbitrary: adj) (auto simp: nbrs_def split: option.splits)

lemma edges_build_adj: "edges_of (nbrs (build_adj deps [])) = dep_rel deps"
  by (auto simp: nbrs_build_adj dep_rel_def)

definition dep_nodes :: "DependencyPair list \<Rightarrow> string set" where
  "dep_nodes deps = Dependent ` set deps \<union> Dependency ` set deps"

lemma set_sorted_nodes [simp]: "set (sorted_nodes deps) = dep_nodes deps"
  by (auto simp: sorted_nodes_def dep_nodes_def)

interpretation dg: finite_digraph "nbrs (build_adj deps [])" "dep_nodes deps" for deps
  by unfold_locales (auto simp: nbrs_build_adj dep_nodes_def)

section \<open>Correctness of the search\<close>

text \<open>
  The gray nodes are the nodes of the current path, from the node under the cursor back to the
  root; the parent links follow it backwards. The black nodes are closed under successors and
  carry no cycle.
\<close>

definition black :: "dfs_state \<Rightarrow> string set" where
  "black st = {n. color st n = Black}"

definition dfs_inv :: "(string \<times> string list) list \<Rightarrow> dfs_state \<Rightarrow> string list \<Rightarrow> bool" where
  "dfs_inv adj st path \<longleftrightarrow>
     distinct path \<and> set path = {n. color st n = Gray} \<and>
     successively (\<lambda>x y. parent st x = y \<and> (y, x) \<in> edges_of (nbrs adj)) path \<and>
     edges_of (nbrs adj) `` black st \<subseteq> black st \<and>
     acyclic (edges_of (nbrs adj) \<inter> black st \<times> UNIV)"

lemma dfs_inv_push:
  assumes inv: "dfs_inv adj st (node # path)" and white: "color st n = White"
    and edge: "n \<in> set (nbrs adj node)"
  shows "dfs_inv adj (st\<lparr>parent := (parent st)(n := node), color := (color st)(n := Gray)\<rparr>)
           (n # node # path)"
proof -
  let ?st = "st\<lparr>parent := (parent st)(n := node), color := (color st)(n := Gray)\<rparr>"
  have fresh: "n \<notin> set (node # path)" using inv white by (auto simp: dfs_inv_def)
  have "black ?st = black st" using white by (auto simp: black_def)
  moreover have "successively (\<lambda>x y. parent ?st x = y \<and> (y, x) \<in> edges_of (nbrs adj)) (node # path)"
    using inv fresh by (auto simp: dfs_inv_def elim!: successively_mono)
  ultimately show ?thesis
    using inv fresh edge by (auto simp: dfs_inv_def)
qed

lemma dfs_inv_root:
  assumes "dfs_inv adj st []" and "color st n = White"
  shows "dfs_inv adj (st\<lparr>color := (color st)(n := Gray)\<rparr>) [n]"
proof -
  have "black (st\<lparr>color := (color st)(n := Gray)\<rparr>) = black st" using assms(2) by (auto simp: black_def)
  with assms show ?thesis by (auto simp: dfs_inv_def)
qed

lemma dfs_inv_pop:
  assumes inv: "dfs_inv adj st (node # path)" and fin: "set (nbrs adj node) \<subseteq> black st"
  shows "dfs_inv adj (st\<lparr>color := (color st)(node := Black)\<rparr>) path"
proof -
  let ?st = "st\<lparr>color := (color st)(node := Black)\<rparr>"
  have node: "color st node = Gray" using inv by (auto simp: dfs_inv_def)
  have b: "black ?st = insert node (black st)" by (auto simp: black_def)
  have "acyclic (edges_of (nbrs adj) \<inter> black ?st \<times> UNIV)"
    unfolding b using inv fin node
    by (intro acyclic_insert_closed) (auto simp: dfs_inv_def black_def)
  moreover have "successively (\<lambda>x y. parent ?st x = y \<and> (y, x) \<in> edges_of (nbrs adj)) path"
    using inv by (auto simp: dfs_inv_def successively_Cons)
  moreover have "edges_of (nbrs adj) `` black ?st \<subseteq> black ?st"
    unfolding b using inv fin by (auto simp: dfs_inv_def)
  moreover have "set path = {n. color ?st n = Gray}" and "distinct path"
    using inv by (auto simp: dfs_inv_def)
  ultimately show ?thesis unfolding dfs_inv_def by blast
qed

text \<open>The parent links lead back along the path, so the reconstruction ends.\<close>

lemma walk_back_path:
  "successively (\<lambda>x y. par x = y) (ys @ [nb]) \<Longrightarrow> nb \<notin> set ys \<Longrightarrow>
     walk_back par nb (hd (ys @ [nb])) acc = Some (acc @ tl (ys @ [nb]))"
proof (induction ys arbitrary: acc)
  case Nil
  then show ?case by (simp add: walk_back.simps)
next
  case (Cons y ys)
  then have y: "y \<noteq> nb" and p: "par y = hd (ys @ [nb])"
    by (auto simp: successively_Cons)
  have "walk_back par nb y acc = walk_back par nb (hd (ys @ [nb])) (acc @ [hd (ys @ [nb])])"
    using y p by (simp add: walk_back.simps [of par nb y])
  also have "\<dots> = Some (acc @ [hd (ys @ [nb])] @ tl (ys @ [nb]))"
    using Cons.prems by (subst Cons.IH) (auto simp: successively_Cons)
  also have "[hd (ys @ [nb])] @ tl (ys @ [nb]) = ys @ [nb]" by simp
  finally show ?case by simp
qed

lemma cycle_error_is_cycle:
  assumes inv: "dfs_inv adj st (node # path)" and gray: "color st nb = Gray"
    and edge: "nb \<in> set (nbrs adj node)"
  shows "\<exists>c. cycle_error st node nb = Circular (Some c) \<and> is_cycle (edges_of (nbrs adj)) c"
proof -
  let ?E = "edges_of (nbrs adj)"
  have "nb \<in> set (node # path)" using inv gray by (auto simp: dfs_inv_def)
  then obtain ys zs where split: "node # path = ys @ nb # zs" and nin: "nb \<notin> set ys"
    by (metis split_list_first)
  have hd: "hd (ys @ [nb]) = node" using split by (cases ys) auto
  have suc: "successively (\<lambda>x y. parent st x = y \<and> (y, x) \<in> ?E) (ys @ [nb])"
    using inv unfolding dfs_inv_def split by (simp add: successively_append_iff)
  then have "successively (\<lambda>x y. parent st x = y) (ys @ [nb])"
    by (rule successively_mono) auto
  then have wb: "walk_back (parent st) nb node [nb, node] = Some ([nb, node] @ tl (ys @ [nb]))"
    using walk_back_path [of "parent st" ys nb "[nb, node]"] nin hd by simp
  have "[nb, node] @ tl (ys @ [nb]) = nb # ys @ [nb]" using hd by (cases ys) auto
  with wb have err: "cycle_error st node nb = Circular (Some (nb # rev ys @ [nb]))"
    by (simp add: cycle_error_def)
  have "successively (\<lambda>x y. (y, x) \<in> ?E) (ys @ [nb])"
    using suc by (rule successively_mono) auto
  then have "successively (\<lambda>x y. (x, y) \<in> ?E) (nb # rev ys)"
    using successively_rev [of "\<lambda>x y. (x, y) \<in> ?E" "ys @ [nb]"] by simp
  moreover have "last (nb # rev ys) = node" using hd by (cases ys) auto
  ultimately have "successively (\<lambda>x y. (x, y) \<in> ?E) ((nb # rev ys) @ [nb])"
    using edge by (subst successively_append_iff) auto
  then have "is_cycle ?E (nb # rev ys @ [nb])" by (simp add: is_cycle_def)
  with err show ?thesis by blast
qed

text \<open>What one call of the search returns.\<close>

definition dfs_post ::
  "(string \<times> string list) list \<Rightarrow> string \<Rightarrow> string list \<Rightarrow> dfs_state \<Rightarrow> dep_error + dfs_state \<Rightarrow> bool"
where
  "dfs_post adj node path st r \<longleftrightarrow>
     (case r of
        Inl e \<Rightarrow> (\<exists>c. e = Circular (Some c) \<and> is_cycle (edges_of (nbrs adj)) c)
      | Inr st' \<Rightarrow> dfs_inv adj st' path \<and> insert node (black st) \<subseteq> black st')"

lemma visit_correct:
  "dfs_inv adj st (node # path) \<Longrightarrow> set nbs \<subseteq> set (nbrs adj node) \<Longrightarrow>
     set (nbrs adj node) - set nbs \<subseteq> black st \<Longrightarrow>
     dfs_post adj node path st (visit adj node nbs st)"
proof (induction adj node nbs st arbitrary: path rule: visit.induct)
  case (1 adj node st)
  then show ?case
    by (auto simp: dfs_post_def black_def intro!: dfs_inv_pop)
next
  case (2 adj node nb rest st)
  let ?st = "st\<lparr>parent := (parent st)(nb := node), color := (color st)(nb := Gray)\<rparr>"
  have edge: "nb \<in> set (nbrs adj node)" using "2.prems" by simp
  show ?case
  proof (cases "color st nb")
    case Gray
    then show ?thesis
      using cycle_error_is_cycle [OF "2.prems"(1) _ edge] by (simp add: dfs_post_def)
  next
    case White
    have inner: "dfs_post adj nb (node # path) ?st (visit adj nb (nbrs adj nb) ?st)"
      using White dfs_inv_push [OF "2.prems"(1) White edge] by (intro "2.IH"(1)) auto
    show ?thesis
    proof (cases "visit adj nb (nbrs adj nb) ?st")
      case (Inl e)
      with inner White show ?thesis by (simp add: dfs_post_def)
    next
      case (Inr st')
      have inv': "dfs_inv adj st' (node # path)" and b: "insert nb (black st) \<subseteq> black st'"
        using inner Inr White by (auto simp: dfs_post_def black_def)
      have "dfs_post adj node path st' (visit adj node rest st')"
        using White Inr inv' b "2.prems" by (intro "2.IH"(2)) auto
      moreover have "dfs_post adj node path st r" if "dfs_post adj node path st' r" for r
        using that b by (auto simp: dfs_post_def split: sum.splits)
      ultimately show ?thesis using White Inr by simp
    qed
  next
    case Black
    then have "dfs_post adj node path st (visit adj node rest st)"
      using "2.prems" by (intro "2.IH"(3)) (auto simp: black_def)
    with Black show ?thesis by simp
  qed
qed

lemma dfs_correct:
  "dfs_inv adj st [] \<Longrightarrow> color st node = White \<Longrightarrow> dfs_post adj node [] st (dfs adj node st)"
  unfolding dfs_def
  using visit_correct [OF dfs_inv_root [of adj st node], of "nbrs adj node"]
  by (auto simp: dfs_post_def black_def split: sum.splits)

lemma dfs_all_correct:
  "dfs_inv adj st [] \<Longrightarrow>
     (case dfs_all adj nodes st of
        Inl e \<Rightarrow> (\<exists>c. e = Circular (Some c) \<and> is_cycle (edges_of (nbrs adj)) c)
      | Inr _ \<Rightarrow> \<exists>st'. dfs_inv adj st' [] \<and> black st \<union> set nodes \<subseteq> black st')"
proof (induction nodes arbitrary: st)
  case Nil
  then show ?case by auto
next
  case (Cons n nodes)
  show ?case
  proof (cases "color st n")
    case White
    have post: "dfs_post adj n [] st (dfs adj n st)" by (rule dfs_correct [OF Cons.prems White])
    show ?thesis
    proof (cases "dfs adj n st")
      case (Inr st')
      with post have "dfs_inv adj st' []" and b: "insert n (black st) \<subseteq> black st'"
        by (auto simp: dfs_post_def)
      from Cons.IH [OF this(1)] b White Inr show ?thesis
        by (auto split: sum.splits)
    qed (use post White in \<open>auto simp: dfs_post_def\<close>)
  next
    case Gray
    with Cons.prems show ?thesis by (auto simp: dfs_inv_def)
  next
    case Black
    with Cons.IH [OF Cons.prems] show ?thesis
      by (auto simp: black_def split: sum.splits)
  qed
qed

lemma dfs_inv_init: "dfs_inv adj \<lparr>color = (\<lambda>_. White), parent = (\<lambda>_. [])\<rparr> []"
  by (simp add: dfs_inv_def black_def acyclic_def)

lemma acyclic_restrict_sources:
  "acyclic (E \<inter> B \<times> UNIV) \<Longrightarrow> fst ` E \<subseteq> B \<Longrightarrow> acyclic E"
  by (metis (no_types, lifting) Int_absorb2 fst_conv image_eqI mem_Sigma_iff subrelI subset_iff UNIV_I)

section \<open>Correctness of the validation\<close>

lemma missing_target_None_iff:
  "missing_target deps names = None \<longleftrightarrow> (\<forall>d \<in> set deps. IsRef d \<longrightarrow> Dependency d \<in> set names)"
  by (induction deps names rule: missing_target.induct) auto

lemma missing_target_Some:
  "missing_target deps names = Some e \<Longrightarrow>
     \<exists>ds d es. deps = ds @ d # es \<and> IsRef d \<and> Dependency d \<notin> set names \<and>
       missing_target ds names = None \<and> e = MissingTarget (Dependent d) (Dependency d) (sort names)"
proof (induction deps names rule: missing_target.induct)
  case (2 d ds names)
  show ?case
  proof (cases "IsRef d \<and> Dependency d \<notin> set names")
    case True
    with "2.prems" have "d # ds = [] @ d # ds" "missing_target [] names = None"
      "e = MissingTarget (Dependent d) (Dependency d) (sort names)" by auto
    with True show ?thesis by blast
  next
    case False
    with "2.prems" have "missing_target ds names = Some e" by (auto split: if_splits)
    with "2.IH" False obtain ds' d' es where
      "ds = ds' @ d' # es" "IsRef d'" "Dependency d' \<notin> set names" "missing_target ds' names = None"
      "e = MissingTarget (Dependent d') (Dependency d') (sort names)" by blast
    with False have "d # ds = (d # ds') @ d' # es" "missing_target (d # ds') names = None" by auto
    with \<open>IsRef d'\<close> \<open>Dependency d' \<notin> set names\<close>
      \<open>e = MissingTarget (Dependent d') (Dependency d') (sort names)\<close> show ?thesis by blast
  qed
qed simp

lemma dfs_all_result:
  "case dfs_all (build_adj deps []) (sorted_nodes deps) \<lparr>color = (\<lambda>_. White), parent = (\<lambda>_. [])\<rparr> of
     Inl e \<Rightarrow> (\<exists>c. e = Circular (Some c) \<and> is_cycle (dep_rel deps) c)
   | Inr _ \<Rightarrow> acyclic (dep_rel deps)"
proof -
  let ?r = "dfs_all (build_adj deps []) (sorted_nodes deps) \<lparr>color = (\<lambda>_. White), parent = (\<lambda>_. [])\<rparr>"
  note res = dfs_all_correct [OF dfs_inv_init, of "build_adj deps []" "sorted_nodes deps"]
  show ?thesis
  proof (cases ?r)
    case (Inl e)
    with res show ?thesis by (simp add: edges_build_adj)
  next
    case (Inr u)
    with res obtain st' where inv: "dfs_inv (build_adj deps []) st' []"
      and b: "dep_nodes deps \<subseteq> black st'" by auto
    have "fst ` dep_rel deps \<subseteq> black st'" using b by (auto simp: dep_rel_def dep_nodes_def)
    with inv have "acyclic (dep_rel deps)"
      by (intro acyclic_restrict_sources [of "dep_rel deps" "black st'"])
        (auto simp: dfs_inv_def edges_build_adj)
    with Inr show ?thesis by simp
  qed
qed

lemma ValidateDependencies_cases:
  "case ValidateDependencies deps names of
     Inl (MissingTarget x y avail) \<Rightarrow>
       missing_target deps names = Some (MissingTarget x y avail)
   | Inl (Circular p) \<Rightarrow> missing_target deps names = None \<and> (\<exists>c. p = Some c \<and> is_cycle (dep_rel deps) c)
   | Inr _ \<Rightarrow> missing_target deps names = None \<and> acyclic (dep_rel deps)"
proof (cases "missing_target deps names")
  case None
  then show ?thesis
    using dfs_all_result [of deps] by (auto simp: ValidateDependencies_def split: sum.splits)
next
  case (Some e)
  then obtain x y where "e = MissingTarget x y (sort names)" by (auto dest: missing_target_Some)
  with Some show ?thesis by (simp add: ValidateDependencies_def)
qed

lemma ValidateDependencies_ok_iff:
  "ValidateDependencies deps names = Inr () \<longleftrightarrow>
     (\<forall>d \<in> set deps. IsRef d \<longrightarrow> Dependency d \<in> set names) \<and> acyclic (dep_rel deps)"
proof -
  note c = ValidateDependencies_cases [of deps names]
  show ?thesis
  proof (cases "ValidateDependencies deps names")
    case (Inl e)
    with c have "missing_target deps names \<noteq> None \<or> \<not> acyclic (dep_rel deps)"
      by (auto split: dep_error.splits dest: is_cycle_not_acyclic)
    with Inl show ?thesis by (auto simp: missing_target_None_iff)
  next
    case (Inr u)
    with c show ?thesis by (auto simp: missing_target_None_iff)
  qed
qed

end
