(* ===== verification/Sha256.thy ===== *)
theory Sha256
  imports Prelude "HOL-Library.Word"
begin

text \<open>
  SHA-256 (\<^verbatim>\<open>crypto/sha256.Sum256\<close>) on byte strings, with 32-bit words, and its lower-case
  hexadecimal form (\<^verbatim>\<open>fmt.Sprintf("%x", h)\<close>, \<^verbatim>\<open>hex.EncodeToString\<close>). Usage names and the label values
  of \<^verbatim>\<open>builtins/usage.go\<close> are built from prefixes of the digest.
\<close>

unbundle bit_operations_syntax

type_synonym u32 = "32 word"

definition sha_K :: "u32 list" where
  "sha_K =
     [1116352408, 1899447441, 3049323471, 3921009573, 961987163, 1508970993,
      2453635748, 2870763221, 3624381080, 310598401, 607225278, 1426881987,
      1925078388, 2162078206, 2614888103, 3248222580, 3835390401, 4022224774,
      264347078, 604807628, 770255983, 1249150122, 1555081692, 1996064986,
      2554220882, 2821834349, 2952996808, 3210313671, 3336571891, 3584528711,
      113926993, 338241895, 666307205, 773529912, 1294757372, 1396182291,
      1695183700, 1986661051, 2177026350, 2456956037, 2730485921, 2820302411,
      3259730800, 3345764771, 3516065817, 3600352804, 4094571909, 275423344,
      430227734, 506948616, 659060556, 883997877, 958139571, 1322822218,
      1537002063, 1747873779, 1955562222, 2024104815, 2227730452, 2361852424,
      2428436474, 2756734187, 3204031479, 3329325298]"

definition sha_H0 :: "u32 list" where
  "sha_H0 =
     [1779033703, 3144134277, 1013904242, 2773480762,
      1359893119, 2600822924, 528734635, 1541459225]"

definition ror :: "nat \<Rightarrow> u32 \<Rightarrow> u32" where
  "ror n x = drop_bit n x OR push_bit (32 - n) x"

text \<open>Padding: the byte 0x80, zeros, and the length in bits as eight big-endian bytes.\<close>

fun be_bytes :: "nat \<Rightarrow> nat \<Rightarrow> nat list" where
  "be_bytes 0 n = []"
| "be_bytes (Suc k) n = be_bytes k (n div 256) @ [n mod 256]"

definition sha_pad :: "nat list \<Rightarrow> nat list" where
  "sha_pad bs = bs @ [128] @ replicate ((119 - length bs mod 64) mod 64) 0 @
     be_bytes 8 (8 * length bs mod 2 ^ 64)"

fun be_words :: "nat list \<Rightarrow> u32 list" where
  "be_words (a # b # c # d # bs) =
     word_of_nat (((a * 256 + b) * 256 + c) * 256 + d) # be_words bs"
| "be_words _ = []"

text \<open>The message schedule, newest word first, extended from 16 to 64 words.\<close>

fun sha_extend :: "nat \<Rightarrow> u32 list \<Rightarrow> u32 list" where
  "sha_extend 0 ws = ws"
| "sha_extend (Suc k) ws =
     (let w15 = ws ! 14; w2 = ws ! 1;
          s0 = ror 7 w15 XOR ror 18 w15 XOR drop_bit 3 w15;
          s1 = ror 17 w2 XOR ror 19 w2 XOR drop_bit 10 w2
      in sha_extend k ((ws ! 15 + s0 + ws ! 6 + s1) # ws))"

definition sha_schedule :: "u32 list \<Rightarrow> u32 list" where
  "sha_schedule block = rev (sha_extend 48 (rev block))"

type_synonym sha_state = "u32 \<times> u32 \<times> u32 \<times> u32 \<times> u32 \<times> u32 \<times> u32 \<times> u32"

fun sha_round :: "u32 \<times> u32 \<Rightarrow> sha_state \<Rightarrow> sha_state" where
  "sha_round (k, w) (a, b, c, d, e, f, g, h) =
     (let S1 = ror 6 e XOR ror 11 e XOR ror 25 e;
          ch = (e AND f) XOR (NOT e AND g);
          t1 = h + S1 + ch + k + w;
          S0 = ror 2 a XOR ror 13 a XOR ror 22 a;
          maj = (a AND b) XOR (a AND c) XOR (b AND c)
      in (t1 + S0 + maj, a, b, c, d + t1, e, f, g))"

fun sha_block :: "sha_state \<Rightarrow> u32 list \<Rightarrow> sha_state" where
  "sha_block (a, b, c, d, e, f, g, h) block =
     (case fold sha_round (zip sha_K (sha_schedule block)) (a, b, c, d, e, f, g, h) of
        (a', b', c', d', e', f', g', h') \<Rightarrow>
          (a + a', b + b', c + c', d + d', e + e', f + f', g + g', h + h'))"

function sha_blocks :: "sha_state \<Rightarrow> u32 list \<Rightarrow> sha_state" where
  "sha_blocks st ws =
     (if length ws < 16 then st else sha_blocks (sha_block st (take 16 ws)) (drop 16 ws))"
  by pat_completeness auto
termination
  by (relation "measure (length \<circ> snd)") auto

declare sha_blocks.simps [simp del]

definition sha_init :: sha_state where
  "sha_init = (sha_H0 ! 0, sha_H0 ! 1, sha_H0 ! 2, sha_H0 ! 3, sha_H0 ! 4, sha_H0 ! 5, sha_H0 ! 6, sha_H0 ! 7)"

fun sha_digest :: "sha_state \<Rightarrow> nat list" where
  "sha_digest (a, b, c, d, e, f, g, h) =
     concat (map (\<lambda>w. be_bytes 4 (unat w)) [a, b, c, d, e, f, g, h])"

definition sha256 :: "string \<Rightarrow> nat list" where
  "sha256 s = sha_digest (sha_blocks sha_init (be_words (sha_pad (map of_char s))))"

definition hex_encode :: "nat list \<Rightarrow> string" where
  "hex_encode bs = concat (map hex_byte bs)"

lemma length_be_bytes [simp]: "length (be_bytes k n) = k"
  by (induction k arbitrary: n) auto

lemma length_sha256 [simp]: "length (sha256 s) = 32"
proof -
  have "length (sha_digest st) = 32" for st
    by (cases st rule: sha_digest.cases) simp
  then show ?thesis by (simp add: sha256_def)
qed

lemma length_hex_byte [simp]: "length (hex_byte n) = 2"
  by (simp add: hex_byte_def)

lemma length_hex_encode [simp]: "length (hex_encode bs) = 2 * length bs"
  by (induction bs) (simp_all add: hex_encode_def)

end
