(* ===== verification/Usage.thy ===== *)
theory Usage
  imports Dependencies Sha256
begin

text \<open>
  Deletion protection, \<^verbatim>\<open>builtins/usage.go\<close>: the names and labels that tie a Usage to the composed
  resources, and \<^verbatim>\<open>BuildUsageResources\<close>, which emits one Usage or ClusterUsage for each
  dependency pair that is ready or was protected before. The validation of the pairs is in the
  theory \<open>Dependencies\<close>.
\<close>

section \<open>Collected resources\<close>

datatype Ready = ReadyUnspecified | ReadyTrue | ReadyFalse

record CollectedResource =
  cr_Name :: string
  cr_Body :: "pstruct option"
  cr_Ready :: Ready
  cr_ConnectionDetails :: "(string \<times> string) list"

section \<open>Names and labels\<close>

definition UsageAPIVersionV1 :: string where
  "UsageAPIVersionV1 = ''apiextensions.crossplane.io/v1beta1''"

definition UsageAPIVersionV2 :: string where
  "UsageAPIVersionV2 = ''protection.crossplane.io/v1beta1''"

definition ResolveUsageAPIVersion :: "string \<Rightarrow> string" where
  "ResolveUsageAPIVersion override =
     (if override = ''v1'' then UsageAPIVersionV1 else UsageAPIVersionV2)"

definition usageName :: "string \<Rightarrow> string \<Rightarrow> string" where
  "usageName dpt dpy =
     ''usage-'' @ hex_encode (take 4 (sha256 (dpt @ [CHR 0x00] @ dpy)))"

definition ResourceNameLabel :: string where
  "ResourceNameLabel = ''function-starlark.crossplane.io/resource-name''"

definition maxLabelValueBytes :: nat where
  "maxLabelValueBytes = 63"

definition ResourceNameLabelValue :: "string \<Rightarrow> string" where
  "ResourceNameLabelValue nm =
     (if length nm \<le> maxLabelValueBytes then nm
      else let suffixLen = 16;
               prefix = trim_right (take (maxLabelValueBytes - 1 - suffixLen) nm) ''-''
           in prefix @ ''-'' @ hex_encode (take 8 (sha256 nm)))"

section \<open>Type information and scope\<close>

record resourceTypeInfo =
  ti_APIVersion :: string
  ti_Kind :: string
  ti_Namespace :: string

definition zeroTypeInfo :: resourceTypeInfo where
  "zeroTypeInfo = \<lparr>ti_APIVersion = [], ti_Kind = [], ti_Namespace = []\<rparr>"

definition usageKind :: "string \<Rightarrow> bool \<Rightarrow> string" where
  "usageKind apiVersion namespaced =
     (if apiVersion = UsageAPIVersionV2 \<and> \<not> namespaced then ''ClusterUsage'' else ''Usage'')"

definition usageNamespace :: "string \<Rightarrow> string \<Rightarrow> string" where
  "usageNamespace dependentNS dependencyNS = (if dependentNS \<noteq> [] then dependentNS else dependencyNS)"

definition usageSelector ::
  "(string \<rightharpoonup> resourceTypeInfo) \<Rightarrow> string \<Rightarrow> string \<Rightarrow> pvalue" where
  "usageSelector typeInfos nm selectorNS =
     (let sel = [(''matchControllerRef'', PBool True),
                 (''matchLabels'', PStruct [(ResourceNameLabel, PStr (ResourceNameLabelValue nm))])];
          sel = (if selectorNS \<noteq> [] then AList.update ''namespace'' (PStr selectorNS) sel else sel);
          flds = [(''resourceSelector'', PStruct sel)];
          flds = (case typeInfos nm of
              None \<Rightarrow> flds
            | Some info \<Rightarrow>
                AList.update ''kind'' (PStr (ti_Kind info))
                  (AList.update ''apiVersion'' (PStr (ti_APIVersion info)) flds))
      in PStruct flds)"

definition buildUsageResource ::
  "string \<Rightarrow> string \<Rightarrow> string \<Rightarrow> string \<Rightarrow> string \<Rightarrow> string \<Rightarrow> (string \<rightharpoonup> resourceTypeInfo) \<Rightarrow> pstruct"
where
  "buildUsageResource dpt dpy apiVersion kind namespace ofNamespace typeInfos =
     (let flds =
        [(''apiVersion'', PStr apiVersion),
         (''kind'', PStr kind),
         (''spec'', PStruct
            [(''replayDeletion'', PBool True),
             (''of'', usageSelector typeInfos dpy ofNamespace),
             (''by'', usageSelector typeInfos dpt [])])]
      in if namespace \<noteq> []
         then AList.update ''metadata'' (PStruct [(''namespace'', PStr namespace)]) flds
         else flds)"

definition typeInfoFromBody :: "pstruct option \<Rightarrow> resourceTypeInfo" where
  "typeInfoFromBody body =
     (case body of None \<Rightarrow> zeroTypeInfo
      | Some b \<Rightarrow>
          \<lparr>ti_APIVersion = pstring (pfield b ''apiVersion''),
           ti_Kind = pstring (pfield b ''kind''),
           ti_Namespace = pstring (psub (pfield b ''metadata'') ''namespace'')\<rparr>)"

definition mergeTypeInfo :: "resourceTypeInfo \<Rightarrow> resourceTypeInfo \<Rightarrow> resourceTypeInfo" where
  "mergeTypeInfo primary fallback =
     primary\<lparr>ti_APIVersion :=
               (if ti_APIVersion primary = [] then ti_APIVersion fallback else ti_APIVersion primary),
             ti_Kind := (if ti_Kind primary = [] then ti_Kind fallback else ti_Kind primary)\<rparr>"

text \<open>Indexing a \<^verbatim>\<open>map[string]*structpb.Struct\<close>: nil for a missing key and for a nil body.\<close>

definition obs_at :: "observed \<Rightarrow> string \<Rightarrow> pstruct option" where
  "obs_at obs n = (case obs n of None \<Rightarrow> None | Some r \<Rightarrow> r)"

definition usagePairReady :: "DependencyPair \<Rightarrow> observed \<Rightarrow> bool" where
  "usagePairReady d observed =
     (let by_res = obs_at observed (Dependent d); of_res = obs_at observed (Dependency d)
      in if \<not> isObservedReady by_res \<or> \<not> isObservedReady of_res then False
         else if FieldPath d \<noteq> [] \<and> \<not> isFieldReady of_res (FieldPath d) then False
         else True)"

definition usageAlreadyCreated :: "string \<Rightarrow> observed \<Rightarrow> pstruct option" where
  "usageAlreadyCreated nm observed =
     (case obs_at observed nm of None \<Rightarrow> None
      | Some res \<Rightarrow>
          if pstring (pfield res ''kind'') \<in> {''Usage'', ''ClusterUsage''} then Some res else None)"

record retainedUsageScope =
  us_Kind :: string
  us_Namespace :: string
  us_OfSelectorNS :: string

definition retainedScope :: "pstruct option \<Rightarrow> retainedUsageScope option" where
  "retainedScope existing =
     (case existing of None \<Rightarrow> None
      | Some flds \<Rightarrow>
          (let kind = pstring (pfield flds ''kind'')
           in if kind = [] then None
              else Some
                \<lparr>us_Kind = kind,
                 us_Namespace = pstring (psub (pfield flds ''metadata'') ''namespace''),
                 us_OfSelectorNS = pstring (psub (psub (psub (pfield flds ''spec'') ''of'')
                   ''resourceSelector'') ''namespace'')\<rparr>))"

text \<open>The scope derived from the live objects, and the choice between it and the retained one.\<close>

definition liveScope :: "string \<Rightarrow> string \<Rightarrow> string \<Rightarrow> retainedUsageScope" where
  "liveScope apiVersion byNS ofNS =
     (let kind = usageKind apiVersion (byNS \<noteq> [] \<or> ofNS \<noteq> [])
      in if apiVersion = UsageAPIVersionV2 \<and> kind = ''Usage''
         then (let ns = usageNamespace byNS ofNS
               in \<lparr>us_Kind = kind, us_Namespace = ns,
                   us_OfSelectorNS = (if ofNS \<noteq> [] \<and> ofNS \<noteq> ns then ofNS else [])\<rparr>)
         else \<lparr>us_Kind = kind, us_Namespace = [], us_OfSelectorNS = []\<rparr>)"

text \<open>The loop body of \<^verbatim>\<open>BuildUsageResources\<close>: the Usage of one pair, if it is emitted.\<close>

definition usageOfPair ::
  "string \<Rightarrow> (string \<Rightarrow> resourceTypeInfo) \<Rightarrow> observed \<Rightarrow> DependencyPair \<Rightarrow> pstruct option" where
  "usageOfPair apiVersion desiredInfo observed d =
     (let nm = usageName (Dependent d) (Dependency d);
          existing = usageAlreadyCreated nm observed
      in if \<not> usagePairReady d observed \<and> existing = None then None
         else
           let byInfo = mergeTypeInfo (typeInfoFromBody (obs_at observed (Dependent d)))
                          (desiredInfo (Dependent d));
               ofInfo = mergeTypeInfo (typeInfoFromBody (obs_at observed (Dependency d)))
                          (desiredInfo (Dependency d));
               typeInfos = [Dependent d \<mapsto> byInfo, Dependency d \<mapsto> ofInfo];
               live = liveScope apiVersion (ti_Namespace byInfo) (ti_Namespace ofInfo);
               scope = (case retainedScope existing of
                   None \<Rightarrow> live
                 | Some sc \<Rightarrow>
                     if obs_at observed (Dependent d) \<noteq> None \<and> obs_at observed (Dependency d) \<noteq> None
                     then live else sc)
           in Some (buildUsageResource (Dependent d) (Dependency d) apiVersion
                (us_Kind scope) (us_Namespace scope) (us_OfSelectorNS scope) typeInfos))"

fun usageResources ::
  "string \<Rightarrow> (string \<Rightarrow> resourceTypeInfo) \<Rightarrow> observed \<Rightarrow> DependencyPair list \<Rightarrow>
     (string \<times> pstruct) list \<Rightarrow> (string \<times> pstruct) list"
where
  "usageResources apiVersion desiredInfo observed [] result = result"
| "usageResources apiVersion desiredInfo observed (d # ds) result =
     usageResources apiVersion desiredInfo observed ds
       (case usageOfPair apiVersion desiredInfo observed d of
          None \<Rightarrow> result
        | Some body \<Rightarrow> AList.update (usageName (Dependent d) (Dependency d)) body result)"

definition desiredInfoOf :: "(string \<times> CollectedResource) list \<Rightarrow> string \<Rightarrow> resourceTypeInfo" where
  "desiredInfoOf resources nm =
     (case map_of resources nm of None \<Rightarrow> zeroTypeInfo | Some cr \<Rightarrow> typeInfoFromBody (cr_Body cr))"

definition BuildUsageResources ::
  "DependencyPair list \<Rightarrow> string \<Rightarrow> (string \<times> CollectedResource) list \<Rightarrow> observed \<Rightarrow>
     (string \<times> pstruct) list"
where
  "BuildUsageResources deps apiVersion resources observed =
     usageResources apiVersion (desiredInfoOf resources) observed deps []"

section \<open>Label values\<close>

lemma ResourceNameLabelValue_short:
  "length nm \<le> 63 \<Longrightarrow> ResourceNameLabelValue nm = nm"
  by (simp add: ResourceNameLabelValue_def maxLabelValueBytes_def)

lemma ResourceNameLabelValue_length: "length (ResourceNameLabelValue nm) \<le> 63"
proof (cases "length nm \<le> 63")
  case False
  have "length (trim_right (take 46 nm) ''-'') \<le> 46"
    using trim_right_length [of "take 46 nm"] by (simp add: le_trans)
  with False show ?thesis
    by (simp add: ResourceNameLabelValue_def maxLabelValueBytes_def Let_def)
qed (simp add: ResourceNameLabelValue_short)

lemma usageName_length: "length (usageName a b) = 14"
  by (simp add: usageName_def)

section \<open>Which Usages are emitted\<close>

lemma obs_at_Some: "obs_at obs n = Some s \<longleftrightarrow> obs n = Some (Some s)"
  by (auto simp: obs_at_def split: option.splits)

lemma usagePairReady_iff:
  "usagePairReady d obs \<longleftrightarrow>
     isObservedReady (obs_at obs (Dependent d)) \<and> isObservedReady (obs_at obs (Dependency d)) \<and>
     (FieldPath d \<noteq> [] \<longrightarrow> isFieldReady (obs_at obs (Dependency d)) (FieldPath d))"
  by (auto simp: usagePairReady_def Let_def)

text \<open>A pair that may get a Usage has a met dependency and an observed dependent.\<close>

lemma usagePairReady_met: "usagePairReady d obs \<Longrightarrow> dep_met obs d"
proof -
  assume r: "usagePairReady d obs"
  then obtain s where s: "obs_at obs (Dependency d) = Some s"
    using rdy.ready_observed by (auto simp: usagePairReady_iff)
  with r show ?thesis by (auto simp: usagePairReady_iff dep_met_def obs_at_Some)
qed

lemma usageOfPair_None_iff:
  "usageOfPair apiVersion desiredInfo obs d = None \<longleftrightarrow>
     \<not> usagePairReady d obs \<and>
     usageAlreadyCreated (usageName (Dependent d) (Dependency d)) obs = None"
  by (auto simp: usageOfPair_def Let_def)

lemma usageResources_append:
  "usageResources v di obs (ds @ es) r = usageResources v di obs es (usageResources v di obs ds r)"
  by (induction ds arbitrary: r) auto

lemma usageResources_snoc:
  "usageResources v di obs (ds @ [d]) r =
     (case usageOfPair v di obs d of
        None \<Rightarrow> usageResources v di obs ds r
      | Some body \<Rightarrow> AList.update (usageName (Dependent d) (Dependency d)) body
          (usageResources v di obs ds r))"
  by (simp add: usageResources_append)

lemma keys_usageResources:
  "nm \<in> fst ` set (usageResources v di obs ds r) \<longleftrightarrow>
     nm \<in> fst ` set r \<or>
     (\<exists>d \<in> set ds. usageName (Dependent d) (Dependency d) = nm \<and> usageOfPair v di obs d \<noteq> None)"
  by (induction ds arbitrary: r) (auto split: option.splits)

lemma lookup_usageResources:
  "map_of (usageResources v di obs ds []) nm = Some body \<Longrightarrow>
     \<exists>d \<in> set ds. usageName (Dependent d) (Dependency d) = nm \<and> usageOfPair v di obs d = Some body"
  by (induction ds rule: rev_induct) (auto simp: usageResources_snoc split: option.splits if_splits)

lemma distinct_usageResources:
  "distinct (map fst r) \<Longrightarrow> distinct (map fst (usageResources v di obs ds r))"
  by (induction ds arbitrary: r) (auto split: option.splits simp: distinct_update)

section \<open>The scope of an emitted Usage\<close>

lemma liveScope_v2:
  "liveScope UsageAPIVersionV2 byNS ofNS =
     (if byNS = [] \<and> ofNS = []
      then \<lparr>us_Kind = ''ClusterUsage'', us_Namespace = [], us_OfSelectorNS = []\<rparr>
      else \<lparr>us_Kind = ''Usage'', us_Namespace = (if byNS \<noteq> [] then byNS else ofNS),
            us_OfSelectorNS = (if byNS \<noteq> [] \<and> ofNS \<noteq> [] \<and> ofNS \<noteq> byNS then ofNS else [])\<rparr>)"
  by (auto simp: liveScope_def usageKind_def usageNamespace_def Let_def)

lemma liveScope_v1:
  "liveScope UsageAPIVersionV1 byNS ofNS =
     \<lparr>us_Kind = ''Usage'', us_Namespace = [], us_OfSelectorNS = []\<rparr>"
  by (simp add: liveScope_def usageKind_def UsageAPIVersionV1_def UsageAPIVersionV2_def)

lemma buildUsageResource_fields:
  "pfield (buildUsageResource x y v k ns ons ti) ''apiVersion'' = PStr v"
  "pfield (buildUsageResource x y v k ns ons ti) ''kind'' = PStr k"
  "psub (pfield (buildUsageResource x y v k ns ons ti) ''spec'') ''of'' = usageSelector ti y ons"
  "psub (pfield (buildUsageResource x y v k ns ons ti) ''spec'') ''by'' = usageSelector ti x []"
  "pstring (psub (pfield (buildUsageResource x y v k ns ons ti) ''metadata'') ''namespace'') = ns"
  by (simp_all add: buildUsageResource_def Let_def)

lemma usageSelector_fields:
  "psub (psub (psub (usageSelector ti nm ns) ''resourceSelector'') ''matchLabels'') ResourceNameLabel =
     PStr (ResourceNameLabelValue nm)"
  "pstring (psub (psub (usageSelector ti nm ns) ''resourceSelector'') ''namespace'') = ns"
  "ti nm = Some info \<Longrightarrow> psub (usageSelector ti nm ns) ''kind'' = PStr (ti_Kind info)"
  "ti nm = Some info \<Longrightarrow> psub (usageSelector ti nm ns) ''apiVersion'' = PStr (ti_APIVersion info)"
  by (simp_all add: usageSelector_def Let_def split: option.splits)

section \<open>Properties\<close>

text \<open>
  A Usage is emitted exactly for the dependency pairs whose two resources are observed and ready (with
  the field of the pair set, if it has one), and for the pairs whose Usage exists already: a Usage that was
  created is never withdrawn because a resource became unready. Usage names do not collide with each other.
\<close>

theorem usages_emitted_exactly:
  "fst ` set (BuildUsageResources deps apiVersion resources obs) =
     {nm. \<exists>d. d \<in> set deps \<and> nm = usageName (Dependent d) (Dependency d) \<and>
        (isObservedReady (obs_at obs (Dependent d)) \<and> isObservedReady (obs_at obs (Dependency d)) \<and>
           (FieldPath d = [] \<or> isFieldReady (obs_at obs (Dependency d)) (FieldPath d))
         \<or> (\<exists>u. usageAlreadyCreated nm obs = Some u))}
   \<and> distinct (map fst (BuildUsageResources deps apiVersion resources obs))"
proof (intro conjI set_eqI)
  show "nm \<in> fst ` set (BuildUsageResources deps apiVersion resources obs) \<longleftrightarrow>
      nm \<in> {nm. \<exists>d. d \<in> set deps \<and> nm = usageName (Dependent d) (Dependency d) \<and>
        (isObservedReady (obs_at obs (Dependent d)) \<and> isObservedReady (obs_at obs (Dependency d)) \<and>
           (FieldPath d = [] \<or> isFieldReady (obs_at obs (Dependency d)) (FieldPath d))
         \<or> (\<exists>u. usageAlreadyCreated nm obs = Some u))}" for nm
    unfolding BuildUsageResources_def keys_usageResources usageOfPair_None_iff usagePairReady_iff by auto
  show "distinct (map fst (BuildUsageResources deps apiVersion resources obs))"
    by (simp add: BuildUsageResources_def distinct_usageResources)
qed

text \<open>
  The scope of a v2 Usage whose two resources are both observed: a ClusterUsage if both are cluster
  scoped; otherwise a Usage in the namespace of the dependent, or of the dependency if the dependent has
  none, whose \<^verbatim>\<open>of\<close> selector names the dependency's namespace only when it is a different one.
\<close>

theorem usage_v2_scope:
  assumes "map_of (BuildUsageResources deps UsageAPIVersionV2 resources obs) nm = Some body"
    and "\<And>d. d \<in> set deps \<Longrightarrow> obs_at obs (Dependent d) = Some (by_of d) \<and> obs_at obs (Dependency d) = Some (of_of d)"
  shows "\<exists>d. d \<in> set deps \<and> nm = usageName (Dependent d) (Dependency d) \<and>
     (let byNS = ti_Namespace (typeInfoFromBody (Some (by_of d)));
          ofNS = ti_Namespace (typeInfoFromBody (Some (of_of d)));
          ns = (if byNS \<noteq> [] then byNS else ofNS)
      in pfield body ''kind'' = PStr (if byNS = [] \<and> ofNS = [] then ''ClusterUsage'' else ''Usage'') \<and>
         pstring (psub (pfield body ''metadata'') ''namespace'') = ns \<and>
         pstring (psub (psub (psub (pfield body ''spec'') ''of'') ''resourceSelector'') ''namespace'') =
           (if ofNS \<noteq> ns then ofNS else []))"
proof -
  from lookup_usageResources assms(1)
  obtain d where d: "d \<in> set deps" "usageName (Dependent d) (Dependency d) = nm"
    and b: "usageOfPair UsageAPIVersionV2 (desiredInfoOf resources) obs d = Some body"
    unfolding BuildUsageResources_def by blast
  have ns: "ti_Namespace (mergeTypeInfo p q) = ti_Namespace p" for p q
    by (simp add: mergeTypeInfo_def)
  from b assms(2) [OF d(1)] show ?thesis
    by (intro exI [of _ d])
      (auto simp: d usageOfPair_def Let_def ns liveScope_v2 buildUsageResource_fields usageSelector_fields
        split: if_splits option.splits)
qed

text \<open>
  The value of the label that ties a resource to its Usage fits the 63 bytes of a Kubernetes label
  value, and it is the resource name itself whenever the name fits.
\<close>

theorem label_value_fits:
  "length (ResourceNameLabelValue nm) \<le> 63 \<and>
   (ResourceNameLabelValue nm = nm \<or> 63 < length nm)"
  using ResourceNameLabelValue_length ResourceNameLabelValue_short [of nm] by (cases "length nm \<le> 63") auto

end
