(* ===== verification/Collector.thy ===== *)
theory Collector
  imports Conditions Usage "HOL-Library.Word"
begin

text \<open>
  The resource collector, \<^verbatim>\<open>builtins/collector.go\<close> with \<^verbatim>\<open>manifest\<close> of \<^verbatim>\<open>builtins/refs.go\<close>: what a script's calls of
  \<^verbatim>\<open>Resource()\<close>, \<^verbatim>\<open>skip_resource()\<close> and \<^verbatim>\<open>set_composite_ready()\<close> accumulate. The condition collector that the
  Go collector points to is part of its state here. A builtin returns its result and the new state; on
  an error the state is the one at the point of the error.
\<close>

unbundle bit_operations_syntax

section \<open>Handles\<close>

text \<open>The FNV-1a hash of \<^verbatim>\<open>ResourceRef\<close>, \<^verbatim>\<open>SkippedRef\<close> and \<^verbatim>\<open>ExtraRef\<close> names.\<close>

definition ref_Hash :: "string \<Rightarrow> 32 word" where
  "ref_Hash nm = foldl (\<lambda>h c. (h XOR of_nat (of_char c)) * 16777619) 2166136261 nm"

definition ref_Attr :: "string \<Rightarrow> string \<Rightarrow> sval option" where
  "ref_Attr nm attr = (if attr = ''name'' then Some (SString nm) else None)"

text \<open>\<^verbatim>\<open>Truth()\<close>: a skipped reference is false, so that \<^verbatim>\<open>if ref:\<close> gates the caller.\<close>

fun ref_Truth :: "sval \<Rightarrow> bool" where
  "ref_Truth (SSkippedRef _) = False"
| "ref_Truth (SWhen c _ _ _) = c"
| "ref_Truth _ = True"

definition whenBuiltin :: "sval \<Rightarrow> string \<Rightarrow> sval \<Rightarrow> sval \<Rightarrow> serror + sval" where
  "whenBuiltin condVal reason keepVal optionalVal =
     (case condVal of
        SBool cond \<Rightarrow>
          (case keepVal of
             SBool keep \<Rightarrow>
               (case optionalVal of
                  SBool opt \<Rightarrow>
                    if reason = [] then Inl (EMsg ''when: reason must not be empty'')
                    else Inr (SWhen cond reason keep opt)
                | _ \<Rightarrow> Inl (EMsg (''when: optional must be bool, got '' @ stype optionalVal)))
           | _ \<Rightarrow> Inl (EMsg (''when: keep_if_exists must be bool, got '' @ stype keepVal)))
      | _ \<Rightarrow> Inl (EMsg (''when: condition must be bool, got '' @ stype condVal)))"

section \<open>State\<close>

record GatingSkip =
  gs_Name :: string
  gs_Reason :: string

record CompositeReadyOverride =
  ov_Set :: bool
  ov_Ready :: bool
  ov_Reason :: string
  ov_Message :: string

record Collector =
  c_resources :: "(string \<times> CollectedResource) list"
  c_skipped :: "string list"
  c_gatingSkips :: "GatingSkip list"
  c_gatingDefers :: "GatingDefer list"
  c_depsConverged :: bool
  c_compositeReady :: CompositeReadyOverride
  c_dependencies :: "DependencyPair list"
  c_cc :: ConditionCollector
  c_scriptName :: string
  c_compositeKind :: string
  c_oxr :: "pstruct option"
  c_observed :: "sval option"
  c_manifests :: "(string \<times> sval) list"

definition NewCollector ::
  "ConditionCollector \<Rightarrow> string \<Rightarrow> pstruct option \<Rightarrow> sval option \<Rightarrow> Collector" where
  "NewCollector cc scriptName oxr observed =
     \<lparr>c_resources = [], c_skipped = [], c_gatingSkips = [], c_gatingDefers = [], c_depsConverged = False,
      c_compositeReady = \<lparr>ov_Set = False, ov_Ready = False, ov_Reason = [], ov_Message = []\<rparr>,
      c_dependencies = [], c_cc = cc, c_scriptName = scriptName,
      c_compositeKind = pstring (pfield (pfields oxr) ''kind''),
      c_oxr = oxr, c_observed = observed, c_manifests = []\<rparr>"

definition add_event :: "string \<Rightarrow> string \<Rightarrow> Collector \<Rightarrow> Collector" where
  "add_event severity message c =
     c\<lparr>c_cc := AddEvent \<lparr>ev_Severity = severity, ev_Message = message, ev_Target = ''Composite''\<rparr> (c_cc c)\<rparr>"

section \<open>Observed bodies\<close>

definition stripObservedReadOnlyFields :: "pstruct \<Rightarrow> pstruct" where
  "stripObservedReadOnlyFields s =
     AList.delete ''status''
       (case map_of s ''metadata'' of
          Some (PStruct md) \<Rightarrow>
            AList.update ''metadata''
              (PStruct (AList.delete ''creationTimestamp'' (AList.delete ''generation''
                 (AList.delete ''uid'' (AList.delete ''resourceVersion''
                   (AList.delete ''managedFields'' md)))))) s
        | _ \<Rightarrow> s)"

definition lookupObservedBody :: "Collector \<Rightarrow> string \<Rightarrow> serror + pstruct option" where
  "lookupObservedBody c nm =
     (case c_observed c of
        None \<Rightarrow> Inr None
      | Some obs \<Rightarrow>
          (case sd_Get obs (SString nm) of
             Inl e \<Rightarrow> Inl (EIn (''observed lookup '' @ go_quote nm) e)
           | Inr None \<Rightarrow> Inr None
           | Inr (Some v) \<Rightarrow>
               if v = SNone then Inr None
               else (case v of
                   SStarlarkDict _ _ \<Rightarrow>
                     wrap_err (EIn (''observed '' @ go_quote nm))
                       (bind_res (StarlarkToStruct v) (\<lambda>s. Inr (Some (stripObservedReadOnlyFields s))))
                 | SLazyDict _ _ \<Rightarrow>
                     wrap_err (EIn (''observed '' @ go_quote nm))
                       (bind_res (StarlarkToStruct v) (\<lambda>s. Inr (Some (stripObservedReadOnlyFields s))))
                 | _ \<Rightarrow> Inl (EIn (''observed '' @ go_quote nm @ '': expected *convert.StarlarkDict'')
                          (EUnsupportedType (stype v))))))"

section \<open>Recording\<close>

definition put_resource :: "CollectedResource \<Rightarrow> Collector \<Rightarrow> Collector" where
  "put_resource cr c =
     c\<lparr>c_manifests := AList.delete (cr_Name cr) (c_manifests c),
       c_resources := AList.update (cr_Name cr) cr (c_resources c)\<rparr>"

definition recordPreserve :: "string \<Rightarrow> pstruct \<Rightarrow> string \<Rightarrow> Collector \<Rightarrow> Collector" where
  "recordPreserve nm body message c =
     add_event ''Warning'' (''Preserving resource '' @ go_quote nm @ '': '' @ message)
       (put_resource \<lparr>cr_Name = nm, cr_Body = Some body, cr_Ready = ReadyUnspecified,
                      cr_ConnectionDetails = []\<rparr> c)"

definition recordSkip :: "string \<Rightarrow> string \<Rightarrow> bool \<Rightarrow> Collector \<Rightarrow> Collector" where
  "recordSkip nm reason gate c =
     (if nm \<in> set (c_skipped c) then c
      else
        let c = c\<lparr>c_skipped := nm # c_skipped c\<rparr>;
            c = (if gate then c\<lparr>c_gatingSkips := c_gatingSkips c @ [\<lparr>gs_Name = nm, gs_Reason = reason\<rparr>]\<rparr> else c)
        in if gate
           then add_event ''Warning'' (''Skipping resource '' @ go_quote nm @ '': '' @ reason) c
           else add_event ''Normal'' (''Skipping optional resource '' @ go_quote nm @ '': '' @ reason) c)"

definition setCompositeReadyFn :: "bool \<Rightarrow> string \<Rightarrow> string \<Rightarrow> Collector \<Rightarrow> (serror + sval) \<times> Collector" where
  "setCompositeReadyFn ready reason message c =
     (Inr SNone, c\<lparr>c_compositeReady :=
        \<lparr>ov_Set = True, ov_Ready = ready, ov_Reason = reason, ov_Message = message\<rparr>\<rparr>)"

definition AddGatingDefers :: "GatingDefer list \<Rightarrow> Collector \<Rightarrow> Collector" where
  "AddGatingDefers items c = (if items = [] then c else c\<lparr>c_gatingDefers := c_gatingDefers c @ items\<rparr>)"

definition SetDepsConverged :: "Collector \<Rightarrow> Collector" where
  "SetDepsConverged c = c\<lparr>c_depsConverged := True\<rparr>"

definition hasCompositeReadyCondition :: "Collector \<Rightarrow> bool" where
  "hasCompositeReadyCondition c =
     list_ex (\<lambda>condition. pstring (psub condition ''type'') = CompositeReadyConditionType)
       (pvalues (plist_of (psub (pfield (pfields (c_oxr c)) ''status'') ''conditions'')))"

definition skipResourceFn :: "string \<Rightarrow> string \<Rightarrow> Collector \<Rightarrow> (serror + sval) \<times> Collector" where
  "skipResourceFn nm reason c =
     (if map_of (c_resources c) nm \<noteq> None
      then (Inl (EMsg (''resource '' @ go_quote nm @ '' already emitted, cannot skip'')), c)
      else (Inr SNone, recordSkip nm reason False c))"

definition RemoveResources :: "string list \<Rightarrow> Collector \<Rightarrow> Collector" where
  "RemoveResources names c =
     foldl (\<lambda>c nm. c\<lparr>c_resources := AList.delete nm (c_resources c),
                    c_manifests := AList.delete nm (c_manifests c)\<rparr>) c names"

definition addDependency :: "string \<Rightarrow> string \<Rightarrow> bool \<Rightarrow> string \<Rightarrow> Collector \<Rightarrow> Collector" where
  "addDependency dpt dpy isRef fieldPath c =
     c\<lparr>c_dependencies := c_dependencies c @
        [\<lparr>Dependent = dpt, Dependency = dpy, IsRef = isRef, FieldPath = fieldPath\<rparr>]\<rparr>"

text \<open>\<^verbatim>\<open>manifest\<close>: the frozen view of a collected body, cached by name.\<close>

definition manifest :: "string \<Rightarrow> Collector \<Rightarrow> sval option \<times> Collector" where
  "manifest nm c =
     (case map_of (c_manifests c) nm of
        Some d \<Rightarrow> (Some d, c)
      | None \<Rightarrow>
          (case map_of (c_resources c) nm of
             None \<Rightarrow> (None, c)
           | Some cr \<Rightarrow>
               (case cr_Body cr of
                  None \<Rightarrow> (None, c)
                | Some body \<Rightarrow>
                    let d = freeze (SLazyDict False (Some body))
                    in (Some d, c\<lparr>c_manifests := AList.update nm d (c_manifests c)\<rparr>))))"

definition getManifestImpl ::
  "string \<Rightarrow> sval \<Rightarrow> sval option \<Rightarrow> sval \<Rightarrow> Collector \<Rightarrow> (serror + sval) \<times> Collector" where
  "getManifestImpl fnName nameVal path dflt c =
     (case refName fnName nameVal of
        Inl e \<Rightarrow> (Inl e, c)
      | Inr nm \<Rightarrow>
          (case pathKeys fnName path of
             Inl e \<Rightarrow> (Inl e, c)
           | Inr keys \<Rightarrow>
               (case manifest nm c of
                  (None, c') \<Rightarrow> (Inr dflt, c')
                | (Some body, c') \<Rightarrow> (lookupKeys body keys dflt, c'))))"

section \<open>Labels and annotations\<close>

text \<open>\<^verbatim>\<open>getOrCreateNestedStruct\<close>: the child struct under the key, an empty one if there is none; \<open>put_nested\<close>
  is the parent with that child after it was changed.\<close>

definition getOrCreateNestedStruct :: "pstruct \<Rightarrow> string \<Rightarrow> pstruct" where
  "getOrCreateNestedStruct par key =
     (case map_of par key of Some (PStruct fs) \<Rightarrow> fs | _ \<Rightarrow> [])"

definition put_nested :: "pstruct \<Rightarrow> string \<Rightarrow> pstruct \<Rightarrow> pstruct" where
  "put_nested par key child = AList.update key (PStruct child) par"

definition externalNameAnnotation :: string where
  "externalNameAnnotation = ''crossplane.io/external-name''"

definition injectExternalName :: "pstruct \<Rightarrow> string \<Rightarrow> string \<Rightarrow> Collector \<Rightarrow> pstruct \<times> Collector" where
  "injectExternalName s externalName resourceName c =
     (let metadata = getOrCreateNestedStruct s ''metadata'';
          annotations = getOrCreateNestedStruct metadata ''annotations'';
          c = (case map_of annotations externalNameAnnotation of
              Some existing \<Rightarrow>
                add_event ''Warning'' (''Resource '' @ go_quote resourceName @ '': external_name kwarg '' @
                  go_quote externalName @ '' overrides annotation '' @ go_quote (pstring existing)) c
            | None \<Rightarrow> c);
          annotations = AList.update externalNameAnnotation (PStr externalName) annotations
      in (put_nested s ''metadata'' (put_nested metadata ''annotations'' annotations), c))"

fun label_loop :: "string \<Rightarrow> items \<Rightarrow> pstruct \<Rightarrow> serror + pstruct" where
  "label_loop resourceName [] bodyLabels = Inr bodyLabels"
| "label_loop resourceName ((k, v) # its) bodyLabels =
     (case as_string k of
        None \<Rightarrow> Inl (EMsg (''Resource('' @ go_quote resourceName @ ''): labels key must be string, got '' @ stype k))
      | Some ks \<Rightarrow>
          (case as_string v of
             None \<Rightarrow> Inl (EMsg (''Resource('' @ go_quote resourceName @ ''): labels value must be string, got '' @ stype v))
           | Some vs \<Rightarrow> label_loop resourceName its (AList.update ks (PStr vs) bodyLabels)))"

text \<open>The dict types that \<^verbatim>\<open>labels=\<close> accepts; a \<^verbatim>\<open>SchemaDict\<close> is not among them.\<close>

definition label_items :: "sval \<Rightarrow> items option" where
  "label_items v =
     (case v of
        SDict _ its \<Rightarrow> Some its
      | SStarlarkDict _ its \<Rightarrow> Some its
      | SLazyDict _ _ \<Rightarrow> Some (snd (sd_dict v))
      | SMutableStruct _ _ its \<Rightarrow> Some its
      | _ \<Rightarrow> None)"

definition injectLabels :: "pstruct \<Rightarrow> sval option \<Rightarrow> string \<Rightarrow> serror + pstruct" where
  "injectLabels s labelsVal resourceName =
     (case labelsVal of
        None \<Rightarrow> Inr s
      | Some lv \<Rightarrow>
          if lv = SNone then Inr s
          else (case label_items lv of
              None \<Rightarrow> Inl (EMsg (''Resource('' @ go_quote resourceName @
                        ''): labels must be dict or None, got '' @ stype lv))
            | Some its \<Rightarrow>
                if its = [] then Inr s
                else
                  let metadata = getOrCreateNestedStruct s ''metadata'';
                      bodyLabels = getOrCreateNestedStruct metadata ''labels''
                  in bind_res (label_loop resourceName its bodyLabels)
                       (\<lambda>ls. Inr (put_nested s ''metadata'' (put_nested metadata ''labels'' ls)))))"

definition injectNameLabel :: "pstruct \<Rightarrow> string \<Rightarrow> pstruct" where
  "injectNameLabel s nm =
     (let metadata = getOrCreateNestedStruct s ''metadata'';
          labels = getOrCreateNestedStruct metadata ''labels''
      in put_nested s ''metadata''
           (put_nested metadata ''labels''
              (AList.update ResourceNameLabel (PStr (ResourceNameLabelValue nm)) labels)))"

section \<open>Resource()\<close>

text \<open>The pre-scan of \<^verbatim>\<open>depends_on\<close> for a skipped reference, alone or first in a pair.\<close>

definition skipped_in :: "sval \<Rightarrow> string option" where
  "skipped_in item =
     (case item of
        SSkippedRef n \<Rightarrow> Some n
      | STuple [SSkippedRef n, _] \<Rightarrow> Some n
      | _ \<Rightarrow> None)"

fun first_skipped :: "sval list \<Rightarrow> string option" where
  "first_skipped [] = None"
| "first_skipped (item # rest) =
     (case skipped_in item of Some n \<Rightarrow> Some n | None \<Rightarrow> first_skipped rest)"

text \<open>One entry of \<^verbatim>\<open>depends_on\<close>: nothing to record, or the dependency, its kind and its field path.\<close>

definition dep_err :: "string \<Rightarrow> nat \<Rightarrow> string \<Rightarrow> serror" where
  "dep_err nm i msg = EMsg (''Resource('' @ go_quote nm @ ''): depends_on['' @ show_nat i @ ''] '' @ msg)"

definition parse_dependency :: "string \<Rightarrow> nat \<Rightarrow> sval \<Rightarrow> serror + (string \<times> bool \<times> string) option" where
  "parse_dependency nm i item =
     (case item of
        SNone \<Rightarrow> Inr None
      | SResourceRef n \<Rightarrow> Inr (Some (n, True, []))
      | SSkippedRef n \<Rightarrow> Inr None
      | SString s \<Rightarrow> Inr (Some (s, False, []))
      | STuple vs \<Rightarrow>
          (case vs of
             [fst_v, snd_v] \<Rightarrow>
               bind_res
                 (case fst_v of
                    SResourceRef n \<Rightarrow> Inr (Some (n, True))
                  | SSkippedRef n \<Rightarrow> Inr None
                  | SString s \<Rightarrow> Inr (Some (s, False))
                  | _ \<Rightarrow> Inl (dep_err nm i (''tuple first element must be ResourceRef, SkippedRef, or string, got '' @ stype fst_v)))
                 (\<lambda>r. case r of
                    None \<Rightarrow> Inr None
                  | Some (depName, isRef) \<Rightarrow>
                      (case as_string snd_v of
                         None \<Rightarrow> Inl (dep_err nm i (''tuple second element must be string, got '' @ stype snd_v))
                       | Some fieldPath \<Rightarrow>
                           if fieldPath = [] then Inl (dep_err nm i ''tuple field path must not be empty'')
                           else Inr (Some (depName, isRef, fieldPath))))
           | _ \<Rightarrow> Inl (dep_err nm i (''tuple must have exactly 2 elements, got '' @ show_nat (length vs))))
      | _ \<Rightarrow> Inl (dep_err nm i (''must be ResourceRef, SkippedRef, string, tuple, or None, got '' @ stype item)))"

fun depends_loop :: "string \<Rightarrow> nat \<Rightarrow> sval list \<Rightarrow> Collector \<Rightarrow> (serror + unit) \<times> Collector" where
  "depends_loop nm i [] c = (Inr (), c)"
| "depends_loop nm i (item # rest) c =
     (case parse_dependency nm i item of
        Inl e \<Rightarrow> (Inl e, c)
      | Inr None \<Rightarrow> depends_loop nm (Suc i) rest c
      | Inr (Some (dpy, isRef, fieldPath)) \<Rightarrow>
          depends_loop nm (Suc i) rest (addDependency nm dpy isRef fieldPath c))"

definition readyFromStarlark :: "sval \<Rightarrow> serror + Ready" where
  "readyFromStarlark v =
     (case v of
        SNone \<Rightarrow> Inr ReadyUnspecified
      | SBool True \<Rightarrow> Inr ReadyTrue
      | SBool False \<Rightarrow> Inr ReadyFalse
      | _ \<Rightarrow> Inl (EMsg (''ready must be True, False, or None, got '' @ stype v)))"

definition in_resource :: "string \<Rightarrow> serror \<Rightarrow> serror" where
  "in_resource nm = EIn (''Resource('' @ go_quote nm @ '')'')"

definition body_items :: "string \<Rightarrow> sval \<Rightarrow> serror + sval" where
  "body_items nm bodyVal =
     (case bodyVal of
        SSchemaDict _ f its \<Rightarrow> Inr (SDict f its)
      | SDict f its \<Rightarrow> Inr (SDict f its)
      | SMutableStruct _ f its \<Rightarrow> Inr (SDict f its)
      | _ \<Rightarrow> Inl (EMsg (''Resource('' @ go_quote nm @ ''): body must be dict, got '' @ stype bodyVal)))"

text \<open>The body as it will be emitted, before labels and annotations: compacted and converted.\<close>

definition body_struct :: "string \<Rightarrow> sval \<Rightarrow> serror + pstruct" where
  "body_struct nm bodyVal =
     bind_res (body_items nm bodyVal) (\<lambda>body.
     bind_res (wrap_err (in_resource nm \<circ> EIn ''compact'') (compactValue ''Resource'' body 0)) (\<lambda>r.
       wrap_err (in_resource nm)
         (case fst r of SDict _ its \<Rightarrow> PlainDictToStruct its | v \<Rightarrow> Inl (EUnsupportedType (stype v)))))"

fun connection_items :: "string \<Rightarrow> items \<Rightarrow> (string \<times> string) list \<Rightarrow> serror + (string \<times> string) list" where
  "connection_items nm [] cd = Inr cd"
| "connection_items nm ((k, v) # its) cd =
     (case as_string k of
        None \<Rightarrow> Inl (EMsg (''Resource('' @ go_quote nm @ ''): connection_details key must be string, got '' @ stype k))
      | Some ks \<Rightarrow>
          (case as_string v of
             None \<Rightarrow> Inl (EMsg (''Resource('' @ go_quote nm @ ''): connection_details value must be string, got '' @ stype v))
           | Some vs \<Rightarrow> connection_items nm its (AList.update ks vs cd)))"

text \<open>From the conversion of the body on.\<close>

definition emit_resource ::
  "string \<Rightarrow> sval \<Rightarrow> sval \<Rightarrow> sval option \<Rightarrow> items option \<Rightarrow> sval list option \<Rightarrow> sval option \<Rightarrow>
     Collector \<Rightarrow> (serror + sval) \<times> Collector"
where
  "emit_resource nm bodyVal readyVal labelsVal connDetails dependsOn externalNameVal c =
     (case body_struct nm bodyVal of
        Inl e \<Rightarrow> (Inl e, c)
      | Inr s \<Rightarrow>
        (case (case externalNameVal of
                 None \<Rightarrow> Inr (s, c)
               | Some ev \<Rightarrow>
                   (case as_string ev of
                      None \<Rightarrow> Inl (EMsg (''Resource('' @ go_quote nm @ ''): external_name must be string, got '' @ stype ev))
                    | Some en \<Rightarrow>
                        if en = [] then Inl (EMsg (''Resource('' @ go_quote nm @ ''): external_name must not be empty''))
                        else Inr (injectExternalName s en nm c))) of
           Inl e \<Rightarrow> (Inl e, c)
         | Inr (s, c) \<Rightarrow>
           (case injectLabels s labelsVal nm of
              Inl e \<Rightarrow> (Inl e, c)
            | Inr s \<Rightarrow>
              (let s = injectNameLabel s nm
               in case (case connDetails of None \<Rightarrow> Inr [] | Some its \<Rightarrow> connection_items nm its []) of
                    Inl e \<Rightarrow> (Inl e, c)
                  | Inr cd \<Rightarrow>
                    (case (case dependsOn of None \<Rightarrow> (Inr (), c) | Some ds \<Rightarrow> depends_loop nm 0 ds c) of
                       (Inl e, c) \<Rightarrow> (Inl e, c)
                     | (Inr _, c) \<Rightarrow>
                       (case readyFromStarlark readyVal of
                          Inl e \<Rightarrow> (Inl (in_resource nm e), c)
                        | Inr ready \<Rightarrow>
                            (Inr (SResourceRef nm),
                             put_resource \<lparr>cr_Name = nm, cr_Body = Some s, cr_Ready = ready,
                                           cr_ConnectionDetails = cd\<rparr> c)))))))"

definition body_none_reason :: string where
  "body_none_reason = ''body is None. If this resource exists, it will be removed from desired state. Use When() with keep_if_exists=True to re-emit the observed body.''"

definition resourceFn ::
  "string \<Rightarrow> sval \<Rightarrow> sval \<Rightarrow> sval option \<Rightarrow> items option \<Rightarrow> sval list option \<Rightarrow> sval option \<Rightarrow> sval option \<Rightarrow>
     Collector \<Rightarrow> (serror + sval) \<times> Collector"
where
  "resourceFn nm bodyVal readyVal labelsVal connDetails dependsOn externalNameVal whenVal c =
     (let continue =
        (if bodyVal = SNone then (Inr (SSkippedRef nm), recordSkip nm body_none_reason True c)
         else (case (case dependsOn of None \<Rightarrow> None | Some ds \<Rightarrow> first_skipped ds) of
             Some sr \<Rightarrow> (Inr (SSkippedRef nm), recordSkip nm (''depends on skipped '' @ go_quote sr) True c)
           | None \<Rightarrow> emit_resource nm bodyVal readyVal labelsVal connDetails dependsOn externalNameVal c))
      in case whenVal of
           None \<Rightarrow> continue
         | Some (SWhen cond reason keep opt) \<Rightarrow>
             if cond then continue
             else if \<not> keep then (Inr (SSkippedRef nm), recordSkip nm reason (\<not> opt) c)
             else (case lookupObservedBody c nm of
                 Inl e \<Rightarrow> (Inl (in_resource nm e), c)
               | Inr (Some s) \<Rightarrow>
                   (Inr (SResourceRef nm), recordPreserve nm s ''observed body emitted, gated by when=False'' c)
               | Inr None \<Rightarrow> (Inr (SSkippedRef nm), recordSkip nm reason (\<not> opt) c))
         | Some v \<Rightarrow>
             (Inl (EMsg (''Resource('' @ go_quote nm @
                ''): when must be a When() value, e.g. When(True, \"reason\", keep_if_exists=False), got '' @ stype v)), c))"

section \<open>Outcomes of Resource()\<close>

text \<open>A change of dependencies and events only, with new dependencies of \<open>nm\<close> and new warnings.\<close>

definition side_only :: "string \<Rightarrow> Collector \<Rightarrow> Collector \<Rightarrow> bool" where
  "side_only nm c c' \<longleftrightarrow>
     (\<exists>ds es. c' = c\<lparr>c_dependencies := c_dependencies c @ ds,
                     c_cc := (c_cc c)\<lparr>cc_events := cc_events (c_cc c) @ es\<rparr>\<rparr> \<and>
        (\<forall>d \<in> set ds. Dependent d = nm) \<and> (\<forall>e \<in> set es. ev_Severity e = ''Warning''))"

lemma side_only_refl [simp]: "side_only nm c c"
  unfolding side_only_def by (rule exI [of _ "[]"], rule exI [of _ "[]"]) simp

lemma side_only_trans: "side_only nm c c' \<Longrightarrow> side_only nm c' c'' \<Longrightarrow> side_only nm c c''"
  unfolding side_only_def
  by (elim exE conjE, rule_tac x = "ds @ dsa" in exI, rule_tac x = "es @ esa" in exI) auto

lemma side_only_event: "side_only nm c (add_event ''Warning'' m c)"
  unfolding side_only_def add_event_def AddEvent_def
  by (rule exI [of _ "[]"],
      rule exI [of _ "[\<lparr>ev_Severity = ''Warning'', ev_Message = m, ev_Target = ''Composite''\<rparr>]"]) simp

lemma side_only_dependency: "side_only nm c (addDependency nm y r f c)"
  unfolding side_only_def addDependency_def
  by (rule exI [of _ "[\<lparr>Dependent = nm, Dependency = y, IsRef = r, FieldPath = f\<rparr>]"], rule exI [of _ "[]"]) simp

lemma side_only_core:
  assumes "side_only nm c c'"
  shows "c_resources c' = c_resources c" "c_skipped c' = c_skipped c" "c_gatingSkips c' = c_gatingSkips c"
    "c_manifests c' = c_manifests c" "c_observed c' = c_observed c" "cc_wf (c_cc c) \<Longrightarrow> cc_wf (c_cc c')"
  using assms by (auto simp: side_only_def cc_wf_def)

lemma side_only_depends: "depends_loop nm i ds c = (r, c') \<Longrightarrow> side_only nm c c'"
proof (induction nm i ds c rule: depends_loop.induct)
  case (2 nm i item rest c)
  show ?case
  proof (cases "parse_dependency nm i item")
    case (Inl e)
    with "2.prems" show ?thesis by simp
  next
    case (Inr d)
    show ?thesis
    proof (cases d)
      case None
      with Inr 2 show ?thesis by simp
    next
      case (Some t)
      obtain y ir f where t: "t = (y, ir, f)" by (cases t)
      have "depends_loop nm (Suc i) rest (addDependency nm y ir f c) = (r, c')"
        using "2.prems" Inr Some t by simp
      from "2.IH"(2) [OF Inr Some t [symmetric] refl this] show ?thesis
        using side_only_trans [OF side_only_dependency] by blast
    qed
  qed
qed simp

lemma side_only_external: "injectExternalName s en nm c = (s', c') \<Longrightarrow> side_only nm c c'"
  by (auto simp: injectExternalName_def Let_def side_only_event split: option.splits)

text \<open>What \<open>emit_resource\<close> does: an error with side effects only, or the resource under its name, with its
  name label.\<close>

definition emitted :: "string \<Rightarrow> Collector \<Rightarrow> sval \<Rightarrow> Collector \<Rightarrow> bool" where
  "emitted nm c v c' \<longleftrightarrow>
     v = SResourceRef nm \<and>
     (\<exists>c1 s ready cd. side_only nm c c1 \<and>
        c' = put_resource \<lparr>cr_Name = nm, cr_Body = Some (injectNameLabel s nm), cr_Ready = ready,
               cr_ConnectionDetails = cd\<rparr> c1)"

lemma emittedI:
  "side_only nm c c1 \<Longrightarrow>
     emitted nm c (SResourceRef nm) (put_resource \<lparr>cr_Name = nm, cr_Body = Some (injectNameLabel s nm),
       cr_Ready = ready, cr_ConnectionDetails = cd\<rparr> c1)"
  by (auto simp: emitted_def)

lemma emit_resource_outcome:
  assumes "emit_resource nm b rd lv cn ds ev c = (r, c')"
  shows "case r of Inl e \<Rightarrow> side_only nm c c' | Inr v \<Rightarrow> emitted nm c v c'"
proof (cases "body_struct nm b")
  case (Inl e)
  with assms show ?thesis by (auto simp: emit_resource_def)
next
  case (Inr s0)
  note b = this
  define ext where "ext = (case ev of None \<Rightarrow> Inr (s0, c)
     | Some ev \<Rightarrow> (case as_string ev of
          None \<Rightarrow> Inl (EMsg (''Resource('' @ go_quote nm @ ''): external_name must be string, got '' @ stype ev))
        | Some en \<Rightarrow>
            if en = [] then Inl (EMsg (''Resource('' @ go_quote nm @ ''): external_name must not be empty''))
            else Inr (injectExternalName s0 en nm c)))"
  have ext_side: "side_only nm c c1" if "ext = Inr (s1, c1)" for s1 c1
    using that by (auto simp: ext_def side_only_external split: option.splits if_splits)
  show ?thesis
  proof (cases ext)
    case (Inl e)
    with assms b show ?thesis by (auto simp: emit_resource_def ext_def [symmetric])
  next
    case (Inr sc)
    obtain s1 c1 where sc: "sc = (s1, c1)" by force
    have side1: "side_only nm c c1" using ext_side Inr sc by simp
    show ?thesis
    proof (cases "injectLabels s1 lv nm")
      case (Inl e)
      with assms b sc \<open>ext = Inr sc\<close> side1 show ?thesis
        by (auto simp: emit_resource_def ext_def [symmetric])
    next
      case labels: (Inr s2)
      define dres where "dres = (case ds of None \<Rightarrow> (Inr (), c1) | Some ds \<Rightarrow> depends_loop nm 0 ds c1)"
      have "side_only nm c1 (snd dres)"
        by (auto simp: dres_def intro: side_only_depends [OF surjective_pairing] split: option.splits)
      with side1 have side2: "side_only nm c (snd dres)" by (rule side_only_trans)
      define conn where "conn = (case cn of None \<Rightarrow> Inr [] | Some its \<Rightarrow> connection_items nm its [])"
      have eq: "(case conn of Inl e \<Rightarrow> (Inl e, c1)
          | Inr cd \<Rightarrow> (case dres of (Inl e, c) \<Rightarrow> (Inl e, c)
             | (Inr _, c) \<Rightarrow> (case readyFromStarlark rd of Inl e \<Rightarrow> (Inl (in_resource nm e), c)
                 | Inr ready \<Rightarrow> (Inr (SResourceRef nm),
                     put_resource \<lparr>cr_Name = nm, cr_Body = Some (injectNameLabel s2 nm), cr_Ready = ready,
                       cr_ConnectionDetails = cd\<rparr> c)))) = (r, c')"
        using assms unfolding dres_def conn_def
        by (simp add: emit_resource_def b ext_def [symmetric] \<open>ext = Inr sc\<close> sc labels Let_def)
      obtain dr c2 where dep: "dres = (dr, c2)" by force
      show ?thesis
        using eq side1 side2
        by (cases conn; cases dr; cases "readyFromStarlark rd") (auto simp: dep intro: emittedI)
    qed
  qed
qed

text \<open>The four outcomes of a call of \<^verbatim>\<open>Resource()\<close>.\<close>

datatype outcome = Skip string bool | Preserve pstruct | Emit | Fail serror

definition outcome_of ::
  "string \<Rightarrow> Collector \<Rightarrow> serror + sval \<Rightarrow> Collector \<Rightarrow> outcome \<Rightarrow> bool" where
  "outcome_of nm c r c' out \<longleftrightarrow>
     (case out of
        Skip reason gate \<Rightarrow> r = Inr (SSkippedRef nm) \<and> c' = recordSkip nm reason gate c
      | Preserve s \<Rightarrow> r = Inr (SResourceRef nm) \<and> lookupObservedBody c nm = Inr (Some s) \<and>
          c' = recordPreserve nm s ''observed body emitted, gated by when=False'' c
      | Emit \<Rightarrow> (\<exists>v. r = Inr v \<and> emitted nm c v c')
      | Fail e \<Rightarrow> r = Inl e \<and> side_only nm c c')"

lemma outcome_of_simps [simp]:
  "outcome_of nm c r c' (Skip reason gate) \<longleftrightarrow> r = Inr (SSkippedRef nm) \<and> c' = recordSkip nm reason gate c"
  "outcome_of nm c r c' (Preserve s) \<longleftrightarrow> r = Inr (SResourceRef nm) \<and>
     lookupObservedBody c nm = Inr (Some s) \<and>
     c' = recordPreserve nm s ''observed body emitted, gated by when=False'' c"
  "outcome_of nm c r c' Emit \<longleftrightarrow> (\<exists>v. r = Inr v \<and> emitted nm c v c')"
  "outcome_of nm c r c' (Fail e) \<longleftrightarrow> r = Inl e \<and> side_only nm c c'"
  by (simp_all add: outcome_of_def)

text \<open>The path without a gating When: None bodies and skipped dependencies skip, everything else is
  emitted or fails.\<close>

lemma resourceFn_ungated:
  assumes "resourceFn nm b rd lv cn ds ev w c = (r, c')"
    and "w = None \<or> (\<exists>reason keep opt. w = Some (SWhen True reason keep opt))"
  shows "if b = SNone then outcome_of nm c r c' (Skip body_none_reason True)
         else (case (case ds of None \<Rightarrow> None | Some ds \<Rightarrow> first_skipped ds) of
             Some sr \<Rightarrow> outcome_of nm c r c' (Skip (''depends on skipped '' @ go_quote sr) True)
           | None \<Rightarrow> emit_resource nm b rd lv cn ds ev c = (r, c'))"
  using assms by (auto simp: resourceFn_def Let_def split: option.splits)

lemma resourceFn_gated:
  assumes "resourceFn nm b rd lv cn ds ev (Some (SWhen False reason keep opt)) c = (r, c')"
  shows "if keep then (case lookupObservedBody c nm of
             Inl e \<Rightarrow> outcome_of nm c r c' (Fail (in_resource nm e))
           | Inr None \<Rightarrow> outcome_of nm c r c' (Skip reason (\<not> opt))
           | Inr (Some s) \<Rightarrow> outcome_of nm c r c' (Preserve s))
         else outcome_of nm c r c' (Skip reason (\<not> opt))"
  using assms by (auto simp: resourceFn_def Let_def split: option.splits sum.splits)

lemma resourceFn_outcome:
  assumes "resourceFn nm b rd lv cn ds ev w c = (r, c')"
  shows "\<exists>out. outcome_of nm c r c' out"
proof (cases "w = None \<or> (\<exists>reason keep opt. w = Some (SWhen True reason keep opt))")
  case True
  have emit: "\<exists>out. outcome_of nm c r c' out" if "emit_resource nm b rd lv cn ds ev c = (r, c')"
  proof (cases r)
    case (Inl e)
    with emit_resource_outcome [OF that] have "outcome_of nm c r c' (Fail e)" by simp
    then show ?thesis ..
  next
    case (Inr v)
    with emit_resource_outcome [OF that] have "outcome_of nm c r c' Emit" by simp
    then show ?thesis ..
  qed
  note u = resourceFn_ungated [OF assms True]
  show ?thesis
  proof (cases "b = SNone")
    case True
    with u show ?thesis by (metis (full_types))
  next
    case False
    then show ?thesis
      using u emit by (cases "case ds of None \<Rightarrow> None | Some ds \<Rightarrow> first_skipped ds")
        (simp_all del: outcome_of_simps, blast)
  qed
next
  case False
  then obtain v where v: "w = Some v" by auto
  show ?thesis
  proof (cases "\<exists>reason keep opt. v = SWhen False reason keep opt")
    case True
    then obtain reason keep opt where "w = Some (SWhen False reason keep opt)" using v by auto
    from resourceFn_gated [OF assms [unfolded this]] show ?thesis
      by (auto split: if_splits sum.splits option.splits simp del: outcome_of_simps)
  next
    case False
    have "(\<exists>e. r = Inl e) \<and> c' = c"
      using assms False \<open>\<not> (w = None \<or> _)\<close> v unfolding resourceFn_def Let_def
      by (cases v) auto
    then show ?thesis using outcome_of_simps(4) side_only_refl by blast
  qed
qed

section \<open>Reachable collectors\<close>

text \<open>One call of a builtin by the script, whatever its arguments and whether it fails or not; and what
  the function does with the collector afterwards.\<close>

inductive script_step :: "Collector \<Rightarrow> Collector \<Rightarrow> bool" where
  resource: "resourceFn nm b rd lv cn ds ev w c = (r, c') \<Longrightarrow> script_step c c'"
| skip: "skipResourceFn nm reason c = (r, c') \<Longrightarrow> script_step c c'"
| composite_ready: "setCompositeReadyFn ready reason m c = (r, c') \<Longrightarrow> script_step c c'"
| manifest: "getManifestImpl fnName nv path dflt c = (r, c') \<Longrightarrow> script_step c c'"
| condition: "setConditionFn t st r m tg (c_cc c) = Inr cc' \<Longrightarrow> script_step c (c\<lparr>c_cc := cc'\<rparr>)"
| event: "emitEventFn sev m tg (c_cc c) = Inr cc' \<Longrightarrow> script_step c (c\<lparr>c_cc := cc'\<rparr>)"
| deprecated: "script_step c (c\<lparr>c_cc := warnDeprecatedOnce key m (c_cc c)\<rparr>)"

inductive post_step :: "Collector \<Rightarrow> Collector \<Rightarrow> bool" where
  remove: "post_step c (RemoveResources names c)"
| defers: "post_step c (AddGatingDefers items c)"
| converged: "post_step c (SetDepsConverged c)"

inductive_cases script_stepE: "script_step c c'"
inductive_cases post_stepE: "post_step c c'"

text \<open>
  The invariant: resources are filed under their own name and have a body; a cached manifest is the frozen
  view of the current body; gating skips are skips, each recorded once; scripts have not forged the
  gating condition and every event has a known severity.
\<close>

definition resources_ok :: "(string \<times> CollectedResource) list \<Rightarrow> bool" where
  "resources_ok rs \<longleftrightarrow>
     distinct (map fst rs) \<and> (\<forall>n cr. map_of rs n = Some cr \<longrightarrow> cr_Name cr = n \<and> cr_Body cr \<noteq> None)"

definition manifests_ok :: "(string \<times> sval) list \<Rightarrow> (string \<times> CollectedResource) list \<Rightarrow> bool" where
  "manifests_ok ms rs \<longleftrightarrow>
     (\<forall>n d. map_of ms n = Some d \<longrightarrow> (\<exists>cr. map_of rs n = Some cr \<and> d = SLazyDict True (cr_Body cr)))"

definition skips_ok :: "string list \<Rightarrow> GatingSkip list \<Rightarrow> bool" where
  "skips_ok sk gs \<longleftrightarrow>
     distinct sk \<and> distinct (map gs_Name gs) \<and> gs_Name ` set gs \<subseteq> set sk"

definition collector_inv :: "Collector \<Rightarrow> bool" where
  "collector_inv c \<longleftrightarrow>
     resources_ok (c_resources c) \<and> manifests_ok (c_manifests c) (c_resources c) \<and>
     skips_ok (c_skipped c) (c_gatingSkips c) \<and> cc_wf (c_cc c)"

lemma inv_new: "cc_wf cc \<Longrightarrow> collector_inv (NewCollector cc script oxr obs)"
  by (simp add: collector_inv_def NewCollector_def resources_ok_def manifests_ok_def skips_ok_def)

lemma inv_add_event:
  "collector_inv c \<Longrightarrow> sev \<in> {''Normal'', ''Warning''} \<Longrightarrow> collector_inv (add_event sev m c)"
  by (auto simp: collector_inv_def add_event_def cc_wf_ops(2))

lemma inv_side_only: "collector_inv c \<Longrightarrow> side_only nm c c' \<Longrightarrow> collector_inv c'"
  by (simp add: collector_inv_def side_only_core)

lemma resources_ok_update:
  "resources_ok rs \<Longrightarrow> cr_Body cr \<noteq> None \<Longrightarrow> resources_ok (AList.update (cr_Name cr) cr rs)"
  unfolding resources_ok_def
  by (intro conjI allI impI; (elim conjE)?) (auto simp only: distinct_keys_update map_of_update split: if_splits)

lemma manifests_ok_update:
  "manifests_ok ms rs \<Longrightarrow> manifests_ok (AList.delete n ms) (AList.update n cr rs)"
  by (auto simp: manifests_ok_def map_of_delete')

lemma skips_ok_add:
  "skips_ok sk gs \<Longrightarrow> n \<notin> set sk \<Longrightarrow>
     skips_ok (n # sk) gs \<and> skips_ok (n # sk) (gs @ [\<lparr>gs_Name = n, gs_Reason = r\<rparr>])"
  by (auto simp: skips_ok_def)

lemma inv_put: "collector_inv c \<Longrightarrow> cr_Body cr \<noteq> None \<Longrightarrow> collector_inv (put_resource cr c)"
  by (simp add: collector_inv_def put_resource_def resources_ok_update manifests_ok_update)

lemma inv_skip: "collector_inv c \<Longrightarrow> collector_inv (recordSkip nm reason gate c)"
  using skips_ok_add [of "c_skipped c" "c_gatingSkips c" nm reason]
  by (simp add: collector_inv_def recordSkip_def add_event_def Let_def cc_wf_ops(2))

lemma inv_manifest:
  assumes "collector_inv c" and "manifest nm c = (r, c')"
  shows "collector_inv c' \<and> r = (case map_of (c_resources c) nm of
     None \<Rightarrow> None | Some cr \<Rightarrow> Some (SLazyDict True (cr_Body cr)))"
proof -
  have body: "cr_Body cr \<noteq> None" if "map_of (c_resources c) nm = Some cr" for cr
    using assms(1) that by (simp add: collector_inv_def resources_ok_def)
  have ms: "manifests_ok (c_manifests c) (c_resources c)" using assms(1) by (simp add: collector_inv_def)
  show ?thesis
  proof (cases "map_of (c_manifests c) nm")
    case (Some d)
    then obtain cr where "map_of (c_resources c) nm = Some cr" "d = SLazyDict True (cr_Body cr)"
      using ms unfolding manifests_ok_def by blast
    with Some assms show ?thesis by (simp add: manifest_def)
  next
    case None
    have "manifests_ok (AList.update nm (SLazyDict True (cr_Body cr)) (c_manifests c)) (c_resources c)"
      if "map_of (c_resources c) nm = Some cr" for cr
      using ms that by (auto simp: manifests_ok_def)
    with None assms body show ?thesis
      by (auto simp: manifest_def collector_inv_def Let_def split: option.splits)
  qed
qed

lemma inv_getManifest:
  assumes "collector_inv c" and "getManifestImpl fnName nv path dflt c = (r, c')"
  shows "collector_inv c'"
proof (cases "refName fnName nv")
  case (Inr nm)
  show ?thesis
  proof (cases "pathKeys fnName path")
    case keys: (Inr keys)
    obtain d c1 where m: "manifest nm c = (d, c1)" by force
    from inv_manifest [OF assms(1) m] assms(2) show ?thesis
      by (auto simp: getManifestImpl_def Inr keys m split: option.splits)
  qed (use assms in \<open>simp add: getManifestImpl_def Inr\<close>)
qed (use assms in \<open>simp add: getManifestImpl_def\<close>)

lemma inv_resource:
  assumes "collector_inv c" and "resourceFn nm b rd lv cn ds ev w c = (r, c')"
  shows "collector_inv c'"
proof -
  obtain out where "outcome_of nm c r c' out" using resourceFn_outcome [OF assms(2)] by blast
  then show ?thesis
  proof (cases out)
    case (Skip reason gate)
    with \<open>outcome_of nm c r c' out\<close> assms(1) show ?thesis by (simp add: inv_skip)
  next
    case (Preserve s)
    with \<open>outcome_of nm c r c' out\<close> assms(1) show ?thesis
      by (simp add: recordPreserve_def inv_add_event inv_put)
  next
    case Emit
    with \<open>outcome_of nm c r c' out\<close> assms(1) show ?thesis
      by (auto simp: emitted_def intro: inv_put inv_side_only)
  next
    case (Fail e)
    with \<open>outcome_of nm c r c' out\<close> assms(1) show ?thesis by (auto intro: inv_side_only)
  qed
qed

lemma RemoveResources_simps:
  "c_resources (RemoveResources names c) = foldl (\<lambda>rs nm. AList.delete nm rs) (c_resources c) names"
  "c_manifests (RemoveResources names c) = foldl (\<lambda>ms nm. AList.delete nm ms) (c_manifests c) names"
  "c_skipped (RemoveResources names c) = c_skipped c"
  "c_gatingSkips (RemoveResources names c) = c_gatingSkips c"
  "c_cc (RemoveResources names c) = c_cc c"
  unfolding RemoveResources_def by (induction names arbitrary: c) simp_all

lemma map_of_delete_all:
  "map_of (foldl (\<lambda>rs nm. AList.delete nm rs) rs names) n = (if n \<in> set names then None else map_of rs n)"
  by (induction names arbitrary: rs) (auto simp: map_of_delete')

lemma map_of_RemoveResources:
  "map_of (c_resources (RemoveResources names c)) n =
     (if n \<in> set names then None else map_of (c_resources c) n)"
  by (simp add: RemoveResources_simps map_of_delete_all)

lemma distinct_delete_all:
  "distinct (map fst rs) \<Longrightarrow> distinct (map fst (foldl (\<lambda>rs nm. AList.delete nm rs) rs names))"
  by (induction names arbitrary: rs) auto

lemma resources_ok_delete_all:
  "resources_ok rs \<Longrightarrow> resources_ok (foldl (\<lambda>rs nm. AList.delete nm rs) rs names)"
  unfolding resources_ok_def by (metis distinct_delete_all map_of_delete_all option.distinct(1))

lemma manifests_ok_delete_all:
  "manifests_ok ms rs \<Longrightarrow> manifests_ok (foldl (\<lambda>rs nm. AList.delete nm rs) ms names)
     (foldl (\<lambda>rs nm. AList.delete nm rs) rs names)"
  unfolding manifests_ok_def map_of_delete_all by auto

lemma inv_remove: "collector_inv c \<Longrightarrow> collector_inv (RemoveResources names c)"
  by (simp add: collector_inv_def RemoveResources_simps resources_ok_delete_all manifests_ok_delete_all)

lemma inv_cc: "collector_inv c \<Longrightarrow> cc_wf cc \<Longrightarrow> collector_inv (c\<lparr>c_cc := cc\<rparr>)"
  by (simp add: collector_inv_def)

lemma inv_cc_wf: "collector_inv c \<Longrightarrow> cc_wf (c_cc c)"
  by (simp add: collector_inv_def)

lemma inv_script_step: "script_step c c' \<Longrightarrow> collector_inv c \<Longrightarrow> collector_inv c'"
proof (induction rule: script_step.induct)
  case (resource nm b rd lv cn ds ev w c r c')
  show ?case by (rule inv_resource [OF resource(2,1)])
next
  case (skip nm reason c r c')
  then show ?case by (auto simp: skipResourceFn_def inv_skip split: if_splits)
next
  case (composite_ready ready reason m c r c')
  then show ?case by (auto simp: setCompositeReadyFn_def collector_inv_def)
next
  case (manifest fnName nv path dflt c r c')
  show ?case by (rule inv_getManifest [OF manifest(2,1)])
next
  case (condition t st r m tg c cc')
  from cc_wf_ops(4) [OF inv_cc_wf [OF condition(2)] condition(1)] condition(2) show ?case by (simp add: inv_cc)
next
  case (event sev m tg c cc')
  from cc_wf_ops(5) [OF inv_cc_wf [OF event(2)] event(1)] event(2) show ?case by (simp add: inv_cc)
next
  case (deprecated c key m)
  then show ?case by (simp add: inv_cc inv_cc_wf cc_wf_ops(3))
qed

lemma inv_post_step: "post_step c c' \<Longrightarrow> collector_inv c \<Longrightarrow> collector_inv c'"
  by (induction rule: post_step.induct)
    (auto simp: inv_remove, auto simp: AddGatingDefers_def SetDepsConverged_def collector_inv_def)

text \<open>The collectors that a script and the function can reach.\<close>

definition reachable_collector :: "Collector \<Rightarrow> bool" where
  "reachable_collector c \<longleftrightarrow>
     (\<exists>script oxr obs. (sup script_step post_step)\<^sup>*\<^sup>* (NewCollector NewConditionCollector script oxr obs) c)"

lemma reachable_inv: "reachable_collector c \<Longrightarrow> collector_inv c"
proof -
  assume "reachable_collector c"
  then obtain script oxr obs
    where "(sup script_step post_step)\<^sup>*\<^sup>* (NewCollector NewConditionCollector script oxr obs) c"
    by (auto simp: reachable_collector_def)
  then show ?thesis
    by (induction rule: rtranclp_induct) (auto simp: inv_new cc_wf_ops(1) intro: inv_script_step inv_post_step)
qed

section \<open>Labels\<close>

lemma getOrCreate_put [simp]:
  "getOrCreateNestedStruct (put_nested par key child) key = child"
  by (simp add: getOrCreateNestedStruct_def put_nested_def)

text \<open>The label that ties the resource to its Usage is on the emitted body, whatever the body and the
  \<^verbatim>\<open>labels=\<close> argument say.\<close>

lemma name_label:
  "psub (psub (pfield (injectNameLabel s nm) ''metadata'') ''labels'') ResourceNameLabel =
     PStr (ResourceNameLabelValue nm)"
  by (simp add: injectNameLabel_def put_nested_def Let_def)

section \<open>Properties\<close>

text \<open>The metadata fields that the API server owns.\<close>

definition server_fields :: "string list" where
  "server_fields = [''managedFields'', ''resourceVersion'', ''uid'', ''generation'', ''creationTimestamp'']"

text \<open>
  Preserving an observed body drops what the API server owns and nothing else: the status and the five
  server-managed metadata fields are gone, every other field keeps its value.
\<close>

theorem preserved_body_stripped:
  "map_of (stripObservedReadOnlyFields s) k =
     (if k = ''status'' then None
      else if k = ''metadata'' then
        (case map_of s ''metadata'' of
           Some (PStruct md) \<Rightarrow>
             Some (PStruct (filter (\<lambda>(f, _). f \<notin> set server_fields) md))
         | v \<Rightarrow> v)
      else map_of s k)"
proof -
  have f: "AList.delete a al = filter (\<lambda>(f, _). f \<noteq> a) al" for a and al :: pstruct
    by (auto simp: AList.delete_eq case_prod_beta' intro: filter_cong)
  have "AList.delete ''creationTimestamp'' (AList.delete ''generation''
      (AList.delete ''uid'' (AList.delete ''resourceVersion'' (AList.delete ''managedFields'' md)))) =
      filter (\<lambda>(f, _). f \<notin> set server_fields) md" for md :: pstruct
    by (auto simp: f server_fields_def case_prod_beta' intro!: filter_cong)
  then show ?thesis
    by (auto simp: stripObservedReadOnlyFields_def map_of_delete' split: option.splits pvalue.splits)
qed

text \<open>
  A resource whose \<^verbatim>\<open>When()\<close> is false is never created. If the gate says keep_if_exists and the resource
  is observed, the observed body (without the fields of the API server) is emitted in its place; otherwise
  it is recorded as skipped, as a blocker of the composite's readiness unless the gate is optional, and the
  script gets a skipped reference. Other resources are not touched.
\<close>

theorem resource_gated:
  assumes "resourceFn nm b rd lv cn ds ev (Some (SWhen False reason keep opt)) c = (r, c')"
    and "nm \<notin> set (c_skipped c)"
  shows "case (if keep then lookupObservedBody c nm else Inr None) of
      Inl e \<Rightarrow> r = Inl (in_resource nm e) \<and> side_only nm c c'
    | Inr None \<Rightarrow> r = Inr (SSkippedRef nm) \<and> c_resources c' = c_resources c \<and> nm \<in> set (c_skipped c') \<and>
        c_gatingSkips c' = c_gatingSkips c @ (if opt then [] else [\<lparr>gs_Name = nm, gs_Reason = reason\<rparr>])
    | Inr (Some s) \<Rightarrow> r = Inr (SResourceRef nm) \<and> c_gatingSkips c' = c_gatingSkips c \<and>
        c_resources c' = AList.update nm \<lparr>cr_Name = nm, cr_Body = Some s, cr_Ready = ReadyUnspecified,
           cr_ConnectionDetails = []\<rparr> (c_resources c)"
  using resourceFn_gated [OF assms(1)] assms(2)
  by (auto simp: recordSkip_def recordPreserve_def put_resource_def add_event_def Let_def
      split: if_splits sum.splits option.splits)

definition ex_collector :: Collector where
  "ex_collector = NewCollector NewConditionCollector ''main.star'' None None"



text \<open>
  C5. Whatever calls of the builtins a script makes, with whatever arguments and errors, and whatever the
  function does with the collector afterwards: resources stay filed under their own name, once each and with
  a body; \<^verbatim>\<open>get_manifest\<close> returns the frozen view of the current body, so its cache is never stale; a gating
  skip is a recorded skip, once each; and no script has set the reserved gating condition.
\<close>

theorem collector_consistent:
  assumes "reachable_collector c"
  shows "distinct (map fst (c_resources c)) \<and>
     (\<forall>nm cr. map_of (c_resources c) nm = Some cr \<longrightarrow> cr_Name cr = nm \<and> cr_Body cr \<noteq> None) \<and>
     fst (manifest nm c) = map_option (\<lambda>cr. SLazyDict True (cr_Body cr)) (map_of (c_resources c) nm) \<and>
     distinct (map gs_Name (c_gatingSkips c)) \<and> gs_Name ` set (c_gatingSkips c) \<subseteq> set (c_skipped c) \<and>
     CompositeReadyConditionType \<notin> cd_Type ` set (cc_conditions (c_cc c))"
proof -
  note inv = reachable_inv [OF assms]
  have "fst (manifest nm c) = map_option (\<lambda>cr. SLazyDict True (cr_Body cr)) (map_of (c_resources c) nm)"
    using inv_manifest [OF inv surjective_pairing, of nm] by (simp split: option.splits)
  moreover have "resources_ok (c_resources c)" "skips_ok (c_skipped c) (c_gatingSkips c)" "cc_wf (c_cc c)"
    using inv by (simp_all add: collector_inv_def)
  moreover from this(3) have "CompositeReadyConditionType \<notin> cd_Type ` set (cc_conditions (c_cc c))"
    by (auto simp: cc_wf_def)
  ultimately show ?thesis unfolding resources_ok_def skips_ok_def by (intro conjI) simp_all
qed

theorem collector_consistent_witness:
  "\<exists>c. reachable_collector c \<and> c_skipped c = [''db''] \<and>
     gs_Name ` set (c_gatingSkips c) \<subseteq> set (c_skipped c)"
proof -
  let ?c = "recordSkip ''db'' body_none_reason True ex_collector"
  have "resourceFn ''db'' SNone SNone None None None None None ex_collector = (Inr (SSkippedRef ''db''), ?c)"
    by (simp add: resourceFn_def)
  then have "script_step ex_collector ?c" by (rule script_step.resource)
  then have "(sup script_step post_step)\<^sup>*\<^sup>* ex_collector ?c" by (intro r_into_rtranclp sup2I1)
  then have r: "reachable_collector ?c"
    unfolding reachable_collector_def by (intro exI) (subst (asm) (1) ex_collector_def)
  moreover have "c_skipped ?c = [''db'']"
    by (simp add: recordSkip_def ex_collector_def NewCollector_def add_event_def Let_def)
  ultimately show ?thesis using collector_consistent [OF r] by blast
qed

end
