(* ===== verification/Response.thy ===== *)
theory Response
  imports Collector
begin

text \<open>
  Between the request, the script's globals and the response: the globals of \<^verbatim>\<open>BuildGlobals\<close> that are
  computed (\<^verbatim>\<open>builtins/builtins.go\<close>, \<^verbatim>\<open>builtins/context.go\<close>) and the \<^verbatim>\<open>Apply...\<close> functions that write the
  collected state to the response, with the composite's readiness.
\<close>

section \<open>Data\<close>

datatype Ready_proto = READY_UNSPECIFIED | READY_TRUE | READY_FALSE

record Resource_proto =
  rp_Resource :: "pstruct option"
  rp_Ready :: Ready_proto
  rp_ConnectionDetails :: "(string \<times> string) list"

record State_proto =
  sp_Composite :: "Resource_proto option"
  sp_Resources :: "(string \<times> Resource_proto) list"

text \<open>The parts of \<^verbatim>\<open>RunFunctionResponse\<close> that these functions change.\<close>

record Rsp =
  rsp_Desired :: "State_proto option"
  rsp_Context :: "pstruct option"

definition empty_state :: State_proto where
  "empty_state = \<lparr>sp_Composite = None, sp_Resources = []\<rparr>"

definition empty_resource :: Resource_proto where
  "empty_resource = \<lparr>rp_Resource = None, rp_Ready = READY_UNSPECIFIED, rp_ConnectionDetails = []\<rparr>"

text \<open>\<^verbatim>\<open>if rsp.Desired == nil\<close> and \<^verbatim>\<open>if rsp.Desired.Composite == nil\<close>, then the change.\<close>

definition desired_of :: "Rsp \<Rightarrow> State_proto" where
  "desired_of rsp = (case rsp_Desired rsp of None \<Rightarrow> empty_state | Some d \<Rightarrow> d)"

definition composite_of :: "Rsp \<Rightarrow> Resource_proto" where
  "composite_of rsp = (case sp_Composite (desired_of rsp) of None \<Rightarrow> empty_resource | Some r \<Rightarrow> r)"

definition put_composite :: "Resource_proto \<Rightarrow> Rsp \<Rightarrow> Rsp" where
  "put_composite r rsp = rsp\<lparr>rsp_Desired := Some ((desired_of rsp)\<lparr>sp_Composite := Some r\<rparr>)\<rparr>"

section \<open>Globals\<close>

text \<open>\<^verbatim>\<open>BuildObservedDict\<close> on the observed resources of the request (name and body).\<close>

definition BuildObservedDict :: "(string \<times> pstruct option) list \<Rightarrow> sval" where
  "BuildObservedDict resources =
     freeze (SStarlarkDict False
       (dict_update [] (map (\<lambda>(n, body). (SString n, SLazyDict False body)) resources)))"

fun context_loop :: "pstruct \<Rightarrow> items \<Rightarrow> serror + items" where
  "context_loop [] d = Inr d"
| "context_loop ((k, v) # fs) d =
     bind_res (wrap_err (EIn (''context key '' @ go_quote k)) (ProtoValueToPlainStarlark v False))
       (\<lambda>sv. context_loop fs (dict_set (SString k) sv d))"

definition buildContextDict :: "pstruct option \<Rightarrow> serror + sval" where
  "buildContextDict ctx =
     (case ctx of
        None \<Rightarrow> Inr (SDict False [])
      | Some fs \<Rightarrow> bind_res (context_loop fs []) (\<lambda>d. Inr (SDict False d)))"

definition environmentKey :: string where
  "environmentKey = ''apiextensions.crossplane.io/environment''"

definition buildEnvironmentDict :: "pstruct option \<Rightarrow> serror + sval" where
  "buildEnvironmentDict ctx =
     (case ctx of
        None \<Rightarrow> Inr (freeze (SStarlarkDict False []))
      | Some fs \<Rightarrow>
          (case map_of fs environmentKey of
             Some (PStruct env) \<Rightarrow> StructToStarlark (Some env) True
           | _ \<Rightarrow> Inr (freeze (SStarlarkDict False []))))"

section \<open>Applying the collected state\<close>

definition readyToProto :: "Ready \<Rightarrow> Ready_proto" where
  "readyToProto r = (case r of ReadyTrue \<Rightarrow> READY_TRUE | ReadyFalse \<Rightarrow> READY_FALSE | _ \<Rightarrow> READY_UNSPECIFIED)"

definition resource_proto :: "CollectedResource \<Rightarrow> Resource_proto" where
  "resource_proto cr =
     \<lparr>rp_Resource = cr_Body cr, rp_Ready = readyToProto (cr_Ready cr),
      rp_ConnectionDetails = cr_ConnectionDetails cr\<rparr>"

definition ApplyResources :: "Rsp \<Rightarrow> Collector \<Rightarrow> Rsp" where
  "ApplyResources rsp c =
     (if c_resources c = [] then rsp
      else rsp\<lparr>rsp_Desired := Some ((desired_of rsp)\<lparr>sp_Resources :=
             foldl (\<lambda>rs (n, cr). AList.update n (resource_proto cr) rs)
               (sp_Resources (desired_of rsp)) (c_resources c)\<rparr>)\<rparr>)"

definition ApplyDXR :: "Rsp \<Rightarrow> sval \<Rightarrow> serror + Rsp" where
  "ApplyDXR rsp dxr =
     (case dxr of
        SStarlarkDict _ _ \<Rightarrow>
          bind_res (wrap_err (EIn ''converting dxr'') (StarlarkToStruct dxr))
            (\<lambda>s. Inr (put_composite ((composite_of rsp)\<lparr>rp_Resource := Some s\<rparr>) rsp))
      | SLazyDict _ _ \<Rightarrow>
          bind_res (wrap_err (EIn ''converting dxr'') (StarlarkToStruct dxr))
            (\<lambda>s. Inr (put_composite ((composite_of rsp)\<lparr>rp_Resource := Some s\<rparr>) rsp))
      | _ \<Rightarrow> Inl (EIn ''dxr is not a *convert.StarlarkDict'' (EUnsupportedType (stype dxr))))"

definition ApplyConnectionDetails :: "Rsp \<Rightarrow> (string \<times> string) list \<Rightarrow> Rsp" where
  "ApplyConnectionDetails rsp cd =
     (if cd = [] then rsp
      else put_composite ((composite_of rsp)\<lparr>rp_ConnectionDetails :=
             foldl (\<lambda>m (k, v). AList.update k v m) (rp_ConnectionDetails (composite_of rsp)) cd\<rparr>) rsp)"

definition ApplyContext :: "Rsp \<Rightarrow> sval \<Rightarrow> serror + Rsp" where
  "ApplyContext rsp ctxVal =
     (case ctxVal of
        SDict _ d \<Rightarrow>
          bind_res (wrap_err (EIn ''converting context'') (PlainDictToStruct d)) (\<lambda>s.
            Inr (rsp\<lparr>rsp_Context :=
              Some (case rsp_Context rsp of
                  None \<Rightarrow> s
                | Some old \<Rightarrow> foldl (\<lambda>m (k, v). AList.update k v m) old s)\<rparr>))
      | _ \<Rightarrow> Inl (EIn ''context is not a *starlark.Dict'' (EUnsupportedType (stype ctxVal))))"

section \<open>Composite readiness\<close>

definition compositeReadyReasonPending :: string where
  "compositeReadyReasonPending = ''PendingConditionalResources''"

definition compositeReadyReasonWaitingDep :: string where
  "compositeReadyReasonWaitingDep = ''WaitingForDependencies''"

definition compositeReadyReasonComposite :: string where
  "compositeReadyReasonComposite = ''CompositeNotReady''"

definition compositeReadyReasonAllReady :: string where
  "compositeReadyReasonAllReady = ''AllReady''"

definition gating_part :: "string \<Rightarrow> string \<Rightarrow> string" where
  "gating_part nm reason = (if reason \<noteq> [] then go_quote nm @ '' ('' @ reason @ '')'' else go_quote nm)"

definition formatGatingSkips :: "GatingSkip list \<Rightarrow> string" where
  "formatGatingSkips skips =
     (if skips = [] then []
      else ''Pending resources: '' @ join ''; '' (map (\<lambda>s. gating_part (gs_Name s) (gs_Reason s)) skips))"

definition formatGatingDefers :: "GatingDefer list \<Rightarrow> string" where
  "formatGatingDefers defers =
     (if defers = [] then []
      else ''Waiting on dependencies: '' @ join ''; '' (map (\<lambda>d. gating_part (gd_Name d) (gd_Reason d)) defers))"

definition buildGatingConditionFields :: "GatingSkip list \<Rightarrow> GatingDefer list \<Rightarrow> string \<times> string" where
  "buildGatingConditionFields skips defers =
     (if skips \<noteq> [] \<and> defers \<noteq> []
      then (compositeReadyReasonComposite, formatGatingSkips skips @ ''; '' @ formatGatingDefers defers)
      else if skips \<noteq> [] then (compositeReadyReasonPending, formatGatingSkips skips)
      else (compositeReadyReasonWaitingDep, formatGatingDefers defers))"

definition gating_condition :: "string \<Rightarrow> string \<Rightarrow> string \<Rightarrow> CollectedCondition" where
  "gating_condition status reason message =
     \<lparr>cd_Type = CompositeReadyConditionType, cd_Status = status, cd_Reason = reason, cd_Message = message,
      cd_Target = ''CompositeAndClaim''\<rparr>"

definition ApplyCompositeReady :: "Rsp \<Rightarrow> Collector \<Rightarrow> ConditionCollector \<Rightarrow> Rsp \<times> ConditionCollector" where
  "ApplyCompositeReady rsp c cc =
     (let override = c_compositeReady c; skips = c_gatingSkips c; defers = c_gatingDefers c;
          converged = c_depsConverged c
      in if \<not> ov_Set override \<and> skips = [] \<and> defers = [] then
           (if converged \<or> hasCompositeReadyCondition c
            then (rsp, AddCondition (gating_condition ''True'' compositeReadyReasonAllReady
                   (if converged then ''All sequenced dependencies are ready''
                    else ''No composition readiness blockers remain'')) cc)
            else (rsp, cc))
         else if ov_Set override then
           (put_composite ((composite_of rsp)\<lparr>rp_Ready :=
              (if ov_Ready override then READY_TRUE else READY_FALSE)\<rparr>) rsp,
            if ov_Reason override \<noteq> []
            then AddCondition (gating_condition (if ov_Ready override then ''True'' else ''False'')
                   (ov_Reason override) (ov_Message override)) cc
            else cc)
         else
           (let (reason, message) = buildGatingConditionFields skips defers
            in (put_composite ((composite_of rsp)\<lparr>rp_Ready := READY_FALSE\<rparr>) rsp,
                AddCondition (gating_condition ''False'' reason message) cc)))"

section \<open>Lookups in the response\<close>

text \<open>Folding an association list into another: the last value of a key wins, other keys stay.\<close>

lemma map_of_fold_update:
  "map_of (foldl (\<lambda>m (k, v). AList.update k (f v) m) al kvs) k =
     (case map_of (rev kvs) k of Some v \<Rightarrow> Some (f v) | None \<Rightarrow> map_of al k)"
proof (induction kvs rule: rev_induct)
  case (snoc kv kvs)
  then show ?case by (cases kv) auto
qed simp

lemma map_of_rev: "distinct (map fst al) \<Longrightarrow> map_of (rev al) = map_of al"
  by (rule ext, rule map_of_eqI [THEN fun_cong]) (auto simp: rev_map [symmetric])

lemma ApplyResources_get:
  assumes "distinct (map fst (c_resources c))"
  shows "map_of (sp_Resources (desired_of (ApplyResources rsp c))) n =
     (case map_of (c_resources c) n of
        Some cr \<Rightarrow> Some (resource_proto cr) | None \<Rightarrow> map_of (sp_Resources (desired_of rsp)) n)"
  using assms by (auto simp: ApplyResources_def desired_of_def map_of_fold_update map_of_rev split: option.splits)

lemma ApplyResources_composite: "composite_of (ApplyResources rsp c) = composite_of rsp"
  by (simp add: ApplyResources_def composite_of_def desired_of_def split: option.splits)

lemma composite_put [simp]: "composite_of (put_composite r rsp) = r"
  by (simp add: composite_of_def put_composite_def desired_of_def)

lemma resources_put [simp]: "sp_Resources (desired_of (put_composite r rsp)) = sp_Resources (desired_of rsp)"
  by (simp add: put_composite_def desired_of_def)

lemma ApplyContext_get:
  assumes "ApplyContext rsp (SDict f d) = Inr rsp'" and "PlainDictToStruct d = Inr s"
    and "distinct (map fst s)"
  shows "map_of (pfields (rsp_Context rsp')) k =
     (case map_of s k of Some v \<Rightarrow> Some v | None \<Rightarrow> map_of (pfields (rsp_Context rsp)) k)"
proof -
  have "map_of (foldl (\<lambda>m (k, v). AList.update k v m) al s) k =
      (case map_of s k of Some v \<Rightarrow> Some v | None \<Rightarrow> map_of al k)" for al
    using map_of_fold_update [of "\<lambda>v. v" al s k] map_of_rev [OF assms(3)] by simp
  with assms(1,2) show ?thesis by (auto simp: ApplyContext_def split: option.splits)
qed

end
