(* ===== verification/Requirements.thy ===== *)
theory Requirements
  imports Paths "HOL-Library.Multiset"
begin

text \<open>
  Extra resources: \<^verbatim>\<open>builtins/requirements.go\<close> (what a script asks Crossplane to fetch, and how that is
  written to the response), the derived names of \<^verbatim>\<open>builtins/refs.go\<close>, and \<^verbatim>\<open>builtins/extra_resources.go\<close> (how a
  script reads what was fetched). Arguments are those after \<^verbatim>\<open>UnpackArgs\<close>; an optional dict that was not
  given is \<^const>\<open>None\<close>.
\<close>

section \<open>Requirements\<close>

record CollectedRequirement =
  rq_Name :: string
  rq_APIVersion :: string
  rq_Kind :: string
  rq_MatchName :: string
  rq_Namespace :: string
  rq_MatchLabels :: "(string \<times> string) list"

record RequirementsCollector =
  rc_requirements :: "CollectedRequirement list"
  rc_warnings :: "string list"

definition NewRequirementsCollector :: RequirementsCollector where
  "NewRequirementsCollector = \<lparr>rc_requirements = [], rc_warnings = []\<rparr>"

text \<open>The pairs are sorted, so the iteration order of the label map does not matter.\<close>

definition derivedRequirementName :: "string \<Rightarrow> string \<Rightarrow> string \<Rightarrow> (string \<times> string) list \<Rightarrow> string" where
  "derivedRequirementName kind namespace matchName matchLabels =
     (let sel = (if matchName \<noteq> [] then matchName
                 else join '','' (sort (map (\<lambda>(k, v). k @ ''='' @ v) matchLabels)))
      in kind @ ''/'' @ namespace @ ''/'' @ sel)"

definition requirementIdentity ::
  "string \<Rightarrow> string \<Rightarrow> string \<Rightarrow> string \<Rightarrow> serror + string \<times> string \<times> string" where
  "requirementIdentity fnName nm apiVersion kind =
     (if kind = [] \<and> nm \<noteq> [] \<and> apiVersion \<noteq> [] then Inr ([], nm, apiVersion)
      else if apiVersion = [] \<or> kind = []
        then Inl (EMsg (fnName @ '': apiVersion and kind are required''))
      else Inr (nm, apiVersion, kind))"

fun dictToStringMap :: "items \<Rightarrow> (string \<times> string) list \<Rightarrow> serror + (string \<times> string) list" where
  "dictToStringMap [] m = Inr m"
| "dictToStringMap ((k, v) # its) m =
     (case as_string k of
        None \<Rightarrow> Inl (EKeyNotString k)
      | Some ks \<Rightarrow>
          (case as_string v of
             None \<Rightarrow> Inl (EIn (''value for key '' @ go_quote ks) (EUnsupportedType (stype v)))
           | Some vs \<Rightarrow> dictToStringMap its (AList.update ks vs m)))"

definition add_requirement :: "CollectedRequirement \<Rightarrow> RequirementsCollector \<Rightarrow> RequirementsCollector" where
  "add_requirement r rc = rc\<lparr>rc_requirements := rc_requirements rc @ [r]\<rparr>"

definition requireResourceFn ::
  "string \<Rightarrow> string \<Rightarrow> string \<Rightarrow> string \<Rightarrow> string \<Rightarrow> items option \<Rightarrow> string \<Rightarrow> RequirementsCollector \<Rightarrow>
     (serror + sval) \<times> RequirementsCollector"
where
  "requireResourceFn fnName nm apiVersion kind matchName matchLabelsDict namespace rc =
     (case requirementIdentity fnName nm apiVersion kind of
        Inl e \<Rightarrow> (Inl e, rc)
      | Inr (nm, apiVersion, kind) \<Rightarrow>
          if matchName = [] \<and> matchLabelsDict = None
          then (Inl (EMsg ''require_extra_resource: must specify at least one of match_name or match_labels''), rc)
          else
            let rc = (if matchName \<noteq> [] \<and> matchLabelsDict \<noteq> None
                      then rc\<lparr>rc_warnings := rc_warnings rc @
                             [''require_extra_resource('' @ go_quote nm @ ''): match_name '' @ go_quote matchName @
                              '' takes precedence; match_labels ignored'']\<rparr>
                      else rc);
                labels = (case matchLabelsDict of
                    Some d \<Rightarrow> if matchName \<noteq> [] then Inr []
                              else wrap_err (EIn ''require_extra_resource: match_labels'') (dictToStringMap d [])
                  | None \<Rightarrow> Inr [])
            in case labels of
                 Inl e \<Rightarrow> (Inl e, rc)
               | Inr matchLabels \<Rightarrow>
                   let nm = (if nm = [] then derivedRequirementName kind namespace matchName matchLabels else nm)
                   in (Inr (SExtraRef nm),
                       add_requirement \<lparr>rq_Name = nm, rq_APIVersion = apiVersion, rq_Kind = kind,
                         rq_MatchName = matchName, rq_Namespace = namespace, rq_MatchLabels = matchLabels\<rparr> rc))"

definition requireResourcesFn ::
  "string \<Rightarrow> string \<Rightarrow> string \<Rightarrow> string \<Rightarrow> items option \<Rightarrow> string \<Rightarrow> RequirementsCollector \<Rightarrow>
     (serror + sval) \<times> RequirementsCollector"
where
  "requireResourcesFn fnName nm apiVersion kind matchLabelsDict namespace rc =
     (case requirementIdentity fnName nm apiVersion kind of
        Inl e \<Rightarrow> (Inl e, rc)
      | Inr (nm, apiVersion, kind) \<Rightarrow>
          (case matchLabelsDict of
             None \<Rightarrow> (Inl (EMsg ''require_extra_resources: missing argument for match_labels''), rc)
           | Some d \<Rightarrow>
               (case wrap_err (EIn ''require_extra_resources: match_labels'') (dictToStringMap d []) of
                  Inl e \<Rightarrow> (Inl e, rc)
                | Inr matchLabels \<Rightarrow>
                    let nm = (if nm = [] then derivedRequirementName kind namespace [] matchLabels else nm)
                    in (Inr (SExtraRef nm),
                        add_requirement \<lparr>rq_Name = nm, rq_APIVersion = apiVersion, rq_Kind = kind,
                          rq_MatchName = [], rq_Namespace = namespace, rq_MatchLabels = matchLabels\<rparr> rc))))"

section \<open>Requirements on the response\<close>

datatype selector_match = NoMatch | MatchName string | MatchLabels "(string \<times> string) list"

record ResourceSelector =
  rs_ApiVersion :: string
  rs_Kind :: string
  rs_Match :: selector_match
  rs_Namespace :: "string option"

definition selector_of :: "CollectedRequirement \<Rightarrow> ResourceSelector" where
  "selector_of req =
     \<lparr>rs_ApiVersion = rq_APIVersion req, rs_Kind = rq_Kind req,
      rs_Match = (if rq_MatchName req \<noteq> [] then MatchName (rq_MatchName req)
                  else if rq_MatchLabels req \<noteq> [] then MatchLabels (rq_MatchLabels req) else NoMatch),
      rs_Namespace = (if rq_Namespace req \<noteq> [] then Some (rq_Namespace req) else None)\<rparr>"

text \<open>The message \<^verbatim>\<open>Requirements\<close> with its current and its deprecated field.\<close>

record Requirements_proto =
  rr_Resources :: "(string \<times> ResourceSelector) list"
  rr_ExtraResources :: "(string \<times> ResourceSelector) list"

definition ApplyRequirements ::
  "Requirements_proto option \<Rightarrow> CollectedRequirement list \<Rightarrow> Requirements_proto option" where
  "ApplyRequirements rsp reqs =
     (if reqs = [] then rsp
      else
        let old = (case rsp of None \<Rightarrow> [] | Some r \<Rightarrow> rr_Resources r);
            resources = foldl (\<lambda>m req. AList.update (rq_Name req) (selector_of req) m) old reqs
        in Some \<lparr>rr_Resources = resources, rr_ExtraResources = resources\<rparr>)"

section \<open>Reading extra resources\<close>

text \<open>\<^verbatim>\<open>buildExtraResourcesDict\<close> on the current and the deprecated field of the request.\<close>

definition buildExtraResourcesDict ::
  "(string \<times> pstruct option list) list option \<Rightarrow> (string \<times> pstruct option list) list option \<Rightarrow> sval" where
  "buildExtraResourcesDict required extra =
     (let rrs = (case required of None \<Rightarrow> extra | Some _ \<Rightarrow> required)
      in case rrs of
           None \<Rightarrow> freeze (SDict False [])
         | Some rs \<Rightarrow>
             freeze (SDict False (dict_update [] (map (\<lambda>(n, bodies).
               (SString n,
                if bodies = [] then SNone
                else freeze (SList False (map (SLazyDict False) bodies)))) rs))))"

definition extra_items :: "sval \<Rightarrow> string \<Rightarrow> sval list option" where
  "extra_items extraRes nm =
     (case dict_of extraRes of
        None \<Rightarrow> None
      | Some (f, its) \<Rightarrow>
          (case dict_get its (SString nm) of Some (SList _ vs) \<Rightarrow> Some vs | _ \<Rightarrow> None))"

definition getExtraResourceImpl ::
  "string \<Rightarrow> sval \<Rightarrow> sval \<Rightarrow> sval option \<Rightarrow> sval \<Rightarrow> serror + sval" where
  "getExtraResourceImpl fnName extraRes nameVal path dflt =
     bind_res (refName fnName nameVal) (\<lambda>nm.
       case extra_items extraRes nm of
         None \<Rightarrow> Inr dflt
       | Some [] \<Rightarrow> Inr dflt
       | Some (res # _) \<Rightarrow>
           (case path of
              None \<Rightarrow> Inr res
            | Some p \<Rightarrow>
                if p = SNone then Inr res
                else if p = SString [] then Inl (EMsg (fnName @ '': path must not be empty''))
                else bind_res (pathToKeys p) (\<lambda>keys. walkPath res keys dflt)))"

text \<open>The walk on one item: \<^const>\<open>None\<close> when the path is not there.\<close>

fun walk_item :: "sval \<Rightarrow> string list \<Rightarrow> serror + sval option" where
  "walk_item current [] = Inr (Some current)"
| "walk_item current (key # keys) =
     (case mapping_get current key of
        None \<Rightarrow> Inr None
      | Some (Inl e) \<Rightarrow> Inl e
      | Some (Inr None) \<Rightarrow> Inr None
      | Some (Inr (Some v)) \<Rightarrow> if v = SNone then Inr None else walk_item v keys)"

definition getExtraResourcesImpl ::
  "string \<Rightarrow> sval \<Rightarrow> sval \<Rightarrow> sval option \<Rightarrow> sval \<Rightarrow> serror + sval" where
  "getExtraResourcesImpl fnName extraRes nameVal path dflt =
     bind_res (refName fnName nameVal) (\<lambda>nm.
       case extra_items extraRes nm of
         None \<Rightarrow> Inr dflt
       | Some items \<Rightarrow>
           (case path of
              None \<Rightarrow> Inr (SList False items)
            | Some p \<Rightarrow>
                if p = SNone then Inr (SList False items)
                else bind_res (pathToKeys p) (\<lambda>keys.
                     bind_res (map_res (\<lambda>item. walk_item item keys) items) (\<lambda>found.
                       Inr (SList False (List.map_filter id found))))))"

section \<open>Lemmas\<close>

lemma derivedRequirementName_order:
  "mset ls = mset ls' \<Longrightarrow> derivedRequirementName kind ns mn ls = derivedRequirementName kind ns mn ls'"
proof -
  assume "mset ls = mset ls'"
  then have "mset (map f ls) = mset (map f ls')" for f :: "string \<times> string \<Rightarrow> string" by (metis mset_map)
  then have "sort (map f ls) = sort (map f ls')" for f :: "string \<times> string \<Rightarrow> string"
    by (metis properties_for_sort sorted_sort mset_sort)
  then show ?thesis by (simp add: derivedRequirementName_def)
qed

lemma map_of_fold_requirements:
  "map_of (foldl (\<lambda>m req. AList.update (rq_Name req) (selector_of req) m) old reqs) n =
     (case find (\<lambda>r. rq_Name r = n) (rev reqs) of Some r \<Rightarrow> Some (selector_of r) | None \<Rightarrow> map_of old n)"
  by (induction reqs rule: rev_induct) auto

text \<open>Both collecting builtins append one requirement under the name of the handle they return.\<close>

lemma requireResource_handle:
  assumes "requireResourceFn fnName nm v k mn ml ns rc = (Inr h, rc')"
  shows "\<exists>r. h = SExtraRef (rq_Name r) \<and> rc_requirements rc' = rc_requirements rc @ [r] \<and>
     (rq_MatchName r = [] \<longrightarrow> mn = [])"
  using assms
  by (auto simp: requireResourceFn_def add_requirement_def Let_def split: sum.splits if_splits option.splits)

section \<open>Properties\<close>

text \<open>
  The requirements on the response: under every name the selector of the last requirement with that name,
  requirements of earlier functions under other names stay, and the deprecated field mirrors the current one.
\<close>

theorem requirements_applied:
  assumes "ApplyRequirements rsp reqs = Some r" and "reqs \<noteq> []"
  shows "map_of (rr_Resources r) n =
     (case find (\<lambda>q. rq_Name q = n) (rev reqs) of
        Some q \<Rightarrow> Some (selector_of q)
      | None \<Rightarrow> (case rsp of None \<Rightarrow> None | Some old \<Rightarrow> map_of (rr_Resources old) n)) \<and>
     rr_ExtraResources r = rr_Resources r"
  using assms by (auto simp: ApplyRequirements_def Let_def map_of_fold_requirements split: option.splits)

definition ex_requirement :: "string \<Rightarrow> CollectedRequirement" where
  "ex_requirement v = \<lparr>rq_Name = ''svc'', rq_APIVersion = v, rq_Kind = ''Service'', rq_MatchName = ''x'',
     rq_Namespace = [], rq_MatchLabels = []\<rparr>"

text \<open>
  A derived requirement name leaves the API version out: two unnamed requirements for the same kind,
  namespace and name in different API groups get the same name, both handles are equal, and only the second
  selector reaches the response.
\<close>

theorem derived_names_collide:
  assumes "v1 \<noteq> []" "v2 \<noteq> []" "k \<noteq> []" "mn \<noteq> []"
    and "requireResourceFn fnName [] v1 k mn None ns rc = (Inr h1, rc1)"
    and "requireResourceFn fnName [] v2 k mn None ns rc1 = (Inr h2, rc2)"
  shows "h1 = h2 \<and> (\<exists>r. ApplyRequirements rsp (rc_requirements rc2) = Some r \<and>
     map_option rs_ApiVersion (map_of (rr_Resources r) (derivedRequirementName k ns mn [])) = Some v2)"
  using assms
  by (auto simp: requireResourceFn_def requirementIdentity_def add_requirement_def Let_def ApplyRequirements_def
      map_of_fold_requirements selector_of_def)

end
