(* ===== verification/Progress.thy ===== *)
theory Progress
  imports Dependencies
begin

text \<open>
  What validation and sequencing guarantee together. The locale \<open>sequencing\<close> states the contract of
  a creation sequencer (which resources it withholds), proves that on an acyclic dependency
  graph it cannot withhold everything, and that repeated reconciliations therefore observe every
  resource. \<open>Evaluate\<close> of \<^verbatim>\<open>builtins/sequencer.go\<close> is its interpretation.
\<close>

locale sequencing =
  fixes met :: "observed \<Rightarrow> DependencyPair \<Rightarrow> bool"
    and deferred :: "DependencyPair list \<Rightarrow> observed \<Rightarrow> string list"
  assumes deferred_iff:
    "n \<in> set (deferred deps obs) \<longleftrightarrow>
       obs n = None \<and> (\<exists>d \<in> set deps. Dependent d = n \<and> \<not> met obs d)"
begin

lemma observed_never_deferred: "obs n \<noteq> None \<Longrightarrow> n \<notin> set (deferred deps obs)"
  by (simp add: deferred_iff)

lemma met_not_deferred:
  "(\<And>d. d \<in> set deps \<Longrightarrow> Dependent d = n \<Longrightarrow> met obs d) \<Longrightarrow> n \<notin> set (deferred deps obs)"
  by (auto simp: deferred_iff)

text \<open>No deadlock: if some resource of \<open>N\<close> is still missing, one of the missing ones is emitted.\<close>

lemma some_emitted:
  assumes acyc: "acyclic (dep_rel deps)"
    and closed: "\<And>d. d \<in> set deps \<Longrightarrow> Dependent d \<in> N \<Longrightarrow> Dependency d \<in> N \<or> obs (Dependency d) \<noteq> None"
    and ready: "\<And>d. d \<in> set deps \<Longrightarrow> obs (Dependency d) \<noteq> None \<Longrightarrow> met obs d"
    and n: "n \<in> N" "obs n = None"
  obtains m where "m \<in> N" and "obs m = None" and "m \<notin> set (deferred deps obs)"
proof -
  let ?A = "{m \<in> N. obs m = None}"
  have "acyclic (edges_of (nbrs (build_adj deps [])))" using acyc by (simp add: edges_build_adj)
  moreover have "n \<in> ?A" using n by simp
  ultimately obtain m where m: "m \<in> ?A"
    and sink: "\<And>z. z \<in> set (nbrs (build_adj deps []) m) \<Longrightarrow> z \<notin> ?A"
    by (rule dg.sink_reachable [where A = ?A]) blast
  have "met obs d" if d: "d \<in> set deps" "Dependent d = m" for d
  proof (rule ready [OF d(1)])
    have "Dependency d \<in> set (nbrs (build_adj deps []) m)" using d by (auto simp: nbrs_build_adj)
    then show "obs (Dependency d) \<noteq> None" using sink closed [OF d(1)] d(2) m by auto
  qed
  then have "m \<notin> set (deferred deps obs)" by (rule met_not_deferred)
  with m that show ?thesis by blast
qed

end

interpretation seq: sequencing dep_met "\<lambda>deps obs. Deferred (Evaluate (NewSequencer deps names obs ttl))"
  for names ttl
  by unfold_locales (simp add: Deferred_iff NewSequencer_def)

section \<open>Repeated reconciliation\<close>

text \<open>
  One round as the cluster sees it: what was observed stays observed, every resource of the script
  that was not deferred is created and observed, and what is observed satisfies the pairs that
  wait for it (its conditions and fields have become ready).
\<close>

inductive reconciled ::
  "DependencyPair list \<Rightarrow> string list \<Rightarrow> int \<Rightarrow> observed \<Rightarrow> observed \<Rightarrow> bool"
  for deps :: "DependencyPair list" and names :: "string list" and ttl :: int
where
  round: "dom obs \<subseteq> dom obs' \<Longrightarrow>
    (\<And>n. n \<in> set names \<Longrightarrow> n \<notin> set (Deferred (Evaluate (NewSequencer deps names obs ttl))) \<Longrightarrow>
       obs' n \<noteq> None) \<Longrightarrow>
    (\<And>d. d \<in> set deps \<Longrightarrow> obs' (Dependency d) \<noteq> None \<Longrightarrow> dep_met obs' d) \<Longrightarrow>
    reconciled deps names ttl obs obs'"

inductive_cases reconciledE: "reconciled deps names ttl obs obs'"

definition missing :: "string list \<Rightarrow> observed \<Rightarrow> string set" where
  "missing names obs = {n \<in> set names. obs n = None}"

lemma finite_missing [simp]: "finite (missing names obs)"
  by (simp add: missing_def)

lemma reconciled_mono: "reconciled deps names ttl obs obs' \<Longrightarrow> missing names obs' \<subseteq> missing names obs"
  by (auto simp: missing_def elim!: reconciledE)

lemma reconciled_progress:
  assumes step: "reconciled deps names ttl obs obs'"
    and acyc: "acyclic (dep_rel deps)"
    and closed: "\<And>d. d \<in> set deps \<Longrightarrow> Dependency d \<in> set names"
    and ready: "\<And>d. d \<in> set deps \<Longrightarrow> obs (Dependency d) \<noteq> None \<Longrightarrow> dep_met obs d"
    and n: "n \<in> missing names obs"
  shows "card (missing names obs') < card (missing names obs)"
proof -
  obtain m where m: "m \<in> set names" "obs m = None"
    and nd: "m \<notin> set (Deferred (Evaluate (NewSequencer deps names obs ttl)))"
    by (rule seq.some_emitted [of deps "set names" obs n names ttl])
      (use acyc closed ready n in \<open>auto simp: missing_def\<close>)
  have "obs' m \<noteq> None" using step m nd by (auto elim: reconciledE)
  then have "m \<in> missing names obs - missing names obs'" using m by (simp add: missing_def)
  then have "missing names obs' \<subset> missing names obs" using reconciled_mono [OF step] by blast
  then show ?thesis by (intro psubset_card_mono) auto
qed

lemma reconciled_converges:
  assumes "(reconciled deps names ttl ^^ k) obs obs'"
    and "acyclic (dep_rel deps)"
    and "\<And>d. d \<in> set deps \<Longrightarrow> Dependency d \<in> set names"
    and "\<And>d. d \<in> set deps \<Longrightarrow> obs (Dependency d) \<noteq> None \<Longrightarrow> dep_met obs d"
    and "card (missing names obs) \<le> k"
  shows "missing names obs' = {}"
  using assms(1,4,5)
proof (induction k arbitrary: obs)
  case 0
  then show ?case by simp
next
  case (Suc k)
  from Suc.prems(1) obtain mid
    where step: "reconciled deps names ttl obs mid" and rest: "(reconciled deps names ttl ^^ k) mid obs'"
    using relpowp_Suc_D2 [OF Suc.prems(1)] by blast
  have ready: "dep_met mid d" if "d \<in> set deps" "mid (Dependency d) \<noteq> None" for d
    using step that by (auto elim: reconciledE)
  have "card (missing names mid) \<le> k"
  proof (cases "missing names obs = {}")
    case True
    then have "missing names mid = {}" using reconciled_mono [OF step] by blast
    then show ?thesis by simp
  next
    case False
    then obtain n where "n \<in> missing names obs" by blast
    from reconciled_progress [OF step assms(2,3) Suc.prems(2) this] Suc.prems(3) show ?thesis by simp
  qed
  from Suc.IH [OF rest ready this] show ?case .
qed

end
