(* ===== verification/Pipeline.thy ===== *)
theory Pipeline
  imports Response Requirements Progress
begin

text \<open>
  \<^verbatim>\<open>RunFunction\<close> of \<^verbatim>\<open>fn.go\<close> from the end of the script on: dependency validation, Usages, creation
  sequencing, TTL, and the order in which the collected state reaches the response, with every fatal exit.
  The function SDK, the duration parser and the environment are parameters.
\<close>

section \<open>Input\<close>

record ScriptConfigRef =
  ref_Name :: string
  ref_Key :: string

record StarlarkInputSpec =
  in_Source :: string
  in_ScriptConfigRef :: "ScriptConfigRef option"
  in_UsageAPIVersion :: string
  in_Modules :: "(string \<times> string) list"
  in_ModulePaths :: "string list"
  in_DockerConfigSecret :: string
  in_DockerConfigCredential :: string
  in_OCIDefaultRegistry :: string
  in_OCIInsecureRegistries :: "string list"
  in_SequencingTTL :: string

section \<open>The response\<close>

text \<open>What the fatal exits report.\<close>

datatype fn_error =
    ScriptFatal string
  | ExecutionFailed string
  | DependencyValidation dep_error
  | InvalidSequencingTTL string string
  | ApplyingDXR serror
  | ApplyingContext serror

text \<open>
  The response: the parts written here directly, the TTL in nanoseconds, the requirements, and everything that
  only the helpers of the SDK change (conditions and results), of type \<open>'r\<close>.
\<close>

record 'r RunFunctionResponse =
  res_core :: Rsp
  res_ttl :: "int option"
  res_requirements :: "Requirements_proto option"
  res_sdk :: 'r

text \<open>The state that a script leaves behind: the collectors and the two mutable globals.\<close>

record RunState =
  run_collector :: Collector
  run_conn :: ConnectionCollector
  run_reqs :: RequirementsCollector
  run_ttl :: "int option"
  run_dxr :: sval
  run_context :: sval

section \<open>Dependencies\<close>

definition put_usages :: "(string \<times> pstruct) list \<Rightarrow> Rsp \<Rightarrow> Rsp" where
  "put_usages usages rsp =
     rsp\<lparr>rsp_Desired := Some ((desired_of rsp)\<lparr>sp_Resources :=
       foldl (\<lambda>rs (n, body). AList.update n
            \<lparr>rp_Resource = Some body, rp_Ready = READY_TRUE, rp_ConnectionDetails = []\<rparr> rs)
         (sp_Resources (desired_of rsp)) usages\<rparr>)\<rparr>"

text \<open>\<^verbatim>\<open>int(d.Seconds())\<close>, towards zero. The sequencer only stores it.\<close>

definition whole_seconds :: "int \<Rightarrow> int" where
  "whole_seconds d = (if d < 0 then - ((- d) div 1000000000) else d div 1000000000)"

definition sequencing_ttl :: "(string \<Rightarrow> string + int) \<Rightarrow> string \<Rightarrow> fn_error + int" where
  "sequencing_ttl parse s =
     (if s = [] then Inr (10 * 1000000000)
      else (case parse s of Inl e \<Rightarrow> Inl (InvalidSequencingTTL s e) | Inr d \<Rightarrow> Inr d))"

definition sequence_resources ::
  "DependencyPair list \<Rightarrow> string list \<Rightarrow> observed \<Rightarrow> int \<Rightarrow> Collector \<times> int option \<Rightarrow> Collector \<times> int option" where
  "sequence_resources deps names observed seqTTL ct =
     (let result = Evaluate (NewSequencer deps names observed (whole_seconds seqTTL));
          (c, ttl) = (if AnyDeferred result
             then (AddGatingDefers (GatingDefers result) (RemoveResources (Deferred result) (fst ct)), Some seqTTL)
             else (SetDepsConverged (fst ct), None))
      in (c\<lparr>c_cc := foldl (\<lambda>cc e. AddEvent e cc) (c_cc c) (Events result)\<rparr>, ttl))"

text \<open>The block under \<^verbatim>\<open>if len(deps) > 0\<close>; \<open>usageEnv\<close> is the environment variable, \<open>fatal\<close> is \<^verbatim>\<open>response.Fatal\<close>.\<close>

definition dependency_phase ::
  "'r sdk \<Rightarrow> (string \<Rightarrow> string + int) \<Rightarrow> string \<Rightarrow> StarlarkInputSpec \<Rightarrow> (string \<times> pstruct option) list \<Rightarrow>
     Collector \<Rightarrow> 'r RunFunctionResponse \<Rightarrow> (fn_error \<times> 'r RunFunctionResponse) + (Collector \<times> 'r RunFunctionResponse)"
where
  "dependency_phase sdk parse usageEnv spec observedResources c rsp =
     (let deps = c_dependencies c
      in if deps = [] then Inr (c, rsp)
         else
           let names = map fst (c_resources c)
           in case ValidateDependencies deps names of
                Inl e \<Rightarrow> Inl (DependencyValidation e, rsp)
              | Inr _ \<Rightarrow>
                  let rsp = rsp\<lparr>res_sdk := foldl (sdk_Warning sdk) (res_sdk rsp) (WarnUnmatchedStringRefs deps names)\<rparr>;
                      override = (if in_UsageAPIVersion spec = [] then usageEnv else in_UsageAPIVersion spec);
                      observed = map_of observedResources;
                      usages = BuildUsageResources deps (ResolveUsageAPIVersion override) (c_resources c) observed;
                      rsp = rsp\<lparr>res_core := put_usages usages (res_core rsp)\<rparr>
                  in case sequencing_ttl parse (in_SequencingTTL spec) of
                       Inl e \<Rightarrow> Inl (e, rsp)
                     | Inr seqTTL \<Rightarrow>
                         let (c, ttl) = sequence_resources deps names observed seqTTL (c, res_ttl rsp)
                         in Inr (c, rsp\<lparr>res_ttl := ttl\<rparr>))"

section \<open>After the script\<close>

definition user_ttl :: "int option \<Rightarrow> int option \<Rightarrow> int option" where
  "user_ttl userTTL ttl =
     (case userTTL of None \<Rightarrow> ttl | Some d \<Rightarrow> if d = 0 then None else Some d)"

text \<open>From \<^verbatim>\<open>ApplyResources\<close> to the end.\<close>

definition apply_phase ::
  "'r sdk \<Rightarrow> ('r \<Rightarrow> fn_error \<Rightarrow> 'r) \<Rightarrow> RunState \<Rightarrow> Collector \<Rightarrow> 'r RunFunctionResponse \<Rightarrow> 'r RunFunctionResponse" where
  "apply_phase sdk fatal run c rsp =
     (let rsp = rsp\<lparr>res_core := ApplyResources (res_core rsp) c\<rparr>
      in case ApplyDXR (res_core rsp) (run_dxr run) of
           Inl e \<Rightarrow> rsp\<lparr>res_sdk := fatal (res_sdk rsp) (ApplyingDXR e)\<rparr>
         | Inr core \<Rightarrow>
             let (core, cc) = ApplyCompositeReady core c (c_cc c)
             in case ApplyContext core (run_context run) of
                  Inl e \<Rightarrow> rsp\<lparr>res_core := core, res_sdk := fatal (res_sdk rsp) (ApplyingContext e)\<rparr>
                | Inr core \<Rightarrow>
                    rsp\<lparr>res_core := ApplyConnectionDetails core (run_conn run),
                        res_requirements := ApplyRequirements (res_requirements rsp) (rc_requirements (run_reqs run)),
                        res_sdk :=
                          sdk_Normal sdk
                            (foldl (sdk_Warning sdk)
                               (ApplyEvents sdk (ApplyConditions sdk (res_sdk rsp) (cc_conditions cc)) (cc_events cc))
                               (rc_warnings (run_reqs run)))
                            ''function-starlark: executed successfully''\<rparr>)"

text \<open>How \<^verbatim>\<open>Execute\<close> ends: normally, with \<^verbatim>\<open>fatal()\<close>, or with any other error.\<close>

datatype exec_result = ExecOk | ExecFatal string | ExecError string

definition after_execute ::
  "'r sdk \<Rightarrow> ('r \<Rightarrow> fn_error \<Rightarrow> 'r) \<Rightarrow> (string \<Rightarrow> string + int) \<Rightarrow> string \<Rightarrow> StarlarkInputSpec \<Rightarrow>
     (string \<times> pstruct option) list \<Rightarrow> exec_result \<Rightarrow> RunState \<Rightarrow> 'r RunFunctionResponse \<Rightarrow> 'r RunFunctionResponse"
where
  "after_execute sdk fatal parse usageEnv spec observedResources res run rsp =
     (case res of
        ExecFatal message \<Rightarrow>
          rsp\<lparr>res_sdk := ApplyEvents sdk
                 (ApplyConditions sdk (fatal (res_sdk rsp) (ScriptFatal message))
                    (cc_conditions (c_cc (run_collector run))))
                 (cc_events (c_cc (run_collector run))),
              res_requirements := ApplyRequirements (res_requirements rsp) (rc_requirements (run_reqs run))\<rparr>
      | ExecError e \<Rightarrow> rsp\<lparr>res_sdk := fatal (res_sdk rsp) (ExecutionFailed e)\<rparr>
      | ExecOk \<Rightarrow>
          (case dependency_phase sdk parse usageEnv spec observedResources (run_collector run) rsp of
             Inl (e, rsp) \<Rightarrow> rsp\<lparr>res_sdk := fatal (res_sdk rsp) e\<rparr>
           | Inr (c, rsp) \<Rightarrow>
               apply_phase sdk fatal run c (rsp\<lparr>res_ttl := user_ttl (run_ttl run) (res_ttl rsp)\<rparr>)))"

section \<open>The dependency phase\<close>

text \<open>What the sequencer withholds from the desired state of this run.\<close>

definition deferred_of :: "RunState \<Rightarrow> (string \<times> pstruct option) list \<Rightarrow> string list" where
  "deferred_of run observedResources =
     Deferred (Evaluate (NewSequencer (c_dependencies (run_collector run))
       (map fst (c_resources (run_collector run))) (map_of observedResources) 0))"

definition usages_of ::
  "string \<Rightarrow> StarlarkInputSpec \<Rightarrow> RunState \<Rightarrow> (string \<times> pstruct option) list \<Rightarrow> (string \<times> pstruct) list" where
  "usages_of usageEnv spec run observedResources =
     BuildUsageResources (c_dependencies (run_collector run))
       (ResolveUsageAPIVersion (if in_UsageAPIVersion spec = [] then usageEnv else in_UsageAPIVersion spec))
       (c_resources (run_collector run)) (map_of observedResources)"

text \<open>The script's dependencies are valid and the configured TTL can be read.\<close>

definition deps_accepted :: "(string \<Rightarrow> string + int) \<Rightarrow> StarlarkInputSpec \<Rightarrow> RunState \<Rightarrow> int \<Rightarrow> bool" where
  "deps_accepted parse spec run seqTTL \<longleftrightarrow>
     c_dependencies (run_collector run) = [] \<or>
     ValidateDependencies (c_dependencies (run_collector run)) (map fst (c_resources (run_collector run))) = Inr () \<and>
     sequencing_ttl parse (in_SequencingTTL spec) = Inr seqTTL"

lemma Evaluate_ttl: "Evaluate (NewSequencer deps names obs t) = Evaluate (NewSequencer deps names obs 0)"
  by (simp add: Evaluate_def NewSequencer_def Let_def)

lemma no_deps_nothing_deferred: "Deferred (Evaluate (NewSequencer [] names obs t)) = []"
  by (simp add: Evaluate_def NewSequencer_def Let_def)

lemma RemoveResources_rest:
  "c_gatingDefers (RemoveResources names c) = c_gatingDefers c"
  "c_compositeReady (RemoveResources names c) = c_compositeReady c"
  unfolding RemoveResources_def by (induction names arbitrary: c) simp_all

lemma put_usages_get:
  assumes "distinct (map fst usages)"
  shows "map_of (sp_Resources (desired_of (put_usages usages rsp))) n =
     (case map_of usages n of
        Some body \<Rightarrow> Some \<lparr>rp_Resource = Some body, rp_Ready = READY_TRUE, rp_ConnectionDetails = []\<rparr>
      | None \<Rightarrow> map_of (sp_Resources (desired_of rsp)) n)"
  using map_of_fold_update [of "\<lambda>body. \<lparr>rp_Resource = Some body, rp_Ready = READY_TRUE, rp_ConnectionDetails = []\<rparr>"
      "sp_Resources (desired_of rsp)" usages n] map_of_rev [OF assms]
  by (simp add: put_usages_def desired_of_def)

lemma put_usages_composite: "composite_of (put_usages usages rsp) = composite_of rsp"
  by (simp add: put_usages_def composite_of_def desired_of_def split: option.splits)

lemma GatingDefers_Nil_iff: "GatingDefers (Evaluate s) = [] \<longleftrightarrow> Deferred (Evaluate s) = []"
  by (simp add: GatingDefers_Evaluate)

lemma sequence_resources_fields:
  assumes "sequence_resources deps names obs seqTTL (c0, t0) = (c, ttl)"
  defines "df \<equiv> Deferred (Evaluate (NewSequencer deps names obs 0))"
  shows "map_of (c_resources c) n = (if n \<in> set df then None else map_of (c_resources c0) n)"
    and "distinct (map fst (c_resources c0)) \<Longrightarrow> distinct (map fst (c_resources c))"
    and "c_gatingSkips c = c_gatingSkips c0" "c_compositeReady c = c_compositeReady c0"
    and "c_gatingDefers c = [] \<longleftrightarrow> c_gatingDefers c0 = [] \<and> df = []"
    and "ttl = (if df \<noteq> [] then Some seqTTL else None)"
proof -
  let ?r = "Evaluate (NewSequencer deps names obs 0)"
  let ?c = "if AnyDeferred ?r then AddGatingDefers (GatingDefers ?r) (RemoveResources (Deferred ?r) c0)
      else SetDepsConverged c0"
  have c: "c = ?c\<lparr>c_cc := foldl (\<lambda>cc e. AddEvent e cc) (c_cc ?c) (Events ?r)\<rparr>"
    and ttl: "ttl = (if AnyDeferred ?r then Some seqTTL else None)"
    using assms(1) by (simp_all add: sequence_resources_def Let_def Evaluate_ttl [of _ _ _ "whole_seconds seqTTL"] split: if_splits)
  have res: "c_resources c = (if AnyDeferred ?r then c_resources (RemoveResources df c0) else c_resources c0)"
    by (simp add: c df_def AddGatingDefers_def SetDepsConverged_def)
  show "map_of (c_resources c) n = (if n \<in> set df then None else map_of (c_resources c0) n)"
    by (simp add: res map_of_RemoveResources) (simp add: df_def AnyDeferred_iff)
  show "distinct (map fst (c_resources c0)) \<Longrightarrow> distinct (map fst (c_resources c))"
    by (simp add: res RemoveResources_simps distinct_delete_all)
  show "c_gatingSkips c = c_gatingSkips c0" "c_compositeReady c = c_compositeReady c0"
    by (simp_all add: c AddGatingDefers_def SetDepsConverged_def RemoveResources_simps RemoveResources_rest)
  show "c_gatingDefers c = [] \<longleftrightarrow> c_gatingDefers c0 = [] \<and> df = []"
    by (simp add: c df_def AddGatingDefers_def SetDepsConverged_def RemoveResources_rest AnyDeferred_iff GatingDefers_Nil_iff)
  show "ttl = (if df \<noteq> [] then Some seqTTL else None)" by (simp add: ttl df_def AnyDeferred_iff)
qed

lemma dependency_phase_ok:
  assumes "deps_accepted parse spec run seqTTL"
  obtains c rsp1 where
    "dependency_phase sdk parse env spec obs (run_collector run) rsp = Inr (c, rsp1)"
    "\<And>n. map_of (c_resources c) n =
       (if n \<in> set (deferred_of run obs) then None else map_of (c_resources (run_collector run)) n)"
    "distinct (map fst (c_resources (run_collector run))) \<Longrightarrow> distinct (map fst (c_resources c))"
    "c_gatingSkips c = c_gatingSkips (run_collector run)"
    "c_compositeReady c = c_compositeReady (run_collector run)"
    "c_gatingDefers c = [] \<longleftrightarrow> c_gatingDefers (run_collector run) = [] \<and> deferred_of run obs = []"
    "\<And>n. map_of (sp_Resources (desired_of (res_core rsp1))) n =
       (case map_of (usages_of env spec run obs) n of
          Some body \<Rightarrow> Some \<lparr>rp_Resource = Some body, rp_Ready = READY_TRUE, rp_ConnectionDetails = []\<rparr>
        | None \<Rightarrow> map_of (sp_Resources (desired_of (res_core rsp))) n)"
    "composite_of (res_core rsp1) = composite_of (res_core rsp)"
    "res_ttl rsp1 = (if c_dependencies (run_collector run) = [] then res_ttl rsp
       else if deferred_of run obs \<noteq> [] then Some seqTTL else None)"
proof (cases "c_dependencies (run_collector run) = []")
  case True
  then have "deferred_of run obs = []" "usages_of env spec run obs = []"
    by (simp_all add: deferred_of_def usages_of_def BuildUsageResources_def no_deps_nothing_deferred)
  with True that [of "run_collector run" rsp] show ?thesis by (simp add: dependency_phase_def)
next
  case False
  let ?c0 = "run_collector run"
  obtain c ttl where seq: "sequence_resources (c_dependencies ?c0) (map fst (c_resources ?c0)) (map_of obs) seqTTL
      (?c0, res_ttl rsp) = (c, ttl)" by force
  note f = sequence_resources_fields [OF seq, folded deferred_of_def]
  define rsp1 where "rsp1 = rsp\<lparr>res_sdk := foldl (sdk_Warning sdk) (res_sdk rsp)
      (WarnUnmatchedStringRefs (c_dependencies ?c0) (map fst (c_resources ?c0))),
      res_core := put_usages (usages_of env spec run obs) (res_core rsp), res_ttl := ttl\<rparr>"
  have "dependency_phase sdk parse env spec obs ?c0 rsp = Inr (c, rsp1)"
    using assms False seq by (simp add: deps_accepted_def dependency_phase_def rsp1_def usages_of_def Let_def)
  moreover have "distinct (map fst (usages_of env spec run obs))"
    by (simp add: usages_of_def BuildUsageResources_def distinct_usageResources)
  moreover have "res_core rsp1 = put_usages (usages_of env spec run obs) (res_core rsp)" "res_ttl rsp1 = ttl"
    by (simp_all add: rsp1_def)
  ultimately show ?thesis
    using f False by (intro that [of c rsp1]) (simp_all add: put_usages_get put_usages_composite)
qed

section \<open>The apply phase\<close>

lemma ApplyDXR_fields:
  assumes "ApplyDXR rsp dxr = Inr rsp'"
  shows "sp_Resources (desired_of rsp') = sp_Resources (desired_of rsp)"
    and "rp_Ready (composite_of rsp') = rp_Ready (composite_of rsp)"
  using assms by (cases dxr; auto simp: ApplyDXR_def bind_res_eq_Inr)+

lemma ApplyCompositeReady_resources:
  "ApplyCompositeReady rsp c cc = (rsp', cc') \<Longrightarrow> sp_Resources (desired_of rsp') = sp_Resources (desired_of rsp)"
  by (auto simp: ApplyCompositeReady_def Let_def split: if_splits prod.splits)

lemma ApplyCompositeReady_ready:
  "ApplyCompositeReady rsp c cc = (rsp', cc') \<Longrightarrow> rp_Ready (composite_of rsp') =
     (if ov_Set (c_compositeReady c) then (if ov_Ready (c_compositeReady c) then READY_TRUE else READY_FALSE)
      else if c_gatingSkips c \<noteq> [] \<or> c_gatingDefers c \<noteq> [] then READY_FALSE
      else rp_Ready (composite_of rsp))"
  by (auto simp: ApplyCompositeReady_def Let_def split: if_splits prod.splits)

lemma ApplyContext_desired: "ApplyContext rsp ctx = Inr rsp' \<Longrightarrow> desired_of rsp' = desired_of rsp"
  by (cases ctx) (auto simp: ApplyContext_def bind_res_eq_Inr desired_of_def)

lemma ApplyConnectionDetails_fields:
  "sp_Resources (desired_of (ApplyConnectionDetails rsp cd)) = sp_Resources (desired_of rsp)"
  "rp_Ready (composite_of (ApplyConnectionDetails rsp cd)) = rp_Ready (composite_of rsp)"
  by (simp_all add: ApplyConnectionDetails_def)

lemma composite_of_desired: "desired_of rsp' = desired_of rsp \<Longrightarrow> composite_of rsp' = composite_of rsp"
  by (simp add: composite_of_def)

lemma apply_phase_resources:
  "sp_Resources (desired_of (res_core (apply_phase sdk fatal run c rsp))) =
     sp_Resources (desired_of (ApplyResources (res_core rsp) c))"
proof (cases "ApplyDXR (ApplyResources (res_core rsp) c) (run_dxr run)")
  case (Inl e)
  then show ?thesis by (simp add: apply_phase_def)
next
  case (Inr core)
  obtain core' cc where cr: "ApplyCompositeReady core c (c_cc c) = (core', cc)" by force
  note eqs = ApplyDXR_fields(1) [OF Inr] ApplyCompositeReady_resources [OF cr]
  show ?thesis
    using Inr cr eqs
    by (cases "ApplyContext core' (run_context run)")
      (simp_all add: apply_phase_def ApplyConnectionDetails_fields ApplyContext_desired)
qed

lemma apply_phase_ttl: "res_ttl (apply_phase sdk fatal run c rsp) = res_ttl rsp"
  by (simp add: apply_phase_def Let_def split: sum.splits prod.splits)

text \<open>The run reaches the end: neither the dxr nor the context fails to convert.\<close>

definition globals_convert :: "RunState \<Rightarrow> bool" where
  "globals_convert run \<longleftrightarrow>
     (\<exists>f its s. run_dxr run = SStarlarkDict f its \<and> StarlarkToStruct (run_dxr run) = Inr s) \<and>
     (\<exists>f d s. run_context run = SDict f d \<and> PlainDictToStruct d = Inr s)"

lemma apply_phase_ready:
  assumes "globals_convert run"
  shows "rp_Ready (composite_of (res_core (apply_phase sdk fatal run c rsp))) =
     (if ov_Set (c_compositeReady c) then (if ov_Ready (c_compositeReady c) then READY_TRUE else READY_FALSE)
      else if c_gatingSkips c \<noteq> [] \<or> c_gatingDefers c \<noteq> [] then READY_FALSE
      else rp_Ready (composite_of (res_core rsp)))"
proof -
  from assms obtain core where dxr: "ApplyDXR (ApplyResources (res_core rsp) c) (run_dxr run) = Inr core"
    by (auto simp: globals_convert_def ApplyDXR_def)
  obtain core' cc where cr: "ApplyCompositeReady core c (c_cc c) = (core', cc)" by force
  from assms obtain core2 where ctx: "ApplyContext core' (run_context run) = Inr core2"
    by (auto simp: globals_convert_def ApplyContext_def)
  have "composite_of core2 = composite_of core'"
    using ApplyContext_desired [OF ctx] by (rule composite_of_desired)
  with ApplyCompositeReady_ready [OF cr] ApplyDXR_fields(2) [OF dxr] show ?thesis
    by (simp add: apply_phase_def dxr cr ctx ApplyConnectionDetails_fields ApplyResources_composite)
qed

section \<open>Properties\<close>

text \<open>
  What the response asks Crossplane to create once the script has ended normally with acceptable
  dependencies: every resource of the script that the sequencer does not withhold, as the script left it;
  else the Usage of that name, marked ready; else what earlier functions of the pipeline put there. A
  withheld resource is not asked for, and nothing of the earlier functions is lost.
\<close>

theorem desired_resources:
  assumes "deps_accepted parse spec run seqTTL"
    and "distinct (map fst (c_resources (run_collector run)))"
  shows "map_of (sp_Resources (desired_of (res_core
       (after_execute sdk fatal parse env spec obs ExecOk run rsp)))) n =
     (case (if n \<in> set (deferred_of run obs) then None else map_of (c_resources (run_collector run)) n) of
        Some cr \<Rightarrow> Some (resource_proto cr)
      | None \<Rightarrow>
          (case map_of (usages_of env spec run obs) n of
             Some body \<Rightarrow> Some \<lparr>rp_Resource = Some body, rp_Ready = READY_TRUE, rp_ConnectionDetails = []\<rparr>
           | None \<Rightarrow> map_of (sp_Resources (desired_of (res_core rsp))) n))"
proof -
  obtain c rsp1 where dep: "dependency_phase sdk parse env spec obs (run_collector run) rsp = Inr (c, rsp1)"
    and res: "map_of (c_resources c) n =
      (if n \<in> set (deferred_of run obs) then None else map_of (c_resources (run_collector run)) n)"
    and dist: "distinct (map fst (c_resources c))"
    and use: "map_of (sp_Resources (desired_of (res_core rsp1))) n =
       (case map_of (usages_of env spec run obs) n of
          Some body \<Rightarrow> Some \<lparr>rp_Resource = Some body, rp_Ready = READY_TRUE, rp_ConnectionDetails = []\<rparr>
        | None \<Rightarrow> map_of (sp_Resources (desired_of (res_core rsp))) n)"
    using dependency_phase_ok [OF assms(1)] assms(2) by metis
  show ?thesis
    unfolding res [symmetric] use [symmetric]
    by (simp add: after_execute_def dep apply_phase_resources ApplyResources_get [OF dist])
qed

text \<open>
  When the composite is reported ready by this function. An explicit \<^verbatim>\<open>set_composite_ready\<close> decides.
  Without it, a required resource that was skipped or any resource withheld for a dependency makes the
  composite not ready, and otherwise the readiness set by earlier functions stays.
\<close>

theorem composite_readiness:
  assumes "deps_accepted parse spec run seqTTL" and "globals_convert run"
    and "c_gatingDefers (run_collector run) = []"
  shows "rp_Ready (composite_of (res_core (after_execute sdk fatal parse env spec obs ExecOk run rsp))) =
     (let override = c_compositeReady (run_collector run)
      in if ov_Set override then (if ov_Ready override then READY_TRUE else READY_FALSE)
         else if c_gatingSkips (run_collector run) \<noteq> [] \<or> deferred_of run obs \<noteq> [] then READY_FALSE
         else rp_Ready (composite_of (res_core rsp)))"
proof -
  obtain c rsp1 where dep: "dependency_phase sdk parse env spec obs (run_collector run) rsp = Inr (c, rsp1)"
    and f: "c_gatingSkips c = c_gatingSkips (run_collector run)"
      "c_compositeReady c = c_compositeReady (run_collector run)"
      "c_gatingDefers c = [] \<longleftrightarrow> c_gatingDefers (run_collector run) = [] \<and> deferred_of run obs = []"
    and comp: "composite_of (res_core rsp1) = composite_of (res_core rsp)"
    using dependency_phase_ok [OF assms(1)] by metis
  show ?thesis
    by (simp add: after_execute_def dep apply_phase_ready [OF assms(2)] f comp assms(3) Let_def)
qed

text \<open>
  The response TTL: a TTL set by the script wins (zero clears it); otherwise the sequencing TTL
  applies while a resource is withheld, it is cleared once all dependencies are satisfied, and a script
  without dependencies keeps the default.
\<close>

theorem response_ttl:
  assumes "deps_accepted parse spec run seqTTL"
  shows "res_ttl (after_execute sdk fatal parse env spec obs ExecOk run rsp) =
     (case run_ttl run of
        Some d \<Rightarrow> if d = 0 then None else Some d
      | None \<Rightarrow>
          if c_dependencies (run_collector run) = [] then res_ttl rsp
          else if deferred_of run obs \<noteq> [] then Some seqTTL
          else None)"
proof -
  obtain c rsp1 where dep: "dependency_phase sdk parse env spec obs (run_collector run) rsp = Inr (c, rsp1)"
    and ttl: "res_ttl rsp1 = (if c_dependencies (run_collector run) = [] then res_ttl rsp
       else if deferred_of run obs \<noteq> [] then Some seqTTL else None)"
    using dependency_phase_ok [OF assms] by metis
  show ?thesis
    by (simp add: after_execute_def dep apply_phase_ttl ttl user_ttl_def split: option.splits)
qed

text \<open>
  A run that ends with an error of the script, with \<^verbatim>\<open>fatal()\<close>, or with unacceptable dependencies leaves
  the desired state of the earlier functions, the context and the TTL as they came.
\<close>

theorem failed_run_keeps_state:
  assumes "res \<noteq> ExecOk \<or>
     c_dependencies (run_collector run) \<noteq> [] \<and>
     ValidateDependencies (c_dependencies (run_collector run)) (map fst (c_resources (run_collector run))) \<noteq> Inr ()"
  shows "res_core (after_execute sdk fatal parse env spec obs res run rsp) = res_core rsp \<and>
     res_ttl (after_execute sdk fatal parse env spec obs res run rsp) = res_ttl rsp"
proof (cases res)
  case ExecOk
  with assms obtain e where "ValidateDependencies (c_dependencies (run_collector run))
      (map fst (c_resources (run_collector run))) = Inl e" and "c_dependencies (run_collector run) \<noteq> []"
    by (cases "ValidateDependencies (c_dependencies (run_collector run)) (map fst (c_resources (run_collector run)))") auto
  then show ?thesis by (simp add: after_execute_def ExecOk dependency_phase_def Let_def)
qed (simp_all add: after_execute_def)

subsection \<open>An input and an SDK\<close>

definition ex_spec :: StarlarkInputSpec where
  "ex_spec = \<lparr>in_Source = ''x'', in_ScriptConfigRef = None, in_UsageAPIVersion = [], in_Modules = [],
     in_ModulePaths = [], in_DockerConfigSecret = [], in_DockerConfigCredential = [], in_OCIDefaultRegistry = [],
     in_OCIInsecureRegistries = [], in_SequencingTTL = []\<rparr>"

text \<open>An SDK that collects the messages.\<close>

definition ex_sdk :: "string list sdk" where
  "ex_sdk = \<lparr>sdk_ConditionTrue = (\<lambda>r t _. r @ [t]), sdk_ConditionFalse = (\<lambda>r t _. r @ [t]),
     sdk_ConditionUnknown = (\<lambda>r t _. r @ [t]), sdk_WithMessage = (\<lambda>r m. r @ [m]),
     sdk_ConditionTargetCompositeAndClaim = id, sdk_Normal = (\<lambda>r m. r @ [m]), sdk_Warning = (\<lambda>r m. r @ [m]),
     sdk_ResultTargetCompositeAndClaim = id\<rparr>"

end
