(* ===== verification/ScriptRuntime.thy ===== *)
theory ScriptRuntime
  imports Starlark
begin

text \<open>
  The runtime (\<^verbatim>\<open>runtime/runtime.go\<close>): compiling with a bytecode cache, the memo of sources without star
  imports, and running a program under the step limit. The interpreter is a parameter. A compiled
  program is what \<^verbatim>\<open>Program.Init\<close> does with it: starting from the state of the outside world (the collectors
  that the builtins write to), it stops with a result or calls \<^verbatim>\<open>Thread.Load\<close> and goes on with the answer.
\<close>

section \<open>Programs\<close>

type_synonym globals = "(string \<times> sval) list"

text \<open>
  A Go error, as far as the code looks at it: its message, and the message of the \<^verbatim>\<open>FatalError\<close> in its chain, if
  the builtin \<^verbatim>\<open>fatal()\<close> is at its origin. \<open>wrap_go\<close> is \<^verbatim>\<open>fmt.Errorf\<close> with a prefix and \<^verbatim>\<open>%w\<close>.
\<close>

datatype go_error = GoErr (err_msg: string) (err_fatal: "string option")

definition fail :: "string \<Rightarrow> go_error" where
  "fail msg = GoErr msg None"

definition wrap_go :: "string \<Rightarrow> go_error \<Rightarrow> go_error" where
  "wrap_go prefix e = GoErr (prefix @ err_msg e) (err_fatal e)"

text \<open>How an execution ends: the globals, the step limit, an \<^verbatim>\<open>EvalError\<close> with its backtrace, or another error.\<close>

datatype exec_end =
    EndOk globals
  | EndStepLimit
  | EndEvalError string go_error
  | EndOther go_error

datatype 'w run =
    Halt exec_end 'w
  | LoadCall string 'w "go_error + globals \<Rightarrow> 'w \<Rightarrow> 'w run"

type_synonym 'w program = "'w \<Rightarrow> 'w run"

text \<open>
  The interpreter: \<open>compile\<close> gets the names that are predeclared, the file name and the source; \<open>hash\<close> is
  BLAKE3-256 in hexadecimal.
\<close>

record 'w interpreter =
  ip_compile :: "string list \<Rightarrow> string \<Rightarrow> string \<Rightarrow> string + 'w program"
  ip_hash :: "string \<Rightarrow> string"

record 'w Runtime =
  rt_cache :: "string \<Rightarrow> 'w program option"
  rt_noStarImports :: "string \<Rightarrow> bool"

definition NewRuntime :: "'w Runtime" where
  "NewRuntime = \<lparr>rt_cache = (\<lambda>_. None), rt_noStarImports = (\<lambda>_. False)\<rparr>"

definition maxSteps :: nat where
  "maxSteps = 1000000"

text \<open>The dialect of Starlark that scripts and modules are compiled in.\<close>

record FileOptions =
  TopLevelControl :: bool
  SetType :: bool
  While :: bool
  GlobalReassign :: bool
  Recursion :: bool

definition fileOptions :: FileOptions where
  "fileOptions = \<lparr>TopLevelControl = True, SetType = True, While = True, GlobalReassign = True, Recursion = False\<rparr>"

section \<open>Caches\<close>

text \<open>The separator is a NUL byte.\<close>

definition cache_key :: "string \<Rightarrow> string \<Rightarrow> string" where
  "cache_key source filename = source @ CHR 0x00 # filename"

definition starScanKey :: "'w interpreter \<Rightarrow> string \<Rightarrow> string \<Rightarrow> string" where
  "starScanKey ip source filename = ip_hash ip (cache_key source filename)"

definition hasNoStarImports :: "string \<Rightarrow> 'w Runtime \<Rightarrow> bool" where
  "hasNoStarImports key rt = rt_noStarImports rt key"

definition markNoStarImports :: "string \<Rightarrow> 'w Runtime \<Rightarrow> 'w Runtime" where
  "markNoStarImports key rt = rt\<lparr>rt_noStarImports := (rt_noStarImports rt)(key := True)\<rparr>"

definition getOrCompile ::
  "'w interpreter \<Rightarrow> string \<Rightarrow> string list \<Rightarrow> string \<Rightarrow> 'w Runtime \<Rightarrow> (string + 'w program) \<times> 'w Runtime" where
  "getOrCompile ip source predeclared filename rt =
     (let key = ip_hash ip (cache_key source filename) in
      case rt_cache rt key of
        Some prog \<Rightarrow> (Inr prog, rt)
      | None \<Rightarrow>
          (case ip_compile ip predeclared filename source of
             Inl e \<Rightarrow> (Inl e, rt)
           | Inr prog \<Rightarrow> (Inr prog, rt\<lparr>rt_cache := (rt_cache rt)(key := Some prog)\<rparr>)))"

definition CacheLen :: "'w Runtime \<Rightarrow> nat" where
  "CacheLen rt = card (dom (rt_cache rt))"

section \<open>Execution\<close>

text \<open>
  \<^verbatim>\<open>Program.Init\<close> with a load function, which may fail to return (\<open>None\<close>); \<open>'s\<close> is the state of the loader and
  \<open>get\<close>/\<open>put\<close> access the outside world in it.
\<close>

primrec run_program ::
  "(string \<Rightarrow> 's \<Rightarrow> ((go_error + globals) \<times> 's) option) \<Rightarrow> ('s \<Rightarrow> 'w) \<Rightarrow> ('w \<Rightarrow> 's \<Rightarrow> 's) \<Rightarrow>
     'w run \<Rightarrow> 's \<Rightarrow> (exec_end \<times> 's) option" where
  "run_program ld get put (Halt r w) s = Some (r, put w s)"
| "run_program ld get put (LoadCall md w k) s =
     (case ld md (put w s) of
        None \<Rightarrow> None
      | Some (res, s') \<Rightarrow> run_program ld get put (k res (get s')) s')"

text \<open>The errors of \<^verbatim>\<open>Execute\<close>; \<open>load_stub\<close> is the load function when there is no loader.\<close>

definition execute_result :: "exec_end \<Rightarrow> go_error + globals" where
  "execute_result r =
     (case r of
        EndOk g \<Rightarrow> Inr g
      | EndStepLimit \<Rightarrow>
          Inl (fail (''starlark script exceeded execution limit ('' @ show_nat maxSteps @ '' steps): possible infinite loop''))
      | EndEvalError bt e \<Rightarrow> Inl (wrap_go (''starlark execution error: '' @ bt @ '': '') e)
      | EndOther e \<Rightarrow> Inl (wrap_go ''starlark execution error: '' e))"

definition load_stub :: "string \<Rightarrow> 's \<Rightarrow> ((go_error + globals) \<times> 's) option" where
  "load_stub md s = Some (Inl (fail ''load() is not supported -- define helpers with def in the same script''), s)"

text \<open>\<^verbatim>\<open>Execute\<close>, with the load function or none, on a state that holds the runtime and the outside world.\<close>

definition Execute ::
  "'w interpreter \<Rightarrow> string \<Rightarrow> string list \<Rightarrow> string \<Rightarrow> (string \<Rightarrow> 's \<Rightarrow> ((go_error + globals) \<times> 's) option) option \<Rightarrow>
     ('s \<Rightarrow> 'w Runtime) \<Rightarrow> ('w Runtime \<Rightarrow> 's \<Rightarrow> 's) \<Rightarrow> ('s \<Rightarrow> 'w) \<Rightarrow> ('w \<Rightarrow> 's \<Rightarrow> 's) \<Rightarrow> 's \<Rightarrow>
     ((go_error + globals) \<times> 's) option" where
  "Execute ip source predeclared filename loadFn get_rt put_rt get put s =
     (case getOrCompile ip source predeclared filename (get_rt s) of
        (Inl e, rt) \<Rightarrow> Some (Inl (fail (''starlark compilation error: '' @ e)), put_rt rt s)
      | (Inr prog, rt) \<Rightarrow>
          let s = put_rt rt s; ld = (case loadFn of Some f \<Rightarrow> f | None \<Rightarrow> load_stub) in
          (case run_program ld get put (prog (get s)) s of
             None \<Rightarrow> None
           | Some (r, s) \<Rightarrow> Some (execute_result r, s)))"

section \<open>The bytecode cache is transparent\<close>

lemma cache_key_inj:
  assumes "cache_key s f = cache_key s' f'" and "CHR 0x00 \<notin> set f" and "CHR 0x00 \<notin> set f'"
  shows "s = s' \<and> f = f'"
proof -
  have rev_key: "rev (cache_key u g) = rev g @ CHR 0x00 # rev u" for u g by (simp add: cache_key_def)
  have tail: "takeWhile (\<lambda>c. c \<noteq> CHR 0x00) (rev (cache_key u g)) = rev g" if "CHR 0x00 \<notin> set g" for u g
    using that unfolding rev_key by (subst takeWhile_append2) auto
  from tail [OF assms(2)] tail [OF assms(3)] assms(1) have "f = f'" by (metis rev_rev_ident)
  then show ?thesis using assms(1) by (simp add: cache_key_def)
qed

text \<open>A sequence of requests to compile, each a source and a file name.\<close>

definition compile_all ::
  "'w interpreter \<Rightarrow> string list \<Rightarrow> (string \<times> string) list \<Rightarrow> 'w Runtime \<Rightarrow> 'w Runtime" where
  "compile_all ip names reqs rt = fold (\<lambda>(source, filename) rt. snd (getOrCompile ip source names filename rt)) reqs rt"

text \<open>A request adds at most one program, and the cache never shrinks.\<close>

lemma CacheLen_step:
  assumes "finite (dom (rt_cache rt))" and "getOrCompile ip source names filename rt = (r, rt')"
  shows "finite (dom (rt_cache rt')) \<and> CacheLen rt \<le> CacheLen rt' \<and> CacheLen rt' \<le> CacheLen rt + 1"
proof -
  have "dom (rt_cache rt') = dom (rt_cache rt) \<or> (\<exists>key. dom (rt_cache rt') = insert key (dom (rt_cache rt)))"
    using assms(2) by (auto simp: getOrCompile_def Let_def split: option.splits sum.splits)
  then show ?thesis using assms(1) card_insert_le card_insert_le_m1
    by (auto simp: CacheLen_def card_insert_if)
qed

lemma CacheLen_bounded:
  "finite (dom (rt_cache rt)) \<Longrightarrow> CacheLen (compile_all ip names reqs rt) \<le> CacheLen rt + length reqs"
proof (induction reqs arbitrary: rt)
  case (Cons r reqs)
  obtain source filename where r: "r = (source, filename)" by (cases r)
  obtain x rt' where g: "getOrCompile ip source names filename rt = (x, rt')" by force
  note step = CacheLen_step [OF Cons.prems g]
  with Cons.IH [of rt'] show ?case by (auto simp: compile_all_def r g)
qed (simp add: compile_all_def)

text \<open>Every cached program is what compiling one of the requests gave.\<close>

definition cache_sound ::
  "'w interpreter \<Rightarrow> string list \<Rightarrow> (string \<times> string) set \<Rightarrow> 'w Runtime \<Rightarrow> bool" where
  "cache_sound ip names reqs rt \<longleftrightarrow>
     (\<forall>key prog. rt_cache rt key = Some prog \<longrightarrow>
        (\<exists>source filename. (source, filename) \<in> reqs \<and> key = ip_hash ip (cache_key source filename) \<and>
           ip_compile ip names filename source = Inr prog))"

lemma cache_sound_step:
  "cache_sound ip names reqs rt \<Longrightarrow> (source, filename) \<in> reqs \<Longrightarrow>
     cache_sound ip names reqs (snd (getOrCompile ip source names filename rt))"
  unfolding cache_sound_def getOrCompile_def Let_def
  by (auto split: option.splits sum.splits if_splits)

lemma cache_sound_answer:
  assumes "inj_on (ip_hash ip) ((\<lambda>(s, f). cache_key s f) ` R)" and "\<forall>(s, f) \<in> R. CHR 0x00 \<notin> set f"
    and "cache_sound ip names R rt" and "(source, filename) \<in> R"
  shows "fst (getOrCompile ip source names filename rt) = ip_compile ip names filename source"
proof (cases "rt_cache rt (ip_hash ip (cache_key source filename))")
  case None
  then show ?thesis by (auto simp: getOrCompile_def split: sum.splits)
next
  case (Some prog)
  with assms(3) obtain s f where sf: "(s, f) \<in> R" "ip_hash ip (cache_key source filename) = ip_hash ip (cache_key s f)"
    "ip_compile ip names f s = Inr prog"
    unfolding cache_sound_def by blast
  then have "cache_key source filename = cache_key s f" using inj_onD [OF assms(1) sf(2)] assms(4) by force
  then have "source = s \<and> filename = f" using assms(2,4) sf(1) by (intro cache_key_inj) auto
  with sf(3) Some show ?thesis by (simp add: getOrCompile_def)
qed

lemma runtime_memo:
  "inj_on (ip_hash ip) ((\<lambda>(s, f). cache_key s f) ` R) \<Longrightarrow> \<forall>(s, f) \<in> R. CHR 0x00 \<notin> set f \<Longrightarrow>
     memo (\<lambda>(source, filename). getOrCompile ip source names filename)
       (\<lambda>(source, filename). ip_compile ip names filename source) R (cache_sound ip names R)"
  by unfold_locales (auto intro: cache_sound_answer cache_sound_step)

section \<open>Properties\<close>

text \<open>
  The bytecode cache never changes what a source compiles to: after any requests with the same predeclared
  names, a source under a file name is answered with the result of compiling it, as long as no two of
  the cache keys collide and file names have no NUL byte.
\<close>

theorem bytecode_cache_transparent:
  assumes "inj_on (ip_hash ip) ((\<lambda>(s, f). cache_key s f) ` set ((source, filename) # reqs))"
    and "\<forall>(s, f) \<in> set ((source, filename) # reqs). CHR 0x00 \<notin> set f"
  shows "fst (getOrCompile ip source names filename (compile_all ip names reqs NewRuntime)) =
     ip_compile ip names filename source"
proof -
  let ?R = "set ((source, filename) # reqs)"
  have "cache_sound ip names ?R NewRuntime" by (simp add: cache_sound_def NewRuntime_def)
  from memo.transparent [OF runtime_memo [OF assms] this, of reqs "(source, filename)"]
  show ?thesis by (auto simp: compile_all_def case_prod_unfold)
qed

end
