(* ===== verification/GoPath.thy ===== *)
theory GoPath
  imports Prelude
begin

text \<open>
  The functions of Go's \<^verbatim>\<open>path\<close> and \<^verbatim>\<open>path/filepath\<close> packages (on Unix) that the module loader, the
  OCI resolver and \<^verbatim>\<open>fn.go\<close> use to build and check file names, and the fact on which every check
  against path traversal rests: joining a directory with a local path stays below the directory.
\<close>

section \<open>Clean, Base, Dir, Join, IsAbs, IsLocal\<close>

text \<open>
  \<^verbatim>\<open>Clean\<close> works on the segments between slashes: empty segments and \<open>.\<close> are dropped, \<open>..\<close> removes
  the segment before it; at the root it disappears, and at the start of a relative path it stays.
  The stack holds the segments of the result, last one first.
\<close>

definition clean_step :: "bool \<Rightarrow> string \<Rightarrow> string list \<Rightarrow> string list" where
  "clean_step rooted seg stack =
     (if seg = [] \<or> seg = ''.'' then stack
      else if seg = ''..'' then
        (case stack of
           [] \<Rightarrow> if rooted then [] else [''..'']
         | s # rest \<Rightarrow> if s = ''..'' then ''..'' # stack else rest)
      else seg # stack)"

definition clean_segs :: "bool \<Rightarrow> string list \<Rightarrow> string list \<Rightarrow> string list" where
  "clean_segs rooted segs stack = fold (clean_step rooted) segs stack"

definition IsAbs :: "string \<Rightarrow> bool" where
  "IsAbs p \<longleftrightarrow> has_prefix p ''/''"

definition path_segs :: "string \<Rightarrow> string list" where
  "path_segs p = rev (clean_segs (IsAbs p) (split_on (CHR ''/'') p) [])"

definition Clean :: "string \<Rightarrow> string" where
  "Clean p =
     (let out = (if IsAbs p then ''/'' else []) @ join ''/'' (path_segs p)
      in if out = [] then ''.'' else out)"

text \<open>\<^verbatim>\<open>Base\<close> and \<^verbatim>\<open>Dir\<close>.\<close>

definition path_Base :: "string \<Rightarrow> string" where
  "path_Base p =
     (if p = [] then ''.''
      else let q = trim_right p ''/'' in
        if q = [] then ''/'' else last (split_on (CHR ''/'') q))"

definition path_Dir :: "string \<Rightarrow> string" where
  "path_Dir p =
     Clean (case last_index_of p ''/'' of None \<Rightarrow> [] | Some i \<Rightarrow> take (Suc i) p)"

text \<open>\<^verbatim>\<open>Join\<close> ignores empty elements.\<close>

definition path_Join :: "string list \<Rightarrow> string" where
  "path_Join elems =
     (case filter (\<lambda>e. e \<noteq> []) elems of [] \<Rightarrow> [] | es \<Rightarrow> Clean (join ''/'' es))"

definition IsLocal :: "string \<Rightarrow> bool" where
  "IsLocal p \<longleftrightarrow>
     \<not> IsAbs p \<and> p \<noteq> [] \<and>
     (let segs = split_on (CHR ''/'') p;
          q = (if ''.'' \<in> set segs \<or> ''..'' \<in> set segs then Clean p else p)
      in q \<noteq> ''..'' \<and> \<not> has_prefix q ''../'')"

section \<open>Local paths stay below the directory\<close>

lemma clean_segs_simps [simp]:
  "clean_segs rooted [] stack = stack"
  "clean_segs rooted (seg # segs) stack = clean_segs rooted segs (clean_step rooted seg stack)"
  "clean_segs rooted (segs @ segs') stack = clean_segs rooted segs' (clean_segs rooted segs stack)"
  by (simp_all add: clean_segs_def)

text \<open>Only leading segments of a relative path can be \<open>..\<close>.\<close>

definition dots_last :: "string list \<Rightarrow> bool" where
  "dots_last stack \<longleftrightarrow> (\<exists>names n. stack = names @ replicate n ''..'' \<and> ''..'' \<notin> set names)"

lemma dots_lastI: "''..'' \<notin> set names \<Longrightarrow> dots_last (names @ replicate n ''..'')"
  by (auto simp: dots_last_def)

lemma clean_step_dots_last:
  assumes "dots_last stack" shows "dots_last (clean_step rooted seg stack)"
proof -
  from assms obtain names n where s: "stack = names @ replicate n ''..''" "''..'' \<notin> set names"
    by (auto simp: dots_last_def)
  have up: "dots_last (clean_step rooted ''..'' stack)"
  proof (cases names)
    case Nil
    then show ?thesis using s dots_lastI [of "[]" "Suc n"] dots_lastI [of "[]" "Suc 0"] dots_lastI [of "[]" 0]
      by (cases n) (auto simp: clean_step_def)
  next
    case (Cons a as)
    then show ?thesis using s dots_lastI [of as n] by (auto simp: clean_step_def)
  qed
  have other: "dots_last (seg # stack)" if "seg \<noteq> ''..''"
    using s that dots_lastI [of "seg # names" n] by auto
  show ?thesis using up other assms by (simp add: clean_step_def)
qed

lemma clean_segs_dots_last: "dots_last stack \<Longrightarrow> dots_last (clean_segs rooted segs stack)"
  by (induction segs arbitrary: stack) (auto intro: clean_step_dots_last)

text \<open>
  Running a relative path on top of a stack: as long as it does not climb above its start, it only
  touches its own segments.
\<close>

lemma clean_segs_above:
  assumes "''..'' \<notin> set (clean_segs False segs stack)" and "''..'' \<notin> set stack"
  shows "clean_segs rooted segs (stack @ base) = clean_segs False segs stack @ base"
proof -
  have stays: "''..'' \<in> set (clean_segs False xs st)" if "''..'' \<in> set st" "dots_last st" for xs st
    using that
  proof (induction xs arbitrary: st)
    case (Cons x xs)
    have "''..'' \<in> set (clean_step False x st)"
    proof -
      obtain names n where s: "st = names @ replicate n ''..''" "''..'' \<notin> set names"
        using Cons.prems by (auto simp: dots_last_def)
      with Cons.prems have "n > 0" by (cases n) auto
      then show ?thesis using s by (cases names; cases n) (auto simp: clean_step_def)
    qed
    then show ?case using Cons.IH Cons.prems(2) clean_step_dots_last by simp
  qed simp
  show ?thesis using assms
  proof (induction segs arbitrary: stack)
    case (Cons x xs)
    have dl: "dots_last stack" using Cons.prems(2) dots_lastI [of stack 0] by simp
    have no: "''..'' \<notin> set (clean_step False x stack)"
      using stays [of "clean_step False x stack" xs] clean_step_dots_last [OF dl] Cons.prems(1) by auto
    have "clean_step rooted x (stack @ base) = clean_step False x stack @ base"
      using no Cons.prems(2) by (cases stack) (auto simp: clean_step_def)
    then show ?case using Cons.IH [of "clean_step False x stack"] Cons.prems(1) no by simp
  qed simp
qed

lemma path_segs_nonempty: "s \<in> set (path_segs p) \<Longrightarrow> s \<noteq> [] \<and> s \<noteq> ''.'' \<and> CHR ''/'' \<notin> set s"
proof -
  have "s \<noteq> [] \<and> s \<noteq> ''.'' \<and> CHR ''/'' \<notin> set s"
    if "s \<in> set (clean_segs r segs stack)"
      "\<And>x. x \<in> set segs \<Longrightarrow> CHR ''/'' \<notin> set x"
      "\<And>x. x \<in> set stack \<Longrightarrow> x \<noteq> [] \<and> x \<noteq> ''.'' \<and> CHR ''/'' \<notin> set x" for r segs stack
    using that
  proof (induction segs arbitrary: stack)
    case (Cons x xs)
    show ?case
    proof (rule Cons.IH)
      show "s \<in> set (clean_segs r xs (clean_step r x stack))" using Cons.prems(1) by simp
      show "\<And>y. y \<in> set xs \<Longrightarrow> CHR ''/'' \<notin> set y" using Cons.prems(2) by simp
      fix y assume y: "y \<in> set (clean_step r x stack)"
      have "y = ''..'' \<or> y \<in> set stack \<or> (y = x \<and> x \<noteq> [] \<and> x \<noteq> ''.'')"
        using y by (auto simp: clean_step_def split: if_splits list.splits)
      then show "y \<noteq> [] \<and> y \<noteq> ''.'' \<and> CHR ''/'' \<notin> set y" using Cons.prems by auto
    qed
  qed auto
  then show "s \<in> set (path_segs p) \<Longrightarrow> s \<noteq> [] \<and> s \<noteq> ''.'' \<and> CHR ''/'' \<notin> set s"
    unfolding path_segs_def by (metis empty_iff list.set(1) set_rev split_on_no_sep)
qed

text \<open>A cleaned path has \<open>..\<close> at the front of a relative path only, so cleaning it again changes nothing.\<close>

definition stack_ok :: "bool \<Rightarrow> string list \<Rightarrow> bool" where
  "stack_ok rooted stack \<longleftrightarrow>
     dots_last stack \<and> (rooted \<longrightarrow> ''..'' \<notin> set stack) \<and> [] \<notin> set stack \<and> ''.'' \<notin> set stack"

lemma dots_last_Cons: "dots_last (s # st) \<Longrightarrow> dots_last st \<and> (s = ''..'' \<longrightarrow> set st \<subseteq> {''..''})"
proof -
  assume "dots_last (s # st)"
  then obtain names n where e: "s # st = names @ replicate n ''..''" "''..'' \<notin> set names"
    by (auto simp: dots_last_def)
  show ?thesis
  proof (cases names)
    case Nil
    then obtain m where "n = Suc m" using e by (cases n) auto
    then show ?thesis using e Nil dots_lastI [of "[]" m] by auto
  next
    case (Cons a as)
    then show ?thesis using e dots_lastI [of as n] by auto
  qed
qed

lemma clean_step_stack_ok: "stack_ok r st \<Longrightarrow> stack_ok r (clean_step r seg st)"
  using clean_step_dots_last [of st r seg]
  by (auto simp: stack_ok_def clean_step_def split: if_splits list.splits)

lemma clean_segs_stack_ok: "stack_ok r st \<Longrightarrow> stack_ok r (clean_segs r segs st)"
  by (induction segs arbitrary: st) (auto intro: clean_step_stack_ok)

lemma stack_ok_Nil [simp]: "stack_ok r []"
  using dots_lastI [of "[]" 0] by (simp add: stack_ok_def)

lemma clean_segs_rev: "stack_ok r st \<Longrightarrow> clean_segs r (rev st) [] = st"
proof (induction st)
  case (Cons s st)
  then have dl: "dots_last st" "s = ''..'' \<longrightarrow> set st \<subseteq> {''..''}" "s \<noteq> []" "s \<noteq> ''.''"
    using dots_last_Cons [of s st] by (auto simp: stack_ok_def)
  with Cons have "clean_segs r (rev st) [] = st" by (simp add: stack_ok_def)
  then show ?case using dl Cons.prems
    by (cases st) (auto simp: clean_step_def stack_ok_def)
qed simp

lemma stack_ok_path_segs: "stack_ok (IsAbs p) (rev (path_segs p))"
  by (simp add: path_segs_def clean_segs_stack_ok)

lemma path_segs_abs: "CHR ''/'' # p = q \<Longrightarrow> path_segs q = rev (clean_segs True (split_on (CHR ''/'') p) [])"
  by (auto simp: path_segs_def IsAbs_def has_prefix_def clean_step_def)

lemma split_path_segs:
  "path_segs p \<noteq> [] \<Longrightarrow> split_on (CHR ''/'') (join ''/'' (path_segs p)) = path_segs p"
  by (rule split_on_join) (use path_segs_nonempty in auto)

lemma IsAbs_join: "\<not> IsAbs (join ''/'' (path_segs p))"
proof (cases "path_segs p")
  case (Cons s ss)
  then have s: "s \<noteq> []" "CHR ''/'' \<notin> set s" using path_segs_nonempty [of s p] by auto
  then show ?thesis using Cons by (cases s; cases ss) (auto simp: IsAbs_def has_prefix_def)
qed (simp add: IsAbs_def has_prefix_def)

lemma IsAbs_Clean [simp]: "IsAbs (Clean p) \<longleftrightarrow> IsAbs p"
  using IsAbs_join [of p] by (auto simp: Clean_def Let_def IsAbs_def has_prefix_def)

lemma path_segs_Clean [simp]: "path_segs (Clean p) = path_segs p"
proof (cases "path_segs p = []")
  case True
  then show ?thesis by (auto simp: Clean_def path_segs_def IsAbs_def has_prefix_def clean_step_def)
next
  case False
  have ok: "clean_segs (IsAbs p) (path_segs p) [] = rev (path_segs p)"
    using clean_segs_rev [OF stack_ok_path_segs [of p]] by simp
  show ?thesis
  proof (cases "IsAbs p")
    case True
    then have "Clean p = CHR ''/'' # join ''/'' (path_segs p)" by (simp add: Clean_def)
    then show ?thesis using ok True split_path_segs [OF False] path_segs_abs [of "join ''/'' (path_segs p)"]
      by simp
  next
    case rel: False
    have ne: "join ''/'' (path_segs p) \<noteq> []"
    proof
      assume "join ''/'' (path_segs p) = []"
      then have "[] \<in> set (path_segs p)" using split_path_segs [OF False] by (metis list.set_intros(1) split_on.simps(1))
      then show False using path_segs_nonempty by blast
    qed
    then have "Clean p = join ''/'' (path_segs p)" using rel by (simp add: Clean_def)
    then show ?thesis using ok rel IsAbs_join [of p] split_path_segs [OF False]
      by (simp add: path_segs_def)
  qed
qed

text \<open>
  The names that a local path consists of: none of them is \<open>..\<close>, so the path never climbs.
\<close>

lemma IsLocal_segs: "IsLocal p \<Longrightarrow> ''..'' \<notin> set (path_segs p) \<and> \<not> IsAbs p \<and> p \<noteq> []"
proof -
  assume loc: "IsLocal p"
  then have rel: "\<not> IsAbs p" "p \<noteq> []" by (auto simp: IsLocal_def)
  have "''..'' \<notin> set (path_segs p)"
  proof (cases "''.'' \<in> set (split_on (CHR ''/'') p) \<or> ''..'' \<in> set (split_on (CHR ''/'') p)")
    case True
    then have q: "Clean p \<noteq> ''..''" "\<not> has_prefix (Clean p) ''../''" using loc by (auto simp: IsLocal_def)
    show ?thesis
    proof
      assume dd: "''..'' \<in> set (path_segs p)"
      from stack_ok_path_segs [of p] obtain names n
        where e: "rev (path_segs p) = names @ replicate n ''..''" "''..'' \<notin> set names"
        by (auto simp: stack_ok_def dots_last_def)
      have n: "n \<noteq> 0" using e dd by (metis append_Nil2 replicate_0 set_rev)
      have "path_segs p = rev (names @ replicate n ''..'')" using e(1) by (metis rev_rev_ident)
      also have "\<dots> = ''..'' # replicate (n - 1) ''..'' @ rev names" using n by (cases n) (auto simp: replicate_append_same)
      finally obtain ss where "path_segs p = ''..'' # ss" by blast
      then show False using q rel by (cases ss) (auto simp: Clean_def has_prefix_def)
    qed
  next
    case False
    have no: "''..'' \<notin> set (clean_segs r segs st)" if "''..'' \<notin> set segs" "''..'' \<notin> set st" for r segs st
      using that by (induction segs arbitrary: st) (auto simp: clean_step_def)
    from False show ?thesis unfolding path_segs_def using no [of "split_on (CHR ''/'') p" "[]"] by simp
  qed
  with rel show ?thesis by simp
qed

lemma split_on_concat: "split_on sep (p @ sep # q) = split_on sep p @ split_on sep q"
  by (induction p) (auto split: list.splits)

lemma Join_IsLocal:
  assumes "IsLocal rel" and "dir \<noteq> []"
  shows "path_segs (path_Join [dir, rel]) = path_segs dir @ path_segs rel"
    and "IsAbs (path_Join [dir, rel]) \<longleftrightarrow> IsAbs dir" and "''..'' \<notin> set (path_segs rel)"
proof -
  note loc = IsLocal_segs [OF assms(1)]
  have j: "path_Join [dir, rel] = Clean (dir @ CHR ''/'' # rel)"
    using assms(2) loc by (simp add: path_Join_def)
  have abs: "IsAbs (dir @ CHR ''/'' # rel) = IsAbs dir"
    using assms(2) by (cases dir) (auto simp: IsAbs_def has_prefix_def)
  have "clean_segs (IsAbs dir) (split_on (CHR ''/'') rel) ([] @ rev (path_segs dir)) =
      clean_segs False (split_on (CHR ''/'') rel) [] @ rev (path_segs dir)"
    by (rule clean_segs_above) (use loc in \<open>auto simp: path_segs_def\<close>)
  then have "path_segs (dir @ CHR ''/'' # rel) = path_segs dir @ path_segs rel"
    using loc by (simp add: path_segs_def [of "dir @ CHR ''/'' # rel"] abs split_on_concat)
      (simp add: path_segs_def)
  then show "path_segs (path_Join [dir, rel]) = path_segs dir @ path_segs rel" using j by simp
  show "IsAbs (path_Join [dir, rel]) \<longleftrightarrow> IsAbs dir" using j abs by simp
  show "''..'' \<notin> set (path_segs rel)" using loc by simp
qed

end
