(* ===== verification/OciRef.thy ===== *)
theory OciRef
  imports Prelude
begin

text \<open>
  OCI load targets (\<^verbatim>\<open>runtime/oci/reference.go\<close>): splitting \<^verbatim>\<open>oci://registry/repo:tag/file.star\<close>, the
  expansion of short forms and of package-local \<^verbatim>\<open>./file.star\<close> targets. The package
  \<^verbatim>\<open>go-containerregistry/pkg/name\<close> is a parameter: its parsers, with what they return. Errors are
  their messages, because \<^verbatim>\<open>fn.go\<close> looks into them.
\<close>

section \<open>The name package\<close>

text \<open>The Boolean of \<^verbatim>\<open>ParseReference\<close> is the option \<^verbatim>\<open>name.Insecure\<close>.\<close>

record oci_name =
  nm_RegistryStr :: string
  nm_RepositoryStr :: string
  nm_Identifier :: string
  nm_String :: string

record name_pkg =
  NewTag :: "string \<Rightarrow> string + oci_name"
  NewDigest :: "string \<Rightarrow> string + oci_name"
  NewRepository :: "string \<Rightarrow> string + unit"
  ParseReference :: "string \<Rightarrow> bool \<Rightarrow> string + oci_name"

text \<open>The documented law of \<^verbatim>\<open>Tag.String\<close> and \<^verbatim>\<open>Digest.String\<close>: the original reference is returned.\<close>

definition string_original :: "name_pkg \<Rightarrow> bool" where
  "string_original lib \<longleftrightarrow>
     (\<forall>s r. NewTag lib s = Inr r \<longrightarrow> nm_String r = s) \<and>
     (\<forall>s r. NewDigest lib s = Inr r \<longrightarrow> nm_String r = s)"

section \<open>Load targets\<close>

record OCILoadTarget =
  RawURL :: string
  Registry :: string
  Repo :: string
  Tag :: string
  Digest :: string
  File :: string
  RefStr :: string

definition splitRefAndFile :: "string \<Rightarrow> string + string \<times> string" where
  "splitRefAndFile s =
     (case index_of s ''@sha256:'' of
        Some idx \<Rightarrow>
          (let afterDigest = drop (idx + 8) s in
           case index_of afterDigest ''/'' of
             None \<Rightarrow> Inl ''missing file path after digest''
           | Some slashIdx \<Rightarrow>
               (let ref = take (idx + 8 + slashIdx) s; file = drop (slashIdx + 1) afterDigest in
                if file = [] then Inl ''missing file path after digest'' else Inr (ref, file)))
      | None \<Rightarrow>
          (case last_index_of s '':'' of
             None \<Rightarrow>
               if last_index_of s ''/'' = None \<or> \<not> has_suffix s ''.star'' then Inl ''missing file path''
               else Inl ''tag or digest required''
           | Some lastColon \<Rightarrow>
               (let afterColon = drop (lastColon + 1) s in
                case index_of afterColon ''/'' of
                  None \<Rightarrow> Inl ''missing file path after tag''
                | Some slashIdx \<Rightarrow>
                    (let ref = take (lastColon + 1 + slashIdx) s; file = drop (slashIdx + 1) afterColon in
                     if file = [] then Inl ''missing file path after tag'' else Inr (ref, file)))))"

definition wrap_msg :: "string \<Rightarrow> string + 'a \<Rightarrow> string + 'a" where
  "wrap_msg ctxt r = (case r of Inl e \<Rightarrow> Inl (ctxt @ '': '' @ e) | Inr x \<Rightarrow> Inr x)"

definition ParseOCILoadTarget :: "name_pkg \<Rightarrow> string \<Rightarrow> string + OCILoadTarget" where
  "ParseOCILoadTarget lib raw =
     (if \<not> has_prefix raw ''oci://'' then
        Inl (''OCI load target must start with oci:// prefix, got '' @ go_quote raw)
      else let remainder = trim_prefix raw ''oci://'' in
        if remainder = [] then Inl (''OCI load target '' @ go_quote raw @ '' missing file path after oci://'')
        else bind_res (wrap_msg (''parsing OCI load target '' @ go_quote raw) (splitRefAndFile remainder))
          (\<lambda>(refStr, file).
            if \<not> has_suffix file ''.star'' then
              Inl (''OCI load target file '' @ go_quote file @ '' must end with .star'')
            else if contains refStr ''@sha256:'' then
              bind_res (wrap_msg (''parsing OCI digest reference '' @ go_quote refStr) (NewDigest lib refStr))
                (\<lambda>ref. Inr \<lparr>RawURL = raw, Registry = nm_RegistryStr ref, Repo = nm_RepositoryStr ref,
                   Tag = [], Digest = nm_Identifier ref, File = file, RefStr = nm_String ref\<rparr>)
            else if contains refStr '':'' then
              bind_res (wrap_msg (''parsing OCI tag reference '' @ go_quote refStr) (NewTag lib refStr))
                (\<lambda>ref. Inr \<lparr>RawURL = raw, Registry = nm_RegistryStr ref, Repo = nm_RepositoryStr ref,
                   Tag = nm_Identifier ref, Digest = [], File = file, RefStr = nm_String ref\<rparr>)
            else Inl (''OCI load target '' @ go_quote raw @ '': tag or digest required; use explicit :tag or '' @
              ''@sha256:digest (implicit :latest is not supported)'')))"

definition IsDefaultRegistryTarget :: "string \<Rightarrow> bool" where
  "IsDefaultRegistryTarget m \<longleftrightarrow>
     \<not> has_prefix m ''oci://'' \<and> (contains m '':'' \<or> contains m ''@sha256:'')"

definition ExpandDefaultRegistry :: "string \<Rightarrow> string \<Rightarrow> string + string" where
  "ExpandDefaultRegistry target registry =
     (if registry = [] then
        Inl (''load target '' @ go_quote target @ '' requires a default OCI registry; '' @
          ''set STARLARK_OCI_DEFAULT_REGISTRY env var on the function pod '' @
          ''or spec.ociDefaultRegistry in function input'')
      else Inr (''oci://'' @ registry @ ''/'' @ target))"

definition IsPackageLocalTarget :: "string \<Rightarrow> bool" where
  "IsPackageLocalTarget m \<longleftrightarrow>
     has_prefix m ''./'' \<and> has_suffix m ''.star'' \<and> \<not> contains (drop 2 m) ''/''"

definition ExpandPackageLocal :: "name_pkg \<Rightarrow> string \<Rightarrow> string \<Rightarrow> string + string" where
  "ExpandPackageLocal lib target parentRefStr =
     (if parentRefStr = [] then
        Inl (''package-local load '' @ go_quote target @ '' requires an OCI parent; '' @
          ''package-local loads are only valid from OCI modules'')
      else if \<not> has_prefix target ''./'' then
        Inl (''package-local load '' @ go_quote target @ '' must start with '' @ go_quote ''./'')
      else let inner = trim_prefix target ''./'' in
        if contains inner ''/'' then
          Inl (''package-local load '' @ go_quote target @ '' must be flat (no subdirectories)'')
        else if \<not> has_suffix inner ''.star'' then
          Inl (''package-local load '' @ go_quote target @ '' must end with .star'')
        else let ctxt = ''parsing OCI parent '' @ go_quote parentRefStr @ '' for package-local load '' @ go_quote target;
                 url = ''oci://'' @ parentRefStr @ ''/'' @ inner
          in if contains parentRefStr ''@sha256:'' then
               bind_res (wrap_msg ctxt (NewDigest lib parentRefStr)) (\<lambda>_. Inr url)
             else if contains parentRefStr '':'' then
               bind_res (wrap_msg ctxt (NewTag lib parentRefStr)) (\<lambda>_. Inr url)
             else Inl (''OCI parent '' @ go_quote parentRefStr @ '' for package-local load '' @ go_quote target @
               '': tag or digest required; use explicit :tag or @sha256:digest (implicit :latest is not supported)''))"

definition NormalizeRegistry :: "string \<Rightarrow> string" where
  "NormalizeRegistry registry = trim_right (trim_prefix registry ''oci://'') ''/''"

definition ValidateRegistry :: "name_pkg \<Rightarrow> string \<Rightarrow> string + unit" where
  "ValidateRegistry lib registry =
     wrap_msg (''invalid default OCI registry '' @ go_quote registry) (NewRepository lib (registry @ ''/validate''))"

section \<open>Positions in strings\<close>

lemma wrap_msg_Inr_iff [simp]: "wrap_msg c r = Inr x \<longleftrightarrow> r = Inr x"
  by (cases r) (auto simp: wrap_msg_def)

lemma wrap_msg_simps [simp]:
  "wrap_msg c (Inr x) = Inr x" "wrap_msg c (Inl e) = Inl (c @ '': '' @ e)"
  by (simp_all add: wrap_msg_def)

lemma index_of_take:
  "index_of s sub = Some i \<Longrightarrow> i + length sub \<le> n \<Longrightarrow> n \<le> length s \<Longrightarrow> index_of (take n s @ r) sub = Some i"
proof (induction s arbitrary: i n)
  case (Cons c cs)
  show ?case
  proof (cases n)
    case 0
    then show ?thesis using Cons.prems by (cases r) (auto simp: has_prefix_def split: if_splits)
  next
    case (Suc m)
    have "take (length sub) (c # take m cs @ r) = take (length sub) (c # cs)"
      using Cons.prems Suc by (cases sub) auto
    then have pre: "has_prefix (c # take m cs @ r) sub = has_prefix (c # cs) sub" by (simp add: has_prefix_def)
    show ?thesis
    proof (cases "has_prefix (c # cs) sub")
      case True
      then show ?thesis using Cons.prems pre Suc by simp
    next
      case False
      with Cons.prems obtain j where j: "i = Suc j" "index_of cs sub = Some j" by auto
      have "index_of (take m cs @ r) sub = Some j"
        by (rule Cons.IH [OF j(2)]) (use Cons.prems Suc j in auto)
      then show ?thesis using False pre Suc j by simp
    qed
  qed
qed (cases r; auto simp: has_prefix_def split: if_splits)

lemma index_of_char_None [simp]: "index_of s [c] = None \<longleftrightarrow> c \<notin> set s"
  using contains_char [of s c] unfolding contains_def by blast

lemma index_of_char: "c \<notin> set a \<Longrightarrow> index_of (a @ c # b) [c] = Some (length a)"
  by (induction a) (auto simp: has_prefix_def)

lemma index_of_charE:
  assumes "index_of s [c] = Some i"
  obtains a b where "s = a @ c # b" "c \<notin> set a" "length a = i"
proof -
  from assms have "c \<in> set s" using index_of_char_None [of s c] by (metis option.distinct(1))
  then obtain a b where "s = a @ c # b" "c \<notin> set a" by (meson split_list_first)
  with assms that show ?thesis using index_of_char by fastforce
qed

lemma last_index_of_char_None [simp]: "last_index_of s [c] = None \<longleftrightarrow> c \<notin> set s"
  by (induction s) (auto simp: has_prefix_def split: option.splits)

lemma last_index_of_char: "c \<notin> set b \<Longrightarrow> last_index_of (a @ c # b) [c] = Some (length a)"
  by (induction a) (auto simp: has_prefix_def split: option.splits)

lemma last_index_of_charE:
  assumes "last_index_of s [c] = Some i"
  obtains a b where "s = a @ c # b" "c \<notin> set b" "length a = i"
proof -
  from assms have "c \<in> set s" using last_index_of_char_None [of s c] by (metis option.distinct(1))
  then obtain a b where "s = a @ c # b" "c \<notin> set b" by (meson split_list_last)
  with assms that show ?thesis using last_index_of_char by fastforce
qed

text \<open>A pattern without the separator lies on one side of it.\<close>

lemma contains_append_sep:
  assumes "c \<notin> set sub" "sub \<noteq> []"
  shows "contains (a @ c # b) sub \<longleftrightarrow> contains a sub \<or> contains b sub"
proof
  assume "contains (a @ c # b) sub"
  then obtain x y where e: "a @ c # b = x @ sub @ y" by (auto simp: contains_iff)
  from e consider us where "a = x @ us" "us @ c # b = sub @ y" | us where "a @ us = x" "c # b = us @ sub @ y"
    by (auto simp: append_eq_append_conv2)
  then show "contains a sub \<or> contains b sub"
  proof cases
    case 1
    from 1(2) consider vs where "us = sub @ vs" | vs where "us @ vs = sub" "c # b = vs @ y"
      by (auto simp: append_eq_append_conv2)
    then show ?thesis
    proof cases
      case a: 1
      then show ?thesis using 1 by (auto simp: contains_iff)
    next
      case b: 2
      with assms have "vs = []" by (cases vs) auto
      then show ?thesis using 1 b by (auto simp: contains_iff) (metis append.right_neutral)
    qed
  next
    case 2
    show ?thesis
    proof (cases us)
      case Nil
      with 2 assms show ?thesis by (cases sub) auto
    next
      case (Cons u us')
      with 2 show ?thesis by (auto simp: contains_iff)
    qed
  qed
next
  assume "contains a sub \<or> contains b sub"
  then show "contains (a @ c # b) sub"
    by (auto simp: contains_iff) (metis append.assoc append_Cons)+
qed

lemma index_of_after_sep:
  assumes "index_of (a @ c # b) sub = Some i" and "\<not> contains a sub" and "c \<notin> set sub" "sub \<noteq> []"
  shows "length a < i"
proof (rule ccontr)
  assume "\<not> length a < i"
  then have le: "i \<le> length a" by simp
  from index_of_SomeD [OF assms(1)] obtain d where "a @ c # b = take i (a @ c # b) @ sub @ d" by blast
  then have "a @ c # b = take i a @ sub @ d" using le by simp
  then have "take i a @ drop i a @ c # b = take i a @ sub @ d" by (metis append.assoc append_take_drop_id)
  then have e: "drop i a @ c # b = sub @ d" by (simp only: same_append_eq)
  from e consider vs where "drop i a = sub @ vs" | vs where "drop i a @ vs = sub" "c # b = vs @ d"
    by (auto simp: append_eq_append_conv2)
  then show False
  proof cases
    case 1
    then have "a = take i a @ sub @ vs" by (metis append_take_drop_id)
    then show False using assms(2) unfolding contains_iff by blast
  next
    case 2
    have "vs = []" using 2 assms(3) by (cases vs) auto
    then have "a = take i a @ sub @ []" using 2 by (metis append_Nil2 append_take_drop_id)
    then show False using assms(2) unfolding contains_iff by blast
  qed
qed

section \<open>What a load target consists of\<close>

text \<open>
  The references that come out of a split: up to the slash after the digest, or up to the slash
  after the tag.
\<close>

definition digest_ref :: "string \<Rightarrow> bool" where
  "digest_ref ref \<longleftrightarrow>
     (\<exists>i. index_of ref ''@sha256:'' = Some i \<and> i + 8 \<le> length ref \<and> CHR ''/'' \<notin> set (drop (i + 8) ref))"

definition tag_ref :: "string \<Rightarrow> bool" where
  "tag_ref ref \<longleftrightarrow>
     \<not> contains ref ''@sha256:'' \<and>
     (\<exists>a t. ref = a @ CHR '':'' # t \<and> CHR '':'' \<notin> set t \<and> CHR ''/'' \<notin> set t)"

lemma split_digest:
  assumes "digest_ref ref" and "file \<noteq> []"
  shows "splitRefAndFile (ref @ CHR ''/'' # file) = Inr (ref, file)"
proof -
  from assms(1) obtain i where i: "index_of ref ''@sha256:'' = Some i" "i + 8 \<le> length ref"
    "CHR ''/'' \<notin> set (drop (i + 8) ref)" by (auto simp: digest_ref_def)
  have 1: "index_of (ref @ CHR ''/'' # file) ''@sha256:'' = Some i"
    using index_of_take [OF i(1), of "length ref" "CHR ''/'' # file"] i(2) by simp
  have 2: "drop (i + 8) (ref @ CHR ''/'' # file) = drop (i + 8) ref @ CHR ''/'' # file" using i(2) by simp
  show ?thesis
    unfolding splitRefAndFile_def 1 option.case Let_def 2 index_of_char [OF i(3)]
    using i(2) assms(2) by simp
qed

lemma split_tag:
  assumes "tag_ref ref" and "file \<noteq> []" and "CHR '':'' \<notin> set file"
  shows "splitRefAndFile (ref @ CHR ''/'' # file) = Inr (ref, file)"
proof -
  from assms(1) obtain a t where r: "\<not> contains ref ''@sha256:''" "ref = a @ CHR '':'' # t"
    "CHR '':'' \<notin> set t" "CHR ''/'' \<notin> set t" by (auto simp: tag_ref_def)
  have "\<not> contains file ''@sha256:''" using assms(3) by (auto simp: contains_iff)
  with r(1) have "\<not> contains (ref @ CHR ''/'' # file) ''@sha256:''" by (simp add: contains_append_sep)
  then have 1: "index_of (ref @ CHR ''/'' # file) ''@sha256:'' = None" by (simp add: contains_def)
  have 2: "last_index_of (ref @ CHR ''/'' # file) '':'' = Some (length a)"
    using last_index_of_char [of "CHR '':''" "t @ CHR ''/'' # file" a] r assms(3) by simp
  have 3: "drop (length a + 1) (ref @ CHR ''/'' # file) = t @ CHR ''/'' # file" using r(2) by simp
  show ?thesis
    unfolding splitRefAndFile_def 1 option.case 2 Let_def 3 index_of_char [OF r(4)]
    using r(2) assms(2) by simp
qed

text \<open>A file name with a colon below a tag reference is never split off.\<close>

lemma split_tag_colon:
  assumes "tag_ref ref" and "CHR '':'' \<in> set file" and "CHR ''/'' \<notin> set file"
  shows "\<exists>e. splitRefAndFile (ref @ CHR ''/'' # file) = Inl e"
proof (cases "index_of (ref @ CHR ''/'' # file) ''@sha256:''")
  case (Some i)
  have "\<not> contains ref ''@sha256:''" using assms(1) by (simp add: tag_ref_def)
  from index_of_after_sep [OF Some this] have "length ref < i" by simp
  then have "set (drop (i + 8) (ref @ CHR ''/'' # file)) \<subseteq> set file"
    by (auto dest: in_set_dropD simp: drop_Cons')
  then have 1: "index_of (drop (i + 8) (ref @ CHR ''/'' # file)) ''/'' = None"
    using assms(3) index_of_char_None by blast
  show ?thesis unfolding splitRefAndFile_def Some option.case Let_def 1 by blast
next
  case None
  from assms(2) obtain x y where f: "file = x @ CHR '':'' # y" "CHR '':'' \<notin> set y" by (meson split_list_last)
  have 1: "last_index_of (ref @ CHR ''/'' # file) '':'' = Some (length (ref @ CHR ''/'' # x))"
    using last_index_of_char [OF f(2), of "ref @ CHR ''/'' # x"] f(1) by simp
  have 2: "index_of (drop (length (ref @ CHR ''/'' # x) + 1) (ref @ CHR ''/'' # file)) ''/'' = None"
    using f(1) assms(3) by simp
  show ?thesis unfolding splitRefAndFile_def None option.case 1 Let_def 2 by blast
qed

lemma split_cases:
  assumes "splitRefAndFile s = Inr (ref, file)"
  shows "s = ref @ CHR ''/'' # file \<and> file \<noteq> [] \<and>
     (digest_ref ref \<or> tag_ref ref \<and> CHR '':'' \<notin> set file)"
proof (cases "index_of s ''@sha256:''")
  case (Some i)
  with assms obtain k where k: "index_of (drop (i + 8) s) ''/'' = Some k"
    and rf: "ref = take (i + 8 + k) s" "file = drop (k + 1) (drop (i + 8) s)" "file \<noteq> []"
    unfolding splitRefAndFile_def Some option.case Let_def
    by (auto split: option.splits if_splits)
  from k obtain a b where ab: "drop (i + 8) s = a @ CHR ''/'' # b" "CHR ''/'' \<notin> set a" "length a = k"
    by (rule index_of_charE)
  have s: "s = take (i + 8) s @ a @ CHR ''/'' # b" by (metis ab(1) append_take_drop_id)
  have len: "length (take (i + 8) s) = i + 8"
  proof -
    have "length s > i + 8" using ab(1) by (metis length_drop length_greater_0_conv append_is_Nil_conv list.distinct(1) zero_less_diff)
    then show ?thesis by simp
  qed
  have ref: "ref = take (i + 8) s @ a" using rf(1) s ab(3) len by (metis append.assoc append_eq_conv_conj length_append)
  have "file = b" using rf(2) ab by simp
  moreover have "digest_ref ref"
  proof -
    have "i + 8 + k \<le> length s" using s ab(3) len by (metis length_append le_add1 add.assoc)
    then have "index_of (take (i + 8 + k) s @ []) ''@sha256:'' = Some i"
      by (intro index_of_take [OF Some]) simp_all
    then have "index_of ref ''@sha256:'' = Some i" using rf(1) by simp
    moreover have "i + 8 \<le> length ref" "drop (i + 8) ref = a" using ref len by simp_all
    ultimately show ?thesis unfolding digest_ref_def using ab(2) by blast
  qed
  ultimately show ?thesis using s ref rf(3) by simp
next
  case None
  with assms obtain j k where j: "last_index_of s '':'' = Some j" and k: "index_of (drop (j + 1) s) ''/'' = Some k"
    and rf: "ref = take (j + 1 + k) s" "file = drop (k + 1) (drop (j + 1) s)" "file \<noteq> []"
    unfolding splitRefAndFile_def None option.case Let_def
    by (auto split: option.splits if_splits)
  from j obtain x y where xy: "s = x @ CHR '':'' # y" "CHR '':'' \<notin> set y" "length x = j"
    by (rule last_index_of_charE)
  from k xy have "index_of y ''/'' = Some k" by simp
  then obtain a b where ab: "y = a @ CHR ''/'' # b" "CHR ''/'' \<notin> set a" "length a = k"
    by (rule index_of_charE)
  have ref: "ref = x @ CHR '':'' # a" "file = b" using rf xy ab by auto
  have "\<not> contains s ''@sha256:''" using None by (simp add: contains_def)
  then have "\<not> contains ref ''@sha256:''" using xy ab ref
    by (auto simp: contains_iff) (metis append.assoc append_Cons)
  then show ?thesis using xy ab ref rf(3) unfolding tag_ref_def by auto
qed

text \<open>Which library call a parsed target comes from.\<close>

lemma digest_ref_contains: "digest_ref ref \<Longrightarrow> contains ref ''@sha256:''"
  by (auto simp: digest_ref_def contains_def)

lemma tag_ref_contains: "tag_ref ref \<Longrightarrow> contains ref '':'' \<and> \<not> contains ref ''@sha256:'' \<and> ref \<noteq> []"
  by (auto simp: tag_ref_def contains_char)

lemma ParseOCILoadTarget_cases:
  assumes "ParseOCILoadTarget lib raw = Inr t" and "string_original lib"
  obtains (digest) ref where "digest_ref (RefStr t)" "NewDigest lib (RefStr t) = Inr ref"
      "t = \<lparr>RawURL = raw, Registry = nm_RegistryStr ref, Repo = nm_RepositoryStr ref, Tag = [],
            Digest = nm_Identifier ref, File = File t, RefStr = RefStr t\<rparr>"
      "raw = ''oci://'' @ RefStr t @ CHR ''/'' # File t" "has_suffix (File t) ''.star''"
    | (tag) ref where "tag_ref (RefStr t)" "NewTag lib (RefStr t) = Inr ref"
      "t = \<lparr>RawURL = raw, Registry = nm_RegistryStr ref, Repo = nm_RepositoryStr ref,
            Tag = nm_Identifier ref, Digest = [], File = File t, RefStr = RefStr t\<rparr>"
      "raw = ''oci://'' @ RefStr t @ CHR ''/'' # File t" "has_suffix (File t) ''.star''"
      "CHR '':'' \<notin> set (File t)"
proof -
  from assms(1) obtain refStr "file"
    where pre: "has_prefix raw ''oci://''" and sp: "splitRefAndFile (trim_prefix raw ''oci://'') = Inr (refStr, file)"
      and star: "has_suffix file ''.star''"
    unfolding ParseOCILoadTarget_def Let_def
    by (auto simp: bind_res_eq_Inr split: if_splits)
  define rest where "rest = trim_prefix raw ''oci://''"
  have raw: "raw = ''oci://'' @ rest"
    using pre trim_prefix_append unfolding has_prefix_iff rest_def by metis
  have sp': "splitRefAndFile rest = Inr (refStr, file)" using sp by (simp add: rest_def)
  from split_cases [OF this] have rest: "rest = refStr @ CHR ''/'' # file" "rest \<noteq> []"
    and shape: "digest_ref refStr \<or> tag_ref refStr \<and> CHR '':'' \<notin> set file" by auto
  have eq: "ParseOCILoadTarget lib raw =
      (if contains refStr ''@sha256:'' then
         bind_res (wrap_msg (''parsing OCI digest reference '' @ go_quote refStr) (NewDigest lib refStr))
           (\<lambda>ref. Inr \<lparr>RawURL = raw, Registry = nm_RegistryStr ref, Repo = nm_RepositoryStr ref,
              Tag = [], Digest = nm_Identifier ref, File = file, RefStr = nm_String ref\<rparr>)
       else bind_res (wrap_msg (''parsing OCI tag reference '' @ go_quote refStr) (NewTag lib refStr))
           (\<lambda>ref. Inr \<lparr>RawURL = raw, Registry = nm_RegistryStr ref, Repo = nm_RepositoryStr ref,
              Tag = nm_Identifier ref, Digest = [], File = file, RefStr = nm_String ref\<rparr>))"
    using shape digest_ref_contains [of refStr] tag_ref_contains [of refStr] star rest(2) pre sp'
    unfolding ParseOCILoadTarget_def Let_def rest_def by auto
  show ?thesis
  proof (cases "contains refStr ''@sha256:''")
    case True
    from assms(1) [unfolded eq] this obtain ref where r: "NewDigest lib refStr = Inr ref"
      "t = \<lparr>RawURL = raw, Registry = nm_RegistryStr ref, Repo = nm_RepositoryStr ref,
              Tag = [], Digest = nm_Identifier ref, File = file, RefStr = nm_String ref\<rparr>"
      by (auto simp: bind_res_eq_Inr)
    then have "nm_String ref = refStr" using assms(2) by (simp add: string_original_def)
    with r digest [of ref] True shape tag_ref_contains raw rest star show ?thesis by auto
  next
    case False
    from assms(1) [unfolded eq] this obtain ref where r: "NewTag lib refStr = Inr ref"
      "t = \<lparr>RawURL = raw, Registry = nm_RegistryStr ref, Repo = nm_RepositoryStr ref,
              Tag = nm_Identifier ref, Digest = [], File = file, RefStr = nm_String ref\<rparr>"
      by (auto simp: bind_res_eq_Inr)
    then have "nm_String ref = refStr" using assms(2) by (simp add: string_original_def)
    with r tag [of ref] False shape digest_ref_contains raw rest star show ?thesis by auto
  qed
qed

lemma ParseOCILoadTarget_split:
  assumes "raw = ''oci://'' @ rest" and "rest \<noteq> []"
  shows "splitRefAndFile rest = Inl e \<Longrightarrow> \<exists>e'. ParseOCILoadTarget lib raw = Inl e'"
    and "splitRefAndFile rest = Inr (ref, f) \<Longrightarrow> has_suffix f ''.star'' \<Longrightarrow> contains ref ''@sha256:'' \<Longrightarrow>
      NewDigest lib ref = Inr r \<Longrightarrow>
      ParseOCILoadTarget lib raw = Inr \<lparr>RawURL = raw, Registry = nm_RegistryStr r, Repo = nm_RepositoryStr r,
         Tag = [], Digest = nm_Identifier r, File = f, RefStr = nm_String r\<rparr>"
    and "splitRefAndFile rest = Inr (ref, f) \<Longrightarrow> has_suffix f ''.star'' \<Longrightarrow> \<not> contains ref ''@sha256:'' \<Longrightarrow>
      contains ref '':'' \<Longrightarrow> NewTag lib ref = Inr r \<Longrightarrow>
      ParseOCILoadTarget lib raw = Inr \<lparr>RawURL = raw, Registry = nm_RegistryStr r, Repo = nm_RepositoryStr r,
         Tag = nm_Identifier r, Digest = [], File = f, RefStr = nm_String r\<rparr>"
proof -
  have pre: "has_prefix raw ''oci://''" unfolding assms(1) by (rule has_prefix_append)
  have trim: "trim_prefix raw ''oci://'' = rest" unfolding assms(1) by (rule trim_prefix_append)
  show "splitRefAndFile rest = Inl e \<Longrightarrow> \<exists>e'. ParseOCILoadTarget lib raw = Inl e'"
    using pre assms(2) unfolding ParseOCILoadTarget_def Let_def trim by simp
  show "splitRefAndFile rest = Inr (ref, f) \<Longrightarrow> has_suffix f ''.star'' \<Longrightarrow> contains ref ''@sha256:'' \<Longrightarrow>
      NewDigest lib ref = Inr r \<Longrightarrow>
      ParseOCILoadTarget lib raw = Inr \<lparr>RawURL = raw, Registry = nm_RegistryStr r, Repo = nm_RepositoryStr r,
         Tag = [], Digest = nm_Identifier r, File = f, RefStr = nm_String r\<rparr>"
    using pre assms(2) unfolding ParseOCILoadTarget_def Let_def trim by simp
  show "splitRefAndFile rest = Inr (ref, f) \<Longrightarrow> has_suffix f ''.star'' \<Longrightarrow> \<not> contains ref ''@sha256:'' \<Longrightarrow>
      contains ref '':'' \<Longrightarrow> NewTag lib ref = Inr r \<Longrightarrow>
      ParseOCILoadTarget lib raw = Inr \<lparr>RawURL = raw, Registry = nm_RegistryStr r, Repo = nm_RepositoryStr r,
         Tag = nm_Identifier r, Digest = [], File = f, RefStr = nm_String r\<rparr>"
    using pre assms(2) unfolding ParseOCILoadTarget_def Let_def trim by simp
qed

text \<open>What a package-local name is.\<close>

lemma package_local_inner:
  assumes "IsPackageLocalTarget m"
  shows "m = ''./'' @ drop 2 m" "CHR ''/'' \<notin> set (drop 2 m)" "has_suffix (drop 2 m) ''.star''"
    "trim_prefix m ''./'' = drop 2 m" "has_prefix m ''./''" "drop 2 m \<noteq> []"
proof -
  from assms have p: "has_prefix m ''./''" and sl: "\<not> contains (drop 2 m) [CHR ''/'']"
    and st: "has_suffix m ''.star''" by (simp_all add: IsPackageLocalTarget_def)
  from p show m: "m = ''./'' @ drop 2 m" by (auto simp: has_prefix_iff)
  from sl show noslash: "CHR ''/'' \<notin> set (drop 2 m)" unfolding contains_char .
  from p show "trim_prefix m ''./'' = drop 2 m" "has_prefix m ''./''" by (simp_all add: trim_prefix_def numeral_2_eq_2)
  from st obtain u where u: "m = u @ ''.star''" by (auto simp: has_suffix_iff)
  have "length u \<ge> 2"
  proof (rule ccontr)
    assume "\<not> 2 \<le> length u"
    then have "length u = 0 \<or> length u = 1" by linarith
    then show False using u m by (auto simp: length_Suc_conv)
  qed
  then have "drop 2 m = drop 2 u @ ''.star''" using u by simp
  then show "has_suffix (drop 2 m) ''.star''" "drop 2 m \<noteq> []" by (auto simp: has_suffix_iff)
qed

lemma ExpandPackageLocal_ok:
  assumes "IsPackageLocalTarget m" "parent \<noteq> []"
    and "contains parent ''@sha256:'' \<and> NewDigest lib parent = Inr r \<or>
      \<not> contains parent ''@sha256:'' \<and> contains parent '':'' \<and> NewTag lib parent = Inr r"
  shows "ExpandPackageLocal lib m parent = Inr (''oci://'' @ parent @ ''/'' @ drop 2 m)"
proof -
  note l = package_local_inner [OF assms(1)]
  have "\<not> contains (drop 2 m) ''/''" using l(2) contains_char by blast
  then show ?thesis
    using assms(2,3) l(3,5) unfolding ExpandPackageLocal_def Let_def l(4) by auto
qed

section \<open>Properties\<close>

text \<open>
  A package-local load \<^verbatim>\<open>./file.star\<close> never leaves the artifact of its caller: for a parent that was
  parsed from a load target, it expands to the parent's reference with the file name, and parsing that
  URL gives the parent's target with the file replaced, unless the name has a colon, in which case it
  may be rejected.
\<close>

theorem package_local_same_artifact:
  assumes "string_original lib" and "ParseOCILoadTarget lib raw = Inr t" and "IsPackageLocalTarget m"
  shows "\<exists>url. url = ''oci://'' @ RefStr t @ ''/'' @ drop 2 m \<and> ExpandPackageLocal lib m (RefStr t) = Inr url \<and>
     (ParseOCILoadTarget lib url = Inr (t\<lparr>RawURL := url, File := drop 2 m\<rparr>) \<or>
      CHR '':'' \<in> set m \<and> (\<exists>e. ParseOCILoadTarget lib url = Inl e))"
proof -
  note l = package_local_inner [OF assms(3)]
  define url where "url = ''oci://'' @ RefStr t @ CHR ''/'' # drop 2 m"
  have fold_url: "''oci://'' @ RefStr t @ ''/'' @ drop 2 m = url" by (simp add: url_def)
  have ne: "RefStr t @ CHR ''/'' # drop 2 m \<noteq> []" by simp
  note parse = ParseOCILoadTarget_split [OF url_def ne]
  from assms(2,1) show ?thesis
  proof (cases rule: ParseOCILoadTarget_cases)
    case (digest ref)
    have c: "contains (RefStr t) ''@sha256:''" by (rule digest_ref_contains [OF digest(1)])
    then have "RefStr t \<noteq> []" by auto
    moreover have "nm_String ref = RefStr t" using assms(1) digest(2) by (simp add: string_original_def)
    ultimately have "ParseOCILoadTarget lib url = Inr (t\<lparr>RawURL := url, File := drop 2 m\<rparr>)"
      using parse(2) [OF split_digest [OF digest(1) l(6)] l(3) c digest(2)]
      by (subst digest(3)) simp
    moreover have "ExpandPackageLocal lib m (RefStr t) = Inr url"
      using ExpandPackageLocal_ok [OF assms(3) \<open>RefStr t \<noteq> []\<close>, of lib ref] c digest(2) unfolding fold_url by blast
    ultimately show ?thesis unfolding fold_url by blast
  next
    case (tag ref)
    have c: "contains (RefStr t) '':''" "\<not> contains (RefStr t) ''@sha256:''" "RefStr t \<noteq> []"
      using tag_ref_contains [OF tag(1)] by auto
    have str: "nm_String ref = RefStr t" using assms(1) tag(2) by (simp add: string_original_def)
    have ex: "ExpandPackageLocal lib m (RefStr t) = Inr url"
      using ExpandPackageLocal_ok [OF assms(3) c(3), of lib ref] c tag(2) unfolding fold_url by blast
    show ?thesis
    proof (cases "CHR '':'' \<in> set (drop 2 m)")
      case True
      from split_tag_colon [OF tag(1) True l(2)] parse(1) have "\<exists>e. ParseOCILoadTarget lib url = Inl e" by blast
      with ex True show ?thesis unfolding fold_url by (meson in_set_dropD)
    next
      case False
      have "ParseOCILoadTarget lib url = Inr (t\<lparr>RawURL := url, File := drop 2 m\<rparr>)"
        using parse(3) [OF split_tag [OF tag(1) l(6) False] l(3) c(2,1) tag(2)] str
        by (subst tag(3)) simp
      with ex show ?thesis unfolding fold_url by blast
    qed
  qed
qed

text \<open>A small instance of the name package: every reference is accepted, the part after the first colon
  is its identifier.\<close>

definition ex_name :: "string \<Rightarrow> oci_name" where
  "ex_name s = \<lparr>nm_RegistryStr = takeWhile (\<lambda>c. c \<noteq> CHR ''/'') s,
     nm_RepositoryStr = takeWhile (\<lambda>c. c \<noteq> CHR '':'') (drop 1 (dropWhile (\<lambda>c. c \<noteq> CHR ''/'') s)),
     nm_Identifier = drop 1 (dropWhile (\<lambda>c. c \<noteq> CHR '':'') s), nm_String = s\<rparr>"

definition ex_name_pkg :: name_pkg where
  "ex_name_pkg = \<lparr>NewTag = (\<lambda>s. Inr (ex_name s)), NewDigest = (\<lambda>s. Inr (ex_name s)), NewRepository = (\<lambda>_. Inr ()),
     ParseReference = (\<lambda>s _. Inr (ex_name s))\<rparr>"

lemma ex_name_pkg_original: "string_original ex_name_pkg"
  by (simp add: string_original_def ex_name_pkg_def ex_name_def)

definition ex_target :: "string \<Rightarrow> OCILoadTarget" where
  "ex_target f = \<lparr>RawURL = ''oci://ghcr.io/org/mod:v1/'' @ f, Registry = ''ghcr.io'', Repo = ''org/mod'', Tag = ''v1'',
     Digest = [], File = f, RefStr = ''ghcr.io/org/mod:v1''\<rparr>"

lemma ex_target: "ParseOCILoadTarget ex_name_pkg ''oci://ghcr.io/org/mod:v1/a.star'' = Inr (ex_target ''a.star'')"
  by code_simp

end
