(* ===== verification/Loader.thy ===== *)
theory Loader
  imports ScriptRuntime GoPath OciRef
begin

text \<open>
  The module loader (\<^verbatim>\<open>runtime/loader.go\<close>): how a module name is resolved against its caller, the search
  for its source, the cache with its marks for modules that are being loaded, the expansion of star
  imports, and the execution of modules. The file system, the parser and the interpreter are
  parameters.

  Loading, scanning exports and expanding star imports call each other through the interpreter; they
  get a fuel argument, and \<open>None\<close> says that it did not suffice.
\<close>

section \<open>Parameters and state\<close>

text \<open>\<^verbatim>\<open>os.ReadFile\<close>: the content, an error for which \<^verbatim>\<open>os.IsNotExist\<close> holds, or another error.\<close>

datatype file_result = FileData string | FileNotExist string | FileError string

text \<open>A load statement: the module, the pairs of exported and local names, and the lines of the keyword and
  of the closing parenthesis, from 1.\<close>

record LoadStmt =
  ls_module :: string
  ls_names :: "(string \<times> string) list"
  ls_line :: nat
  ls_rparen :: nat

datatype stmt = Load LoadStmt | OtherStmt

text \<open>\<^verbatim>\<open>ModuleLoader\<close> with what it calls: \<open>ml_fs\<close> is \<^verbatim>\<open>os.ReadFile\<close>, \<open>ml_parse\<close> the parser on file name and source.\<close>

record 'w ModuleLoader =
  ml_inlineModules :: "(string \<times> string) list"
  ml_searchPaths :: "string list"
  ml_predeclared :: "string list"
  ml_defaultRegistry :: string
  ml_lib :: name_pkg
  ml_fs :: "string \<Rightarrow> file_result"
  ml_parse :: "string \<Rightarrow> string \<Rightarrow> string + stmt list"
  ml_ip :: "'w interpreter"

text \<open>
  Its state. A key of the cache is absent (\<open>None\<close>), marked as being loaded (\<open>Some None\<close>, the nil entry) or
  holds an error or the exported globals. \<open>ms_world\<close> is what the builtins write to.
\<close>

record 'w loader_state =
  ms_cache :: "string \<Rightarrow> (go_error + globals) option option"
  ms_expanding :: "string \<Rightarrow> bool"
  ms_rt :: "'w Runtime"
  ms_world :: 'w

definition starImportScanSuffix :: string where
  "starImportScanSuffix = '' (star-import-scan)''"

section \<open>Names and sources\<close>

definition validateModuleName :: "string \<Rightarrow> string + unit" where
  "validateModuleName m =
     (if contains m ''/'' \<or> contains m [CHR 0x5C] then
        Inl (''module name '' @ go_quote m @ '' must not contain path separators'')
      else if \<not> has_suffix m ''.star'' then Inl (''module name '' @ go_quote m @ '' must end with .star'')
      else if has_suffix m ''_test.star'' then
        Inl (''module name '' @ go_quote m @ '' is a test file and cannot be loaded as a module'')
      else Inr ())"

definition isFilesystemRelativeTarget :: "string \<Rightarrow> bool" where
  "isFilesystemRelativeTarget m \<longleftrightarrow> has_prefix m ''./'' \<and> has_suffix m ''.star''"

definition isFilesystemCaller :: "string \<Rightarrow> bool" where
  "isFilesystemCaller threadName \<longleftrightarrow> contains threadName ''/'' \<and> \<not> has_prefix threadName ''oci://''"

text \<open>The loop over the search paths; \<open>searched\<close> is what the error lists.\<close>

fun search_paths :: "(string \<Rightarrow> file_result) \<Rightarrow> string \<Rightarrow> string list \<Rightarrow> string list \<Rightarrow> string + string" where
  "search_paths fs m [] searched =
     Inl (''module '' @ go_quote m @ '' not found; searched: '' @ join '', '' searched)"
| "search_paths fs m (dir # dirs) searched =
     (case fs (path_Join [dir, m]) of
        FileData d \<Rightarrow> Inr d
      | FileError e \<Rightarrow> Inl (''reading module '' @ go_quote m @ '' from '' @ dir @ '': '' @ e)
      | FileNotExist _ \<Rightarrow> search_paths fs m dirs (searched @ [dir]))"

definition resolve_source :: "'w ModuleLoader \<Rightarrow> string \<Rightarrow> string + string" where
  "resolve_source ml m =
     (case map_of (ml_inlineModules ml) m of
        Some src \<Rightarrow> Inr src
      | None \<Rightarrow> search_paths (ml_fs ml) m (ml_searchPaths ml) [''inline modules''])"

section \<open>Which module is meant\<close>

text \<open>
  The first part of \<^verbatim>\<open>load\<close>: a relative load of a file gives its path and content, everything else the key
  of the module.
\<close>

datatype load_target = ByPath string string | ByKey string

definition key_of :: "load_target \<Rightarrow> string" where
  "key_of target = (case target of ByPath p _ \<Rightarrow> p | ByKey k \<Rightarrow> k)"

definition escape_error :: "string \<Rightarrow> string" where
  "escape_error m = ''relative load '' @ go_quote m @ '' rejected: path must not escape the caller'' @ [CHR 0x27] @ ''s directory''"

definition oci_relative :: "'w ModuleLoader \<Rightarrow> string \<Rightarrow> string \<Rightarrow> string + string" where
  "oci_relative ml par m =
     (if \<not> IsPackageLocalTarget m then
        Inl (''OCI package-local load '' @ go_quote m @ '' must be a flat sibling (no subdirectories)'')
      else bind_res (wrap_msg (''parsing OCI parent '' @ go_quote par @ '' for package-local load '' @ go_quote m)
             (ParseOCILoadTarget (ml_lib ml) par)) (\<lambda>pt.
           ExpandPackageLocal (ml_lib ml) m (RefStr pt)))"

definition file_relative :: "'w ModuleLoader \<Rightarrow> string \<Rightarrow> string \<Rightarrow> string + load_target" where
  "file_relative ml par m =
     (if \<not> isFilesystemRelativeTarget m then Inl (''relative load '' @ go_quote m @ '' must end with .star'')
      else let relPath = drop 2 m in
        if has_suffix relPath ''_test.star'' then
          Inl (''relative load '' @ go_quote m @ '' rejected: test files (*_test.star) cannot be loaded as modules'')
        else if \<not> IsLocal relPath then Inl (escape_error m)
        else let resolved = path_Join [path_Dir par, relPath] in
          (case ml_fs ml resolved of
             FileData d \<Rightarrow> Inr (ByPath resolved d)
           | FileNotExist _ \<Rightarrow>
               Inl (''module '' @ go_quote m @ '' not found; resolved to '' @ resolved @ '' from caller '' @ path_Base par)
           | FileError e \<Rightarrow> Inl (''reading module '' @ go_quote m @ '' from '' @ resolved @ '': '' @ e)))"

definition check_key :: "'w ModuleLoader \<Rightarrow> string \<Rightarrow> string + load_target" where
  "check_key ml m =
     (if has_prefix m ''oci://'' then
        (case map_of (ml_inlineModules ml) m of
           None \<Rightarrow> Inl (''OCI module '' @ go_quote m @ '' not resolved; ensure the OCI reference was resolvable before execution'')
         | Some _ \<Rightarrow> Inr (ByKey m))
      else if map_of (ml_inlineModules ml) m \<noteq> None then Inr (ByKey m)
      else bind_res (validateModuleName m) (\<lambda>_. Inr (ByKey m)))"

definition dispatch :: "'w ModuleLoader \<Rightarrow> string \<Rightarrow> string \<Rightarrow> string + load_target" where
  "dispatch ml threadName m =
     (if has_prefix m ''../'' then Inl (escape_error m)
      else if has_prefix m ''./'' then
        let par = trim_suffix threadName starImportScanSuffix in
        if has_prefix par ''oci://'' then bind_res (oci_relative ml par m) (check_key ml)
        else if isFilesystemCaller par then file_relative ml par m
        else Inl (''relative load '' @ go_quote m @ '' requires a filesystem-sourced module; '' @
               ''inline modules have no directory context. Use a flat module name or move to a ConfigMap'')
      else if IsDefaultRegistryTarget m then
        bind_res (ExpandDefaultRegistry m (ml_defaultRegistry ml)) (check_key ml)
      else check_key ml m)"

section \<open>Rewriting a star import\<close>

text \<open>Which names a load statement asks for: \<open>*\<close>, \<open>ns = *\<close>, or an explicit name.\<close>

definition has_star :: "LoadStmt \<Rightarrow> bool" where
  "has_star l \<longleftrightarrow> ''*'' \<in> fst ` set (ls_names l)"

definition explicit_names :: "LoadStmt \<Rightarrow> string list" where
  "explicit_names l = map snd (filter (\<lambda>(from, to). from \<noteq> ''*'') (ls_names l))"

definition namespaces :: "LoadStmt \<Rightarrow> string list" where
  "namespaces l = map snd (filter (\<lambda>(from, to). from = ''*'' \<and> to \<noteq> ''*'') (ls_names l))"

definition star_names :: "LoadStmt \<Rightarrow> string list \<Rightarrow> string list" where
  "star_names l exports = filter (\<lambda>n. n \<notin> set (explicit_names l)) exports"

definition tmp_name :: "string \<Rightarrow> string \<Rightarrow> string" where
  "tmp_name ns nm = ''_ns_'' @ ns @ ''__'' @ nm"

definition load_args :: "LoadStmt \<Rightarrow> string list \<Rightarrow> string list" where
  "load_args l exports =
     map (\<lambda>(from, to). if from = to then go_quote to else to @ ''='' @ go_quote from)
       (filter (\<lambda>(from, to). from \<noteq> ''*'') (ls_names l)) @
     (if (''*'', ''*'') \<in> set (ls_names l) then map go_quote (star_names l exports) else []) @
     concat (map (\<lambda>ns. map (\<lambda>n. tmp_name ns n @ ''='' @ go_quote n) (star_names l exports)) (namespaces l))"

definition struct_lines :: "LoadStmt \<Rightarrow> string list \<Rightarrow> string list" where
  "struct_lines l exports =
     map (\<lambda>ns. ns @ '' = struct('' @ join '', '' (map (\<lambda>n. n @ ''='' @ tmp_name ns n) (star_names l exports)) @ '')'')
       (namespaces l)"

definition newline :: string where
  "newline = [CHR 0x0A]"

definition replacement :: "string \<Rightarrow> LoadStmt \<Rightarrow> string list \<Rightarrow> string" where
  "replacement loadMod l exports =
     (let args = load_args l exports; structs = struct_lines l exports;
          r = (if args \<noteq> [] then ''load('' @ go_quote loadMod @ '', '' @ join '', '' args @ '')'' else [])
      in if structs \<noteq> [] then (if r \<noteq> [] then r @ newline @ join newline structs else join newline structs) else r)"

text \<open>
  The lines of the statement are replaced: the first by the replacement, the others by empty lines; all of
  them are emptied when nothing is imported. A first line out of range would be a panic.
\<close>

fun blank_lines :: "nat \<Rightarrow> nat \<Rightarrow> string list \<Rightarrow> string list" where
  "blank_lines i 0 lines = lines"
| "blank_lines i (Suc n) lines = blank_lines (Suc i) n (lines[i := []])"

definition rewrite_load :: "string \<Rightarrow> LoadStmt \<Rightarrow> string list \<Rightarrow> string list \<Rightarrow> string list option" where
  "rewrite_load loadMod l exports lines =
     (let startLine = ls_line l - 1; endLine = ls_rparen l - 1 in
      if load_args l exports = [] \<and> struct_lines l exports = [] then
        Some (blank_lines startLine (Suc endLine - startLine) lines)
      else if startLine < length lines then
        Some (blank_lines (Suc startLine) (endLine - startLine) (lines[startLine := replacement loadMod l exports]))
      else None)"

text \<open>The module that is scanned for exports, and the name that is written into the new load statement.\<close>

definition star_module :: "'w ModuleLoader \<Rightarrow> string \<Rightarrow> string \<Rightarrow> string + string \<times> string" where
  "star_module ml filename m =
     (if has_prefix m ''./'' then
        if has_prefix filename ''oci://'' then
          (if \<not> IsPackageLocalTarget m then
             Inl (''OCI package-local load '' @ go_quote m @ '' must be a flat sibling'')
           else bind_res (wrap_msg (''parsing OCI parent '' @ go_quote filename @ '' for package-local load '' @ go_quote m)
                  (ParseOCILoadTarget (ml_lib ml) filename)) (\<lambda>pt.
                bind_res (wrap_msg (''resolving star import from '' @ go_quote m)
                  (ExpandPackageLocal (ml_lib ml) m (RefStr pt))) (\<lambda>expanded. Inr (expanded, expanded))))
        else if isFilesystemCaller filename then
          (let relPath = drop 2 m in
           if \<not> IsLocal relPath then Inl (escape_error m)
           else Inr (path_Join [path_Dir filename, relPath], m))
        else Inl (''relative load '' @ go_quote m @ '' requires a filesystem-sourced module; '' @
               ''inline modules have no directory context'')
      else if IsDefaultRegistryTarget m then
        bind_res (wrap_msg (''resolving star import from '' @ go_quote m) (ExpandDefaultRegistry m (ml_defaultRegistry ml)))
          (\<lambda>expanded. Inr (expanded, expanded))
      else Inr (m, m))"

section \<open>Loading\<close>

definition exported :: "globals \<Rightarrow> globals" where
  "exported g = filter (\<lambda>(nm, v). \<not> has_prefix nm ''_'') (map (\<lambda>(nm, v). (nm, freeze v)) g)"

definition module_error :: "string \<Rightarrow> exec_end \<Rightarrow> go_error" where
  "module_error key r =
     (case r of
        EndOk _ \<Rightarrow> fail []
      | EndStepLimit \<Rightarrow>
          fail (''module '' @ key @ '' exceeded execution limit ('' @ show_nat maxSteps @ '' steps): possible infinite loop'')
      | EndEvalError bt e \<Rightarrow> wrap_go (''error in module '' @ key @ '': '' @ bt @ '': '') e
      | EndOther e \<Rightarrow> wrap_go (''error in module '' @ key @ '': '') e)"

text \<open>The error of a failed execution itself.\<close>

definition exec_error :: "exec_end \<Rightarrow> go_error" where
  "exec_error r =
     (case r of
        EndOk _ \<Rightarrow> fail []
      | EndStepLimit \<Rightarrow> fail ''Starlark computation cancelled: too many steps''
      | EndEvalError bt e \<Rightarrow> e
      | EndOther e \<Rightarrow> e)"

definition cached :: "string \<Rightarrow> go_error + globals \<Rightarrow> 'w loader_state \<Rightarrow> (go_error + globals) \<times> 'w loader_state" where
  "cached key r m = (r, m\<lparr>ms_cache := (ms_cache m)(key := Some (Some r))\<rparr>)"

definition compile_module ::
  "'w ModuleLoader \<Rightarrow> string \<Rightarrow> string \<Rightarrow> 'w loader_state \<Rightarrow> (string + 'w program) \<times> 'w loader_state" where
  "compile_module ml source filename m =
     (case getOrCompile (ml_ip ml) source (ml_predeclared ml) filename (ms_rt m) of
        (r, rt) \<Rightarrow> (r, m\<lparr>ms_rt := rt\<rparr>))"

text \<open>The last part of \<^verbatim>\<open>load\<close>, for a module with its source; the same code runs for relative and other loads.\<close>

definition run_module ::
  "'w ModuleLoader \<Rightarrow>
     (string \<Rightarrow> string \<Rightarrow> 'w loader_state \<Rightarrow> ((go_error + string) \<times> 'w loader_state) option) \<Rightarrow>
     (string \<Rightarrow> string \<Rightarrow> 'w loader_state \<Rightarrow> ((go_error + globals) \<times> 'w loader_state) option) \<Rightarrow>
     string \<Rightarrow> string \<Rightarrow> 'w loader_state \<Rightarrow> ((go_error + globals) \<times> 'w loader_state) option" where
  "run_module ml star ld key source m =
     (case star source key m of
        None \<Rightarrow> None
      | Some (Inl e, m) \<Rightarrow> Some (cached key (Inl (wrap_go (''expanding star imports in module '' @ key @ '': '') e)) m)
      | Some (Inr source, m) \<Rightarrow>
          (case compile_module ml source key m of
             (Inl e, m) \<Rightarrow> Some (cached key (Inl (fail (''compiling module '' @ key @ '': '' @ e))) m)
           | (Inr prog, m) \<Rightarrow>
               (case run_program (ld key) ms_world (\<lambda>w m. m\<lparr>ms_world := w\<rparr>) (prog (ms_world m)) m of
                  None \<Rightarrow> None
                | Some (EndOk g, m) \<Rightarrow> Some (cached key (Inr (exported g)) m)
                | Some (r, m) \<Rightarrow> Some (cached key (Inl (module_error key r)) m))))"

definition target_source :: "'w ModuleLoader \<Rightarrow> load_target \<Rightarrow> string + string" where
  "target_source ml target = (case target of ByPath _ d \<Rightarrow> Inr d | ByKey k \<Rightarrow> resolve_source ml k)"

definition load_body ::
  "'w ModuleLoader \<Rightarrow>
     (string \<Rightarrow> string \<Rightarrow> 'w loader_state \<Rightarrow> ((go_error + string) \<times> 'w loader_state) option) \<Rightarrow>
     (string \<Rightarrow> string \<Rightarrow> 'w loader_state \<Rightarrow> ((go_error + globals) \<times> 'w loader_state) option) \<Rightarrow>
     string \<Rightarrow> string \<Rightarrow> 'w loader_state \<Rightarrow> ((go_error + globals) \<times> 'w loader_state) option" where
  "load_body ml star ld threadName md m =
     (case dispatch ml threadName md of
        Inl e \<Rightarrow> Some (Inl (fail e), m)
      | Inr target \<Rightarrow>
          let key = key_of target in
          (case ms_cache m key of
             Some (Some e) \<Rightarrow> Some (e, m)
           | Some None \<Rightarrow> Some (Inl (fail (''cycle in load graph: '' @ key)), m)
           | None \<Rightarrow>
               let m = m\<lparr>ms_cache := (ms_cache m)(key := Some None)\<rparr> in
               (case target_source ml target of
                  Inl e \<Rightarrow> Some (cached key (Inl (fail e)) m)
                | Inr source \<Rightarrow> run_module ml star ld key source m)))"

definition exports_source :: "'w ModuleLoader \<Rightarrow> string \<Rightarrow> string + string" where
  "exports_source ml md =
     (if IsAbs md
      then (case ml_fs ml md of
              FileData d \<Rightarrow> Inr d
            | FileNotExist e \<Rightarrow> Inl (''reading module '' @ go_quote md @ '': '' @ e)
            | FileError e \<Rightarrow> Inl (''reading module '' @ go_quote md @ '': '' @ e))
      else resolve_source ml md)"

definition exports_body ::
  "'w ModuleLoader \<Rightarrow>
     (string \<Rightarrow> string \<Rightarrow> 'w loader_state \<Rightarrow> ((go_error + string) \<times> 'w loader_state) option) \<Rightarrow>
     (string \<Rightarrow> string \<Rightarrow> 'w loader_state \<Rightarrow> ((go_error + globals) \<times> 'w loader_state) option) \<Rightarrow>
     string \<Rightarrow> 'w loader_state \<Rightarrow> ((go_error + string list) \<times> 'w loader_state) option" where
  "exports_body ml star ld md m =
     (case exports_source ml md of
        Inl e \<Rightarrow> Some (Inl (fail e), m)
      | Inr src \<Rightarrow>
          (case star src md m of
             None \<Rightarrow> None
           | Some (Inl e, m) \<Rightarrow>
               Some (Inl (wrap_go (''expanding star imports in module '' @ md @ '' for export scan: '') e), m)
           | Some (Inr src, m) \<Rightarrow>
               (case compile_module ml src md m of
                  (Inl e, m) \<Rightarrow> Some (Inl (fail (''compiling module '' @ md @ '' for star import: '' @ e)), m)
                | (Inr prog, m) \<Rightarrow>
                    (case run_program (ld (md @ starImportScanSuffix)) ms_world (\<lambda>w m. m\<lparr>ms_world := w\<rparr>) (prog (ms_world m)) m of
                       None \<Rightarrow> None
                     | Some (EndOk g, m) \<Rightarrow>
                         Some (Inr (sort (filter (\<lambda>nm. \<not> has_prefix nm ''_'') (map fst g))), m)
                     | Some (r, m) \<Rightarrow>
                         Some (Inl (wrap_go (''executing module '' @ md @ '' for star import: '') (exec_error r)), m)))))"

text \<open>The loop over the star loads, last one first; a panic on a line out of range is an error here.\<close>

fun star_loop ::
  "'w ModuleLoader \<Rightarrow> (string \<Rightarrow> 'w loader_state \<Rightarrow> ((go_error + string list) \<times> 'w loader_state) option) \<Rightarrow>
     string \<Rightarrow> LoadStmt list \<Rightarrow> string list \<Rightarrow> 'w loader_state \<Rightarrow> ((go_error + string list) \<times> 'w loader_state) option" where
  "star_loop ml exports filename [] lines m = Some (Inr lines, m)"
| "star_loop ml exports filename (l # ls) lines m =
     (case star_module ml filename (ls_module l) of
        Inl e \<Rightarrow> Some (Inl (fail e), m)
      | Inr (md, loadMod) \<Rightarrow>
          (case exports md m of
             None \<Rightarrow> None
           | Some (Inl e, m) \<Rightarrow> Some (Inl (wrap_go (''resolving star import from '' @ go_quote md @ '': '') e), m)
           | Some (Inr ex, m) \<Rightarrow>
               (case rewrite_load loadMod l ex lines of
                  None \<Rightarrow> Some (Inl (fail ''index out of range''), m)
                | Some lines \<Rightarrow> star_loop ml exports filename ls lines m)))"

definition star_loads :: "stmt list \<Rightarrow> LoadStmt list" where
  "star_loads stmts = concat (map (\<lambda>s. case s of Load l \<Rightarrow> if has_star l then [l] else [] | OtherStmt \<Rightarrow> []) stmts)"

definition star_body ::
  "'w ModuleLoader \<Rightarrow> (string \<Rightarrow> 'w loader_state \<Rightarrow> ((go_error + string list) \<times> 'w loader_state) option) \<Rightarrow>
     string \<Rightarrow> string \<Rightarrow> 'w loader_state \<Rightarrow> ((go_error + string) \<times> 'w loader_state) option" where
  "star_body ml exports source filename m =
     (let key = starScanKey (ml_ip ml) source filename in
      if ms_expanding m filename \<or> hasNoStarImports key (ms_rt m) then Some (Inr source, m)
      else (case ml_parse ml filename source of
          Inl _ \<Rightarrow> Some (Inr source, m)
        | Inr stmts \<Rightarrow>
            if star_loads stmts = [] then Some (Inr source, m\<lparr>ms_rt := markNoStarImports key (ms_rt m)\<rparr>)
            else (case star_loop ml exports filename (rev (star_loads stmts)) (split_on (CHR 0x0A) source)
                    (m\<lparr>ms_expanding := (ms_expanding m)(filename := True)\<rparr>) of
                None \<Rightarrow> None
              | Some (r, m) \<Rightarrow>
                  Some ((case r of Inl e \<Rightarrow> Inl e | Inr lines \<Rightarrow> Inr (join newline lines)),
                    m\<lparr>ms_expanding := (ms_expanding m)(filename := False)\<rparr>))))"

fun load :: "nat \<Rightarrow> 'w ModuleLoader \<Rightarrow> string \<Rightarrow> string \<Rightarrow> 'w loader_state \<Rightarrow> ((go_error + globals) \<times> 'w loader_state) option"
  and ResolveStarImports ::
    "nat \<Rightarrow> 'w ModuleLoader \<Rightarrow> string \<Rightarrow> string \<Rightarrow> 'w loader_state \<Rightarrow> ((go_error + string) \<times> 'w loader_state) option"
  and getModuleExports ::
    "nat \<Rightarrow> 'w ModuleLoader \<Rightarrow> string \<Rightarrow> 'w loader_state \<Rightarrow> ((go_error + string list) \<times> 'w loader_state) option" where
  "load 0 ml threadName md m = None"
| "load (Suc n) ml threadName md m =
     load_body ml (\<lambda>source filename m. ResolveStarImports n ml source filename m)
       (\<lambda>threadName md m. load n ml threadName md m) threadName md m"
| "ResolveStarImports 0 ml source filename m = None"
| "ResolveStarImports (Suc n) ml source filename m =
     star_body ml (\<lambda>md m. getModuleExports n ml md m) source filename m"
| "getModuleExports 0 ml md m = None"
| "getModuleExports (Suc n) ml md m =
     exports_body ml (\<lambda>source filename m. ResolveStarImports n ml source filename m)
       (\<lambda>threadName md m. load n ml threadName md m) md m"

section \<open>The steps of a load\<close>

text \<open>How a module run, a load, an export scan and an expansion can end, and through which states they go.\<close>

lemma run_moduleE:
  assumes "run_module ml star ld key source m = Some (r, m')"
  obtains (star) e m1 where "star source key m = Some (Inl e, m1)" "(r, m') = cached key r m1" "isl r"
  | (compile) src m1 e m2 where "star source key m = Some (Inr src, m1)" "compile_module ml src key m1 = (Inl e, m2)"
      "(r, m') = cached key r m2" "isl r"
  | (run) src m1 prog m2 x m3 where "star source key m = Some (Inr src, m1)" "compile_module ml src key m1 = (Inr prog, m2)"
      "run_program (ld key) ms_world (\<lambda>w m. m\<lparr>ms_world := w\<rparr>) (prog (ms_world m2)) m2 = Some (x, m3)"
      "(r, m') = cached key r m3" "isl r \<or> (\<exists>g. x = EndOk g \<and> r = Inr (exported g))"
  using assms unfolding run_module_def
  by (auto simp: cached_def split: option.splits sum.splits prod.splits exec_end.splits)

lemma load_bodyE:
  assumes "load_body ml star ld thr md m = Some (r, m')"
  obtains (same) "m' = m" "\<And>target. dispatch ml thr md = Inr target \<Longrightarrow> ms_cache m (key_of target) \<noteq> None \<and>
      (ms_cache m (key_of target) \<noteq> Some None \<longrightarrow> ms_cache m (key_of target) = Some (Some r))"
  | (missing) target e where "dispatch ml thr md = Inr target" "ms_cache m (key_of target) = None"
      "(r, m') = cached (key_of target) (Inl (fail e)) (m\<lparr>ms_cache := (ms_cache m)(key_of target := Some None)\<rparr>)"
  | (run) target source where "dispatch ml thr md = Inr target" "ms_cache m (key_of target) = None"
      "run_module ml star ld (key_of target) source (m\<lparr>ms_cache := (ms_cache m)(key_of target := Some None)\<rparr>) = Some (r, m')"
proof (cases "dispatch ml thr md")
  case (Inr target)
  note body = assms [unfolded load_body_def Inr sum.case Let_def]
  show ?thesis
  proof (cases "ms_cache m (key_of target)")
    case None
    note body = body [unfolded None option.case]
    show ?thesis
    proof (cases "target_source ml target")
      case (Inl e)
      with body have "(r, m') = cached (key_of target) (Inl (fail e)) (m\<lparr>ms_cache := (ms_cache m)(key_of target := Some None)\<rparr>)"
        by simp
      then show ?thesis by (rule missing [OF Inr None])
    next
      case src: (Inr source)
      with body run [OF Inr None] show ?thesis by simp
    qed
  next
    case (Some e)
    with body Inr same show ?thesis by (cases e) auto
  qed
qed (use assms same in \<open>simp add: load_body_def\<close>)

lemma exports_bodyE:
  assumes "exports_body ml star ld md m = Some (r, m')"
  obtains (missing) "m' = m"
  | (star) src e where "star src md m = Some (Inl e, m')"
  | (compile) src src' m1 e where "star src md m = Some (Inr src', m1)" "compile_module ml src' md m1 = (Inl e, m')"
  | (run) src src' m1 prog m2 x where "star src md m = Some (Inr src', m1)" "compile_module ml src' md m1 = (Inr prog, m2)"
      "run_program (ld (md @ starImportScanSuffix)) ms_world (\<lambda>w m. m\<lparr>ms_world := w\<rparr>) (prog (ms_world m2)) m2 = Some (x, m')"
  using assms unfolding exports_body_def
  by (auto split: option.splits sum.splits prod.splits exec_end.splits)

lemma star_bodyE:
  assumes "star_body ml ex source filename m = Some (r, m')"
  obtains (same) "m' = m" | (memo) key where "m' = m\<lparr>ms_rt := markNoStarImports key (ms_rt m)\<rparr>"
  | (loop) ls lines r1 m1 where "\<not> ms_expanding m filename"
      "star_loop ml ex filename ls lines (m\<lparr>ms_expanding := (ms_expanding m)(filename := True)\<rparr>) = Some (r1, m1)"
      "m' = m1\<lparr>ms_expanding := (ms_expanding m1)(filename := False)\<rparr>"
  using assms unfolding star_body_def Let_def
  by (auto split: if_splits option.splits sum.splits)

section \<open>What every operation keeps\<close>

text \<open>
  The contract of the state relations that the loader's operations respect: programs only act through the
  load function and on the outside world, so a relation that both keep is kept by every run.
\<close>

locale run_relation =
  fixes R :: "'s \<Rightarrow> 's \<Rightarrow> bool" and get :: "'s \<Rightarrow> 'w" and put :: "'w \<Rightarrow> 's \<Rightarrow> 's"
  assumes R_refl: "R m m"
    and R_trans: "R m m' \<Longrightarrow> R m' m'' \<Longrightarrow> R m m''"
    and R_put: "R m (put w m)"
begin

lemma run_program_R:
  assumes "\<And>md m r m'. ld md m = Some (r, m') \<Longrightarrow> R m m'"
  shows "run_program ld get put t m = Some (r, m') \<Longrightarrow> R m m'"
proof (induction t arbitrary: m)
  case (LoadCall md w k)
  then obtain res m1 where 1: "ld md (put w m) = Some (res, m1)"
    and 2: "run_program ld get put (k res (get m1)) m1 = Some (r, m')"
    by (auto split: option.splits)
  have "R m1 m'" by (rule LoadCall.IH [OF _ _ 2]) (auto simp: fun_eq_iff)
  with assms [OF 1] R_put R_trans show ?case by blast
qed (auto intro: R_put)

lemma run_program_total:
  assumes "\<And>md m' r m''. ld md m' = Some (r, m'') \<Longrightarrow> R m' m''"
    and "\<And>md m'. R m m' \<Longrightarrow> ld md m' \<noteq> None"
  shows "run_program ld get put t m \<noteq> None"
  using assms(2)
proof (induction t arbitrary: m)
  case (LoadCall md w k)
  from LoadCall.prems [OF R_put] obtain res m1 where 1: "ld md (put w m) = Some (res, m1)" by fastforce
  have "R m m1" using R_put assms(1) [OF 1] by (rule R_trans)
  then have "run_program ld get put (k res (get m1)) m1 \<noteq> None"
    by (intro LoadCall.IH LoadCall.prems) (auto intro: R_trans)
  with 1 show ?case by simp
qed simp

end

text \<open>
  Finished modules keep their entry, marks of modules that are being loaded stay, and no operation leaves a
  new mark behind; the set of files under expansion is restored; exported globals have no private names
  and are frozen.
\<close>

definition grows :: "'w loader_state \<Rightarrow> 'w loader_state \<Rightarrow> bool" where
  "grows m m' \<longleftrightarrow>
     (\<forall>k e. ms_cache m k = Some e \<longrightarrow> ms_cache m' k = Some e) \<and>
     (\<forall>k. ms_cache m' k = Some None \<longrightarrow> ms_cache m k = Some None)"

definition exports_ok :: "'w loader_state \<Rightarrow> bool" where
  "exports_ok m \<longleftrightarrow>
     (\<forall>k g. ms_cache m k = Some (Some (Inr g)) \<longrightarrow>
        (\<forall>nm v. (nm, v) \<in> set g \<longrightarrow> \<not> has_prefix nm ''_'' \<and> deep_frozen v))"

definition keeps :: "'w loader_state \<Rightarrow> 'w loader_state \<Rightarrow> bool" where
  "keeps m m' \<longleftrightarrow>
     grows m m' \<and> ms_expanding m' = ms_expanding m \<and> (exports_ok m \<longrightarrow> exports_ok m')"

lemma expanding_irrelevant [simp]:
  "grows (m\<lparr>ms_expanding := x\<rparr>) m' = grows m m'" "grows m (m'\<lparr>ms_expanding := x\<rparr>) = grows m m'"
  "exports_ok (m\<lparr>ms_expanding := x\<rparr>) = exports_ok m"
  by (simp_all add: grows_def exports_ok_def)

lemma keeps_refl [simp]: "keeps m m"
  by (simp add: keeps_def grows_def)

lemma grows_trans: "grows m m' \<Longrightarrow> grows m' m'' \<Longrightarrow> grows m m''"
  unfolding grows_def by blast

lemma keeps_trans: "keeps m m' \<Longrightarrow> keeps m' m'' \<Longrightarrow> keeps m m''"
  using grows_trans [of m m' m''] by (simp add: keeps_def)

lemma keeps_fields [simp]:
  "keeps m (m\<lparr>ms_world := w\<rparr>)" "keeps m (m\<lparr>ms_rt := rt\<rparr>)"
  by (simp_all add: keeps_def grows_def exports_ok_def)

lemma keeps_entry: "keeps m m' \<Longrightarrow> ms_cache m k = Some e \<Longrightarrow> ms_cache m' k = Some e"
  unfolding keeps_def grows_def by blast

lemma keeps_mark: "keeps m m' \<Longrightarrow> ms_cache m' k = Some None \<Longrightarrow> ms_cache m k = Some None"
  unfolding keeps_def grows_def by blast

interpretation kp: run_relation keeps ms_world "\<lambda>w m. m\<lparr>ms_world := w\<rparr>"
  by unfold_locales (auto intro: keeps_trans)

lemma exported_ok: "(nm, v) \<in> set (exported g) \<Longrightarrow> \<not> has_prefix nm ''_'' \<and> deep_frozen v"
  by (auto simp: exported_def freeze_deep_frozen)

text \<open>Entering a module and storing its result.\<close>

lemma keeps_cached:
  assumes "ms_cache m0 key = None" and "keeps (m0\<lparr>ms_cache := (ms_cache m0)(key := Some None)\<rparr>) m"
    and "\<And>g. r = Inr g \<Longrightarrow> (\<forall>nm v. (nm, v) \<in> set g \<longrightarrow> \<not> has_prefix nm ''_'' \<and> deep_frozen v)"
  shows "keeps m0 (snd (cached key r m))"
proof -
  let ?m0 = "m0\<lparr>ms_cache := (ms_cache m0)(key := Some None)\<rparr>"
  have g: "grows ?m0 m" "ms_expanding m = ms_expanding m0" "exports_ok ?m0 \<longrightarrow> exports_ok m"
    using assms(2) by (auto simp: keeps_def)
  have "grows m0 (snd (cached key r m))"
    using g(1) assms(1) unfolding grows_def cached_def by (auto split: if_splits)
  moreover have "exports_ok (snd (cached key r m))" if "exports_ok m0"
  proof -
    have "exports_ok ?m0" using that by (simp add: exports_ok_def)
    with g(3) show ?thesis using assms(3) unfolding exports_ok_def cached_def by (auto split: if_splits)
  qed
  ultimately show ?thesis using g(2) by (simp add: keeps_def cached_def)
qed

lemma compile_module_keeps: "compile_module ml source filename m = (r, m') \<Longrightarrow> keeps m m'"
  by (auto simp: compile_module_def split: prod.splits)

lemma run_module_keeps:
  assumes star: "\<And>s f m r m'. star s f m = Some (r, m') \<Longrightarrow> keeps m m'"
    and ld: "\<And>t md m r m'. ld t md m = Some (r, m') \<Longrightarrow> keeps m m'"
    and run: "run_module ml star ld key source m = Some (r, m')"
  obtains m1 where "keeps m m1" "(r, m') = cached key r m1"
    "\<And>g. r = Inr g \<Longrightarrow> (\<forall>nm v. (nm, v) \<in> set g \<longrightarrow> \<not> has_prefix nm ''_'' \<and> deep_frozen v)"
  using run
proof (cases rule: run_moduleE)
  case (star e m1)
  then show ?thesis using assms(1) by (intro that [of m1]) auto
next
  case (compile src m1 e m2)
  then show ?thesis using keeps_trans [OF assms(1) compile_module_keeps] by (intro that [of m2]) auto
next
  case (run src m1 prog m2 x m3)
  have "keeps m m3"
    by (rule keeps_trans [OF keeps_trans [OF star [OF run(1)] compile_module_keeps [OF run(2)]] kp.run_program_R [OF ld run(3)]])
  then show ?thesis using run(4,5) by (intro that [of m3]) (auto dest: exported_ok)
qed

lemma load_body_keeps:
  assumes star: "\<And>s f m r m'. star s f m = Some (r, m') \<Longrightarrow> keeps m m'"
    and ld: "\<And>t md m r m'. ld t md m = Some (r, m') \<Longrightarrow> keeps m m'"
    and body: "load_body ml star ld thr md m = Some (r, m')"
  shows "keeps m m'"
    and "dispatch ml thr md = Inr target \<Longrightarrow> ms_cache m (key_of target) \<noteq> Some None \<Longrightarrow>
      ms_cache m' (key_of target) = Some (Some r)"
proof -
  have "keeps m m' \<and> (\<forall>target. dispatch ml thr md = Inr target \<longrightarrow> ms_cache m (key_of target) \<noteq> Some None \<longrightarrow>
      ms_cache m' (key_of target) = Some (Some r))"
    using body
  proof (cases rule: load_bodyE)
    case same
    then show ?thesis by (metis keeps_refl)
  next
    case (missing target e)
    then have "r = Inl (fail e)" "m' = snd (cached (key_of target) r (m\<lparr>ms_cache := (ms_cache m)(key_of target := Some None)\<rparr>))"
      by (auto simp: cached_def)
    with keeps_cached [OF missing(2) keeps_refl, of r] missing(1) show ?thesis by (simp add: cached_def)
  next
    case (run target source)
    obtain m1 where m1: "keeps (m\<lparr>ms_cache := (ms_cache m)(key_of target := Some None)\<rparr>) m1" "(r, m') = cached (key_of target) r m1"
      "\<And>g. r = Inr g \<Longrightarrow> (\<forall>nm v. (nm, v) \<in> set g \<longrightarrow> \<not> has_prefix nm ''_'' \<and> deep_frozen v)"
      by (rule run_module_keeps [OF star ld run(3)]) blast+
    from m1(2) have "m' = snd (cached (key_of target) r m1)" by (metis snd_conv)
    then show ?thesis using keeps_cached [OF run(2) m1(1,3)] run(1) by (simp add: cached_def)
  qed
  then show "keeps m m'" and "dispatch ml thr md = Inr target \<Longrightarrow> ms_cache m (key_of target) \<noteq> Some None \<Longrightarrow>
      ms_cache m' (key_of target) = Some (Some r)" by blast+
qed

lemma exports_body_keeps:
  assumes star: "\<And>s f m r m'. star s f m = Some (r, m') \<Longrightarrow> keeps m m'"
    and ld: "\<And>t md m r m'. ld t md m = Some (r, m') \<Longrightarrow> keeps m m'"
    and body: "exports_body ml star ld md m = Some (r, m')"
  shows "keeps m m'"
  using body
proof (cases rule: exports_bodyE)
  case (run src src' m1 prog m2 x)
  show ?thesis
    by (rule keeps_trans [OF keeps_trans [OF star [OF run(1)] compile_module_keeps [OF run(2)]] kp.run_program_R [OF ld run(3)]])
qed (auto intro: star keeps_trans [OF star compile_module_keeps])

lemma star_loop_keeps:
  assumes "\<And>md m r m'. ex md m = Some (r, m') \<Longrightarrow> keeps m m'"
  shows "star_loop ml ex filename ls lines m = Some (r, m') \<Longrightarrow> keeps m m'"
proof (induction ls arbitrary: lines m)
  case (Cons l ls)
  show ?case
  proof (cases "star_module ml filename (ls_module l)")
    case (Inr p)
    obtain md loadMod where p: "p = (md, loadMod)" by (cases p)
    from Cons.prems Inr p obtain r1 m1 where x: "ex md m = Some (r1, m1)" by (auto split: option.splits)
    note k = assms [OF x]
    show ?thesis
    proof (cases r1)
      case (Inr e)
      show ?thesis
      proof (cases "rewrite_load loadMod l e lines")
        case (Some lines')
        with Cons.prems \<open>star_module ml filename (ls_module l) = Inr p\<close> p x Inr
        have "star_loop ml ex filename ls lines' m1 = Some (r, m')" by simp
        from Cons.IH [OF this] k show ?thesis using keeps_trans by blast
      qed (use Cons.prems \<open>star_module ml filename (ls_module l) = Inr p\<close> p x Inr k in simp)
    qed (use Cons.prems Inr p x k in simp)
  qed (use Cons.prems in simp)
qed simp

lemma star_body_keeps:
  assumes ex: "\<And>md m r m'. ex md m = Some (r, m') \<Longrightarrow> keeps m m'"
    and body: "star_body ml ex source filename m = Some (r, m')"
  shows "keeps m m'"
  using body
proof (cases rule: star_bodyE)
  case (loop ls lines r1 m1)
  from star_loop_keeps [OF ex loop(2)]
  have k: "grows m m1" "ms_expanding m1 = (ms_expanding m)(filename := True)" "exports_ok m \<longrightarrow> exports_ok m1"
    by (simp_all add: keeps_def)
  have "ms_expanding m' = ms_expanding m" using k(2) loop(1,3) by (auto simp: fun_eq_iff)
  then show ?thesis using k loop(3) by (simp add: keeps_def)
qed simp_all

lemma loader_keeps:
  "load n ml thr md m = Some (r, m') \<Longrightarrow> keeps m m'"
  "ResolveStarImports n ml source filename m = Some (r', m') \<Longrightarrow> keeps m m'"
  "getModuleExports n ml md m = Some (r'', m') \<Longrightarrow> keeps m m'"
proof (induction n arbitrary: thr md m r m' source filename r' r'')
  case (Suc n)
  {
    case 1
    show ?case by (rule load_body_keeps(1) [OF Suc.IH(2) Suc.IH(1) 1 [unfolded load.simps]])
  next
    case 2
    show ?case by (rule star_body_keeps [OF Suc.IH(3) 2 [unfolded ResolveStarImports.simps]])
  next
    case 3
    show ?case by (rule exports_body_keeps [OF Suc.IH(2) Suc.IH(1) 3 [unfolded getModuleExports.simps]])
  }
qed simp_all

section \<open>Loading comes to an end\<close>

text \<open>
  The sources a name may have; the keys under which a \<open>load\<close> call can find a module; and that a script
  star-imports names of a set only. Names of star imports are not validated, and a file has
  infinitely many names with empty segments, so which names occur has to be said.
\<close>

definition sources :: "'w ModuleLoader \<Rightarrow> string \<Rightarrow> string set" where
  "sources ml k = {src. resolve_source ml k = Inr src \<or> ml_fs ml k = FileData src}"

definition load_keys :: "'w ModuleLoader \<Rightarrow> string set" where
  "load_keys ml = {key_of target | target. \<exists>thr md src. dispatch ml thr md = Inr target \<and> target_source ml target = Inr src}"

definition stars_in :: "'w ModuleLoader \<Rightarrow> string set \<Rightarrow> string \<Rightarrow> string \<Rightarrow> bool" where
  "stars_in ml S source filename \<longleftrightarrow>
     (\<forall>stmts l md loadMod. ml_parse ml filename source = Inr stmts \<longrightarrow> l \<in> set (star_loads stmts) \<longrightarrow>
        star_module ml filename (ls_module l) = Inr (md, loadMod) \<longrightarrow> md \<in> S)"

definition stars_closed :: "'w ModuleLoader \<Rightarrow> string set \<Rightarrow> bool" where
  "stars_closed ml S \<longleftrightarrow> (\<forall>filename \<in> load_keys ml \<union> S. \<forall>source \<in> sources ml filename. stars_in ml S source filename)"

definition files :: "'w ModuleLoader \<Rightarrow> string set" where
  "files ml = {p. \<exists>d. ml_fs ml p = FileData d}"

definition finite_files :: "'w ModuleLoader \<Rightarrow> bool" where
  "finite_files ml \<longleftrightarrow> finite (files ml)"

lemma dispatch_source:
  "dispatch ml thr md = Inr target \<Longrightarrow> target_source ml target = Inr src \<Longrightarrow>
     key_of target \<in> load_keys ml \<and> src \<in> sources ml (key_of target)"
proof
  assume d: "dispatch ml thr md = Inr target" and s: "target_source ml target = Inr src"
  then show "key_of target \<in> load_keys ml" by (auto simp: load_keys_def)
  show "src \<in> sources ml (key_of target)"
  proof (cases target)
    case (ByPath p data)
    with d have "ml_fs ml p = FileData data"
      unfolding dispatch_def Let_def
      by (auto simp: file_relative_def check_key_def Let_def bind_res_eq_Inr split: if_splits file_result.splits option.splits)
    with s ByPath show ?thesis by (simp add: target_source_def sources_def key_of_def)
  qed (use s in \<open>simp add: target_source_def sources_def key_of_def\<close>)
qed

lemma exports_source_in: "exports_source ml md = Inr src \<Longrightarrow> src \<in> sources ml md"
  by (auto simp: exports_source_def sources_def split: if_splits file_result.splits)

text \<open>A flat module name is the last segment of the file it is found in.\<close>

lemma flat_segs: "CHR ''/'' \<notin> set m \<Longrightarrow> m \<noteq> [] \<Longrightarrow> m \<noteq> ''.'' \<Longrightarrow> m \<noteq> ''..'' \<Longrightarrow> path_segs m = [m] \<and> IsLocal m"
proof -
  assume m: "CHR ''/'' \<notin> set m" "m \<noteq> []" "m \<noteq> ''.''" "m \<noteq> ''..''"
  then have abs: "\<not> IsAbs m" by (cases m) (auto simp: IsAbs_def has_prefix_def)
  have split: "split_on (CHR ''/'') m = [m]" using m(1) by (rule split_on_single)
  then have "path_segs m = [m]" using m by (simp add: path_segs_def clean_step_def)
  moreover have "\<not> has_prefix m ''../''" using m(1) by (auto simp: has_prefix_iff)
  ultimately show ?thesis using abs split m by (auto simp: IsLocal_def)
qed

lemma flat_file:
  assumes "CHR ''/'' \<notin> set m" "m \<noteq> []" "m \<noteq> ''.''" "m \<noteq> ''..''"
  shows "m = last (path_segs (path_Join [dir, m]))"
proof (cases "dir = []")
  case True
  then have "path_Join [dir, m] = Clean m" using assms by (simp add: path_Join_def)
  with flat_segs [OF assms] show ?thesis by simp
qed (use Join_IsLocal(1) [of m dir] flat_segs [OF assms] in simp)

lemma search_paths_file:
  "search_paths fs m dirs searched = Inr src \<Longrightarrow> \<exists>dir \<in> set dirs. fs (path_Join [dir, m]) = FileData src"
  by (induction fs m dirs searched rule: search_paths.induct) (auto split: file_result.splits)

lemma load_keys_files:
  "load_keys ml \<subseteq> fst ` set (ml_inlineModules ml) \<union> files ml \<union> (\<lambda>p. last (path_segs p)) ` files ml"
proof
  fix k assume "k \<in> load_keys ml"
  then obtain thr md target src where d: "dispatch ml thr md = Inr target" and s: "target_source ml target = Inr src"
    and k: "k = key_of target" by (auto simp: load_keys_def)
  show "k \<in> fst ` set (ml_inlineModules ml) \<union> files ml \<union> (\<lambda>p. last (path_segs p)) ` files ml"
  proof (cases target)
    case (ByPath p data)
    with d have "ml_fs ml p = FileData data"
      unfolding dispatch_def Let_def
      by (auto simp: file_relative_def check_key_def Let_def bind_res_eq_Inr split: if_splits file_result.splits option.splits)
    with k ByPath show ?thesis by (auto simp: key_of_def files_def)
  next
    case (ByKey m)
    show ?thesis
    proof (cases "map_of (ml_inlineModules ml) m")
      case (Some x)
      with k ByKey show ?thesis by (force simp: key_of_def dest: map_of_SomeD)
    next
      case None
      have rel: "file_relative ml par md' \<noteq> Inr (ByKey m)" for par md'
        by (auto simp: file_relative_def Let_def split: file_result.splits)
      from d ByKey None have "validateModuleName m = Inr ()"
        unfolding dispatch_def Let_def by (auto simp: check_key_def bind_res_eq_Inr rel split: if_splits option.splits)
      then have flat: "CHR ''/'' \<notin> set m" "has_suffix m ''.star''"
        by (auto simp: validateModuleName_def contains_char [of m "CHR ''/''", simplified] split: if_splits)
      then have "m \<noteq> []" "m \<noteq> ''.''" "m \<noteq> ''..''" by (auto simp: has_suffix_iff Cons_eq_append_conv)
      from s ByKey None search_paths_file obtain dir where "ml_fs ml (path_Join [dir, m]) = FileData src"
        by (fastforce simp: target_source_def resolve_source_def)
      with flat_file [OF flat(1) \<open>m \<noteq> []\<close> \<open>m \<noteq> ''.''\<close> \<open>m \<noteq> ''..''\<close>, of dir] k ByKey show ?thesis
        by (auto simp: key_of_def files_def)
    qed
  qed
qed

lemma finite_load_keys: "finite_files ml \<Longrightarrow> finite (load_keys ml)"
  by (rule finite_subset [OF load_keys_files]) (simp add: finite_files_def)

text \<open>Of the names \<open>K\<close>: those not in the cache, and those not under expansion.\<close>

definition unloaded :: "string set \<Rightarrow> 'w loader_state \<Rightarrow> string set" where
  "unloaded K m = {k \<in> K. ms_cache m k = None}"

definition unexpanded :: "string set \<Rightarrow> 'w loader_state \<Rightarrow> string set" where
  "unexpanded K m = {k \<in> K. \<not> ms_expanding m k}"

lemma keeps_unloaded: "keeps m m' \<Longrightarrow> unloaded K m' \<subseteq> unloaded K m"
proof -
  assume k: "keeps m m'"
  have "ms_cache m k = None" if "ms_cache m' k = None" for k
  proof (rule ccontr)
    assume "ms_cache m k \<noteq> None"
    then obtain e where "ms_cache m k = Some e" by blast
    from keeps_entry [OF k this] that show False by simp
  qed
  then show ?thesis by (auto simp: unloaded_def)
qed

lemma keeps_unexpanded: "keeps m m' \<Longrightarrow> unexpanded K m' = unexpanded K m"
  by (simp add: keeps_def unexpanded_def)

text \<open>The fuel that is enough, with \<open>a\<close> of \<open>M\<close> names to load.\<close>

definition load_fuel :: "nat \<Rightarrow> nat \<Rightarrow> nat" where
  "load_fuel M a = 1 + a * (2 * M + 2)"

lemma run_module_total:
  assumes "\<And>s f m r m'. star s f m = Some (r, m') \<Longrightarrow> keeps m m'"
    and "\<And>t md m r m'. ld t md m = Some (r, m') \<Longrightarrow> keeps m m'"
    and "star source key m \<noteq> None" and "\<And>md m'. keeps m m' \<Longrightarrow> ld key md m' \<noteq> None"
  shows "run_module ml star ld key source m \<noteq> None"
proof -
  from assms(3) obtain r1 m1 where s: "star source key m = Some (r1, m1)" by fastforce
  note k1 = assms(1) [OF s]
  show ?thesis
  proof (cases r1)
    case (Inr source')
    obtain r2 m2 where c: "compile_module ml source' key m1 = (r2, m2)" by fastforce
    note k2 = keeps_trans [OF k1 compile_module_keeps [OF c]]
    show ?thesis
    proof (cases r2)
      case (Inr prog)
      have "run_program (ld key) ms_world (\<lambda>w m. m\<lparr>ms_world := w\<rparr>) (prog (ms_world m2)) m2 \<noteq> None"
        by (rule kp.run_program_total) (use assms(2,4) keeps_trans [OF k2] in blast)+
      then show ?thesis using s \<open>r1 = Inr source'\<close> c Inr
        by (auto simp: run_module_def split: exec_end.splits)
    qed (use s Inr c in \<open>simp add: run_module_def\<close>)
  qed (use s in \<open>simp add: run_module_def\<close>)
qed

lemma star_loop_total:
  fixes ml :: "'w ModuleLoader" and m :: "'w loader_state"
  assumes "\<And>md m r m'. ex md m = Some (r, m') \<Longrightarrow> keeps m m'" and "\<And>md m'. md \<in> S \<Longrightarrow> keeps m m' \<Longrightarrow> ex md m' \<noteq> None"
    and "\<And>l md loadMod. l \<in> set ls \<Longrightarrow> star_module ml filename (ls_module l) = Inr (md, loadMod) \<Longrightarrow> md \<in> S"
  shows "star_loop ml ex filename ls lines m \<noteq> None"
  using assms(2,3)
proof (induction ls arbitrary: lines m)
  case (Cons l ls)
  show ?case
  proof (cases "star_module ml filename (ls_module l)")
    case (Inr p)
    obtain md loadMod where p: "p = (md, loadMod)" by (cases p)
    have md: "md \<in> S" by (rule Cons.prems(2) [of l md loadMod]) (simp_all add: Inr p)
    from Cons.prems(1) [OF md keeps_refl] obtain r1 m1 where x: "ex md m = Some (r1, m1)" by fastforce
    have "star_loop ml ex filename ls lines' m1 \<noteq> None" for lines'
    proof (rule Cons.IH)
      show "\<And>md m'. md \<in> S \<Longrightarrow> keeps m1 m' \<Longrightarrow> ex md m' \<noteq> None"
        using Cons.prems(1) keeps_trans [OF assms(1) [OF x]] by blast
    qed (use Cons.prems(2) in auto)
    then show ?thesis using Inr p x by (auto split: sum.splits option.splits)
  qed simp
qed simp

text \<open>The three operations end, given that the calls they make end.\<close>

lemma load_body_total:
  fixes ml :: "'w ModuleLoader" and m :: "'w loader_state"
  assumes keep: "\<And>s f m r m'. star s f m = Some (r, m') \<Longrightarrow> keeps m m'" "\<And>t md m r m'. ld t md m = Some (r, m') \<Longrightarrow> keeps m m'"
    and fin: "finite K" and K: "load_keys ml \<subseteq> K"
    and st: "\<And>s f m'. f \<in> load_keys ml \<Longrightarrow> s \<in> sources ml f \<Longrightarrow> card (unloaded K m') < card (unloaded K m) \<Longrightarrow> star s f m' \<noteq> None"
    and ld: "\<And>t md m'. card (unloaded K m') < card (unloaded K m) \<Longrightarrow> ld t md m' \<noteq> None"
  shows "load_body ml star ld thr md m \<noteq> None"
proof (cases "dispatch ml thr md")
  case (Inr target)
  let ?m = "m\<lparr>ms_cache := (ms_cache m)(key_of target := Some None)\<rparr>"
  show ?thesis
  proof (cases "ms_cache m (key_of target)")
    case None
    show ?thesis
    proof (cases "target_source ml target")
      case src: (Inr source)
      note key = dispatch_source [OF Inr src]
      then have "unloaded K ?m \<subset> unloaded K m" using K None by (auto simp: unloaded_def)
      moreover have finm: "finite (unloaded K m')" for m' using fin by (simp add: unloaded_def)
      ultimately have less: "card (unloaded K ?m) < card (unloaded K m)" by (intro psubset_card_mono)
      have later: "card (unloaded K m') < card (unloaded K m)" if "keeps ?m m'" for m'
        using card_mono [OF finm keeps_unloaded [OF that]] less by (rule le_less_trans)
      have "run_module ml star ld (key_of target) source ?m \<noteq> None"
        by (rule run_module_total [OF keep]) (use st [OF _ _ less] key ld later in blast)+
      then show ?thesis
        unfolding load_body_def Inr sum.case Let_def None option.case src by simp
    qed (simp add: load_body_def Inr Let_def None)
  qed (auto simp: load_body_def Inr Let_def split: option.splits)
qed (simp add: load_body_def)

lemma exports_body_total:
  fixes ml :: "'w ModuleLoader" and m :: "'w loader_state"
  assumes keep: "\<And>s f m r m'. star s f m = Some (r, m') \<Longrightarrow> keeps m m'" "\<And>t md m r m'. ld t md m = Some (r, m') \<Longrightarrow> keeps m m'"
    and st: "\<And>s. s \<in> sources ml md \<Longrightarrow> star s md m \<noteq> None"
    and ld: "\<And>t md m'. keeps m m' \<Longrightarrow> ld t md m' \<noteq> None"
  shows "exports_body ml star ld md m \<noteq> None"
proof (cases "exports_source ml md")
  case (Inr src)
  from st [OF exports_source_in [OF Inr]] obtain r1 m1 where s: "star src md m = Some (r1, m1)" by fastforce
  note k1 = keep(1) [OF s]
  show ?thesis
  proof (cases r1)
    case r1: (Inr src')
    obtain r2 m2 where c: "compile_module ml src' md m1 = (r2, m2)" by fastforce
    note k2 = keeps_trans [OF k1 compile_module_keeps [OF c]]
    have "run_program (ld (md @ starImportScanSuffix)) ms_world (\<lambda>w m. m\<lparr>ms_world := w\<rparr>) t m2 \<noteq> None" for t
      by (rule kp.run_program_total) (use keep(2) ld keeps_trans [OF k2] in blast)+
    then show ?thesis using s r1 c
      unfolding exports_body_def Inr
      by (cases r2) (auto split: exec_end.splits option.splits)
  qed (use s Inr in \<open>simp add: exports_body_def\<close>)
qed (simp add: exports_body_def)

lemma star_body_total:
  fixes ml :: "'w ModuleLoader" and m :: "'w loader_state"
  assumes keep: "\<And>md m r m'. ex md m = Some (r, m') \<Longrightarrow> keeps m m'" and stars: "stars_in ml S source filename"
    and ex: "\<And>md m'. md \<in> S \<Longrightarrow> \<not> ms_expanding m filename \<Longrightarrow>
      keeps (m\<lparr>ms_expanding := (ms_expanding m)(filename := True)\<rparr>) m' \<Longrightarrow> ex md m' \<noteq> None"
  shows "star_body ml ex source filename m \<noteq> None"
proof (cases "\<not> ms_expanding m filename \<and> (\<exists>stmts. ml_parse ml filename source = Inr stmts)")
  case True
  then obtain stmts where no: "\<not> ms_expanding m filename" and p: "ml_parse ml filename source = Inr stmts" by blast
  have "star_loop ml ex filename (rev (star_loads stmts)) lines (m\<lparr>ms_expanding := (ms_expanding m)(filename := True)\<rparr>) \<noteq> None" for lines
    by (rule star_loop_total [where S = S]) (use keep ex no stars p in \<open>auto simp: stars_in_def\<close>)
  then have total: "(star_loop ml ex filename (rev (star_loads stmts)) lines
      (m\<lparr>ms_expanding := (ms_expanding m)(filename := True)\<rparr>) = None) = False" for lines by blast
  show ?thesis by (auto simp: star_body_def Let_def p total split: option.splits)
qed (auto simp: star_body_def Let_def split: sum.splits)

lemma load_fuel_mono: "a' \<le> a \<Longrightarrow> load_fuel M a' \<le> load_fuel M a"
  unfolding load_fuel_def by (intro add_left_mono mult_le_mono1)

lemma load_fuel_less: "a' < a \<Longrightarrow> load_fuel M a' + 2 * M + 2 \<le> load_fuel M a"
  using load_fuel_mono [of "Suc a'" a M] by (simp add: load_fuel_def)

lemma loader_total:
  fixes ml :: "'w ModuleLoader" and m :: "'w loader_state"
  assumes fin: "finite S" "finite_files ml" and closed: "stars_closed ml S"
    and K: "K = load_keys ml \<union> S" and M: "M = card K"
  shows "load_fuel M (card (unloaded K m)) \<le> n \<Longrightarrow> load n ml thr md m \<noteq> None"
    and "filename \<in> K \<Longrightarrow> source \<in> sources ml filename \<Longrightarrow>
      load_fuel M (card (unloaded K m)) + 2 * card (unexpanded K m) + 1 \<le> n \<Longrightarrow> ResolveStarImports n ml source filename m \<noteq> None"
    and "md \<in> S \<Longrightarrow> load_fuel M (card (unloaded K m)) + 2 * card (unexpanded K m) + 2 \<le> n \<Longrightarrow> getModuleExports n ml md m \<noteq> None"
proof (induction n arbitrary: m thr md filename source)
  case 0
  { case 1 then show ?case by (simp add: load_fuel_def) next case 2 then show ?case by simp next case 3 then show ?case by simp }
next
  case (Suc n)
  have keysK: "load_keys ml \<subseteq> K" unfolding K by (rule Un_upper1)
  have finK: "finite K" using fin finite_load_keys by (simp add: K)
  have finu: "finite (unloaded K m')" "finite (unexpanded K m')" for m' :: "'w loader_state"
    using finK by (simp_all add: unloaded_def unexpanded_def)
  have leM: "card (unexpanded K m') \<le> M" for m' :: "'w loader_state"
    unfolding M by (rule card_mono [OF finK]) (auto simp: unexpanded_def)
  have unl: "card (unloaded K m') \<le> card (unloaded K m)" if "keeps m m'" for m m' :: "'w loader_state"
    by (rule card_mono [OF finu(1) keeps_unloaded [OF that]])
  {
    case 1
    show ?case unfolding load.simps
    proof (rule load_body_total [OF loader_keeps(2,1) finK keysK])
      fix s f and m' :: "'w loader_state" assume f: "f \<in> load_keys ml" "s \<in> sources ml f" and less: "card (unloaded K m') < card (unloaded K m)"
      show "ResolveStarImports n ml s f m' \<noteq> None"
        by (rule Suc.IH(2) [OF _ f(2)]) (use f K 1 load_fuel_less [OF less, of M] leM [of m'] in \<open>simp, linarith\<close>)
    next
      fix t md and m' :: "'w loader_state" assume less: "card (unloaded K m') < card (unloaded K m)"
      show "load n ml t md m' \<noteq> None"
        by (rule Suc.IH(1)) (use 1 load_fuel_less [OF less, of M] in linarith)
    qed
  next
    case 2
    have stars: "stars_in ml S source filename" using closed 2(1,2) by (auto simp: stars_closed_def K)
    show ?case unfolding ResolveStarImports.simps
    proof (rule star_body_total [OF loader_keeps(3) stars])
      fix md m'
      assume md: "md \<in> S" and no: "\<not> ms_expanding m filename"
        and k: "keeps (m\<lparr>ms_expanding := (ms_expanding m)(filename := True)\<rparr>) m'" (is "keeps ?m m'")
      have "unexpanded K m' = unexpanded K m - {filename}"
        unfolding keeps_unexpanded [OF k] by (auto simp: unexpanded_def)
      moreover have "filename \<in> unexpanded K m" using 2(1) no by (simp add: unexpanded_def)
      ultimately have "card (unexpanded K m') < card (unexpanded K m)"
        by (metis card_Diff1_less finu(2))
      moreover have "card (unloaded K m') \<le> card (unloaded K m)"
        using unl [OF k] by (simp add: unloaded_def)
      ultimately show "getModuleExports n ml md m' \<noteq> None"
        by (intro Suc.IH(3) [OF md]) (use 2(3) load_fuel_mono [of "card (unloaded K m')" "card (unloaded K m)" M] in linarith)
    qed
  next
    case 3
    show ?case unfolding getModuleExports.simps
    proof (rule exports_body_total [OF loader_keeps(2,1)])
      show "\<And>s. s \<in> sources ml filename \<Longrightarrow> ResolveStarImports n ml s filename m \<noteq> None" using Suc.IH(2) 3 K by simp
      show "load n ml t md m' \<noteq> None" if "keeps m m'" for t md m'
        by (rule Suc.IH(1)) (use 3 load_fuel_mono [OF unl [OF that], of M] in linarith)
    qed
  }
qed

lemma loader_returns:
  fixes ml :: "'w ModuleLoader" and m :: "'w loader_state"
  assumes "finite_files ml" and "finite S" and "stars_closed ml S" and "stars_in ml S source filename"
    and "2 * (card (load_keys ml \<union> S) + 1) ^ 2 + 2 \<le> n"
  shows "load n ml threadName md m \<noteq> None" and "ResolveStarImports n ml source filename m \<noteq> None"
proof -
  let ?K = "load_keys ml \<union> S" and ?M = "card (load_keys ml \<union> S)"
  have fin: "finite ?K" using assms(1,2) finite_load_keys by blast
  have a: "card (unloaded ?K m') \<le> ?M" "card (unexpanded ?K m') \<le> ?M" for m' :: "'w loader_state"
    by (rule card_mono [OF fin]; auto simp: unloaded_def unexpanded_def)+
  have bound: "load_fuel ?M (card (unloaded ?K m')) + 2 * card (unexpanded ?K m') + 3 \<le> n" for m' :: "'w loader_state"
  proof -
    have "load_fuel ?M (card (unloaded ?K m')) \<le> 1 + ?M * (2 * ?M + 2)"
      using load_fuel_mono [OF a(1) [of m'], of ?M] unfolding load_fuel_def .
    also have "\<dots> + 2 * card (unexpanded ?K m') + 3 \<le> 1 + ?M * (2 * ?M + 2) + 2 * ?M + 3" using a(2) by simp
    also have "\<dots> \<le> 2 * (?M + 1) ^ 2 + 2" by (simp add: power2_eq_square algebra_simps)
    finally show ?thesis using assms(5) by simp
  qed
  note total = loader_total [OF assms(2,1,3) refl refl]
  show "load n ml threadName md m \<noteq> None" by (rule total(1)) (use bound [of m] in linarith)
  obtain k where n: "n = Suc k" using bound [of m] by (cases n) auto
  show "ResolveStarImports n ml source filename m \<noteq> None"
    unfolding n ResolveStarImports.simps
  proof (rule star_body_total [OF loader_keeps(3) assms(4)])
    fix md m' assume "md \<in> S"
    then show "getModuleExports k ml md m' \<noteq> None" by (rule total(3)) (use bound [of m'] n in linarith)
  qed
qed

section \<open>Runs of the loader\<close>

text \<open>The states that loads lead to, starting from a state.\<close>

inductive later :: "'w ModuleLoader \<Rightarrow> 'w loader_state \<Rightarrow> 'w loader_state \<Rightarrow> bool" for ml where
  now: "later ml m m"
| load: "later ml m m' \<Longrightarrow> load n ml threadName md m' = Some (r, m'') \<Longrightarrow> later ml m m''"
| expand: "later ml m m' \<Longrightarrow> ResolveStarImports n ml source filename m' = Some (r, m'') \<Longrightarrow> later ml m m''"

lemma later_keeps: "later ml m m' \<Longrightarrow> keeps m m'"
  by (induction rule: later.induct) (auto dest: loader_keeps intro: keeps_trans)

text \<open>A fresh loader (\<^verbatim>\<open>NewModuleLoader\<close>).\<close>

definition NewModuleLoader :: "'w Runtime \<Rightarrow> 'w \<Rightarrow> 'w loader_state" where
  "NewModuleLoader rt w = \<lparr>ms_cache = (\<lambda>_. None), ms_expanding = (\<lambda>_. False), ms_rt = rt, ms_world = w\<rparr>"

lemma load_entry:
  "load n ml thr md m = Some (r, m') \<Longrightarrow> dispatch ml thr md = Inr target \<Longrightarrow> ms_cache m (key_of target) \<noteq> Some None \<Longrightarrow>
     ms_cache m' (key_of target) = Some (Some r)"
  by (cases n) (auto intro: load_body_keeps(2) [OF loader_keeps(2,1)])

lemma load_hit:
  "dispatch ml thr md = Inr target \<Longrightarrow> ms_cache m (key_of target) = Some (Some r) \<Longrightarrow> load (Suc n) ml thr md m = Some (r, m)"
  by (simp add: load_body_def)

lemma load_marked:
  "dispatch ml thr md = Inr target \<Longrightarrow> ms_cache m (key_of target) = Some None \<Longrightarrow>
     load (Suc n) ml thr md m = Some (Inl (fail (''cycle in load graph: '' @ key_of target)), m)"
  by (simp add: load_body_def)

lemma blank_lines_nth:
  "j < length lines \<Longrightarrow> blank_lines i n lines ! j = (if i \<le> j \<and> j < i + n then [] else lines ! j)"
  by (induction i n lines rule: blank_lines.induct) (auto simp: nth_list_update)

lemma length_blank_lines [simp]: "length (blank_lines i n lines) = length lines"
  by (induction i n lines rule: blank_lines.induct) auto

section \<open>Properties\<close>

text \<open>
  C7. Loading ends, also on circular loads, circular star imports and both mixed: on a file system with finitely
  many files, and with a finite set of names that the modules star-import, loading any module and
  expanding the star imports of a script come to an end from every state of the loader, within a
  depth of nested calls that is quadratic in the number of names.
\<close>

theorem loading_terminates:
  fixes ml :: "'w ModuleLoader"
  assumes "finite_files ml" and "finite S" and "stars_closed ml S" and "stars_in ml S source filename"
    and "2 * (card (load_keys ml \<union> S) + 1) ^ 2 + 2 \<le> n"
  shows "load n ml threadName md m \<noteq> None \<and> ResolveStarImports n ml source filename m \<noteq> None"
  using loader_returns [OF assms] by blast

text \<open>
  C13. A module is loaded at most once per reconciliation: after a load has given a result, every later load of
  the same module, by whatever name and from whatever module, gives that result and changes nothing.
  (The scan of its exports for a star import runs it once more; that is \<open>getModuleExports\<close>, not \<open>load\<close>.)
\<close>

theorem module_loaded_once:
  assumes "load n ml threadName md m = Some (r, m1)" and "dispatch ml threadName md = Inr target"
    and "ms_cache m (key_of target) \<noteq> Some None" and "later ml m1 m2"
    and "dispatch ml threadName' md' = Inr target'" and "key_of target' = key_of target"
  shows "load (Suc k) ml threadName' md' m2 = Some (r, m2)"
proof -
  have "ms_cache m1 (key_of target) = Some (Some r)" by (rule load_entry [OF assms(1-3)])
  then have "ms_cache m2 (key_of target') = Some (Some r)"
    using keeps_entry [OF later_keeps [OF assms(4)]] assms(6) by simp
  then show ?thesis by (rule load_hit [OF assms(5)])
qed


text \<open>
  C31. A relative load of a file never escapes the directory of its caller: the file that is read lies in that
  directory, along the segments of the relative path, none of which is \<^verbatim>\<open>..\<close>.
\<close>

theorem relative_load_confined:
  assumes "dispatch ml threadName md = Inr (ByPath p d)"
  shows "\<exists>dir. dir = path_Dir (trim_suffix threadName starImportScanSuffix) \<and>
     path_segs p = path_segs dir @ path_segs (drop 2 md) \<and> ''..'' \<notin> set (path_segs (drop 2 md)) \<and>
     IsAbs p = IsAbs dir \<and> ml_fs ml p = FileData d"
proof -
  let ?par = "trim_suffix threadName starImportScanSuffix"
  have key: "check_key ml k \<noteq> Inr (ByPath p d)" for k
    by (auto simp: check_key_def bind_res_def split: option.splits sum.splits)
  from assms have "file_relative ml ?par md = Inr (ByPath p d)"
    unfolding dispatch_def Let_def by (auto simp: bind_res_eq_Inr key split: if_splits)
  then have loc: "IsLocal (drop 2 md)" and p: "p = path_Join [path_Dir ?par, drop 2 md]" and fs: "ml_fs ml p = FileData d"
    unfolding file_relative_def Let_def by (auto split: if_splits file_result.splits)
  have "path_Dir ?par \<noteq> []" by (auto simp: path_Dir_def Clean_def Let_def)
  from Join_IsLocal [OF loc this] fs show ?thesis unfolding p by blast
qed

text \<open>
  Rewriting a star import replaces whole lines: the text of the line on which the statement starts is dropped,
  so another statement on that line is lost, while lines outside the statement are kept.
\<close>

theorem star_import_replaces_lines:
  assumes "rewrite_load loadMod l exports lines = Some lines'" and "ls_line l \<le> ls_rparen l" and "1 \<le> ls_line l"
  shows "rewrite_load loadMod l exports (lines[ls_line l - 1 := other]) = Some lines' \<and>
     length lines' = length lines \<and>
     (\<forall>i < length lines. i < ls_line l - 1 \<or> ls_rparen l - 1 < i \<longrightarrow> lines' ! i = lines ! i)"
proof -
  have blank: "blank_lines i n (xs[i := y]) = blank_lines i n xs" if "n > 0" for i n and xs :: "string list" and y
    using that by (cases n) simp_all
  show ?thesis
  proof (cases "load_args l exports = [] \<and> struct_lines l exports = []")
    case True
    then have "lines' = blank_lines (ls_line l - 1) (Suc (ls_rparen l - 1) - (ls_line l - 1)) lines"
      using assms(1) by (simp add: rewrite_load_def Let_def)
    with True assms(2,3) show ?thesis
      by (auto simp: rewrite_load_def Let_def blank blank_lines_nth)
  next
    case False
    then have "ls_line l - 1 < length lines"
      "lines' = blank_lines (Suc (ls_line l - 1)) (ls_rparen l - 1 - (ls_line l - 1)) (lines[ls_line l - 1 := replacement loadMod l exports])"
      using assms(1) by (auto simp: rewrite_load_def Let_def split: if_splits)
    with False assms(2,3) show ?thesis
      by (auto simp: rewrite_load_def Let_def blank_lines_nth nth_list_update)
  qed
qed
text \<open>A star import of one module.\<close>

definition ex_star :: LoadStmt where
  "ex_star = \<lparr>ls_module = ''c.star'', ls_names = [(''*'', ''*'')], ls_line = 1, ls_rparen = 1\<rparr>"

text \<open>Two inline modules that load each other, a third one without loads, and a file.\<close>

definition ex_program :: "string \<Rightarrow> unit program" where
  "ex_program src =
     (if src = ''A'' then (\<lambda>w. LoadCall ''b.star'' w (\<lambda>r w. Halt (case r of Inl e \<Rightarrow> EndOther e | Inr g \<Rightarrow> EndOk g) w))
      else if src = ''B'' then (\<lambda>w. LoadCall ''a.star'' w (\<lambda>r w. Halt (case r of Inl e \<Rightarrow> EndOther e | Inr g \<Rightarrow> EndOk g) w))
      else (\<lambda>w. Halt (EndOk [(''x'', SList False []), (''_y'', SNone)]) w))"

definition ex_loader :: "unit ModuleLoader" where
  "ex_loader = \<lparr>ml_inlineModules = [(''a.star'', ''A''), (''b.star'', ''B''), (''c.star'', ''C'')], ml_searchPaths = [],
     ml_predeclared = [], ml_defaultRegistry = [], ml_lib = ex_name_pkg,
     ml_fs = (\<lambda>p. if p = ''/scripts/app/lib/d.star'' then FileData ''D'' else FileNotExist ''none''),
     ml_parse = (\<lambda>_ src. Inr (if src = ''A'' then [Load ex_star] else [OtherStmt])),
     ml_ip = \<lparr>ip_compile = (\<lambda>_ _ src. Inr (ex_program src)), ip_hash = (\<lambda>s. s)\<rparr>\<rparr>"

abbreviation ex_state :: "unit loader_state" where
  "ex_state \<equiv> NewModuleLoader NewRuntime ()"

lemma ex_loader_files: "files ex_loader = {''/scripts/app/lib/d.star''}"
  by (auto simp: files_def ex_loader_def)

lemma ex_keys: "load_keys ex_loader \<union> {''c.star''} \<subseteq> set [''a.star'', ''b.star'', ''c.star'', ''/scripts/app/lib/d.star'', ''d.star'']"
proof -
  have "last (path_segs ''/scripts/app/lib/d.star'') = ''d.star''" by code_simp
  with load_keys_files [of ex_loader] show ?thesis unfolding ex_loader_files by (auto simp: ex_loader_def)
qed

lemma ex_stars: "stars_in ex_loader {''c.star''} source filename"
proof -
  have "star_module ex_loader filename ''c.star'' = Inr (''c.star'', ''c.star'')"
    by (simp add: star_module_def IsDefaultRegistryTarget_def has_prefix_def contains_def)
  then show ?thesis by (auto simp: stars_in_def ex_loader_def star_loads_def ex_star_def split: if_splits)
qed

theorem loading_terminates_witness:
  "load 74 ex_loader ''composition.star'' ''a.star'' ex_state \<noteq> None \<and>
   ResolveStarImports 74 ex_loader ''A'' ''a.star'' ex_state \<noteq> None"
proof (rule loading_terminates)
  show "finite_files ex_loader" by (simp add: finite_files_def ex_loader_files)
  show "stars_closed ex_loader {''c.star''}" by (simp add: stars_closed_def ex_stars)
  have "card (load_keys ex_loader \<union> {''c.star''}) \<le> 5"
    using card_mono [OF _ ex_keys] card_length le_trans by fastforce
  then have "(card (load_keys ex_loader \<union> {''c.star''}) + 1) ^ 2 \<le> 6 ^ 2" by (intro power_mono) auto
  then show "2 * (card (load_keys ex_loader \<union> {''c.star''}) + 1) ^ 2 + 2 \<le> 74" by simp
qed (simp_all add: ex_stars)

lemma ex_dispatch:
  "dispatch ex_loader ''composition.star'' ''c.star'' = Inr (ByKey ''c.star'')"
  "dispatch ex_loader ''/scripts/app/main.star'' ''./lib/d.star'' = Inr (ByPath ''/scripts/app/lib/d.star'' ''D'')"
  by code_simp+

lemma ex_load: "\<exists>m. load 2 ex_loader ''composition.star'' ''c.star'' ex_state = Some (Inr [(''x'', SList True [])], m)"
proof -
  have "map_option fst (load 2 ex_loader ''composition.star'' ''c.star'' ex_state) = Some (Inr [(''x'', SList True [])])"
    by code_simp
  then show ?thesis by auto
qed

theorem module_loaded_once_witness:
  "\<exists>m. load 1 ex_loader ''composition.star'' ''c.star'' m = Some (Inr [(''x'', SList True [])], m)"
proof -
  obtain m where m: "load 2 ex_loader ''composition.star'' ''c.star'' ex_state = Some (Inr [(''x'', SList True [])], m)"
    using ex_load by blast
  have "ms_cache ex_state (key_of (ByKey ''c.star'')) \<noteq> Some None" by (simp add: NewModuleLoader_def)
  from module_loaded_once [OF m ex_dispatch(1) this later.now ex_dispatch(1) refl, of 0] show ?thesis by auto
qed


theorem relative_load_confined_witness:
  "\<exists>dir. dir = ''/scripts/app'' \<and> path_segs ''/scripts/app/lib/d.star'' = path_segs dir @ path_segs ''lib/d.star'' \<and>
     ''..'' \<notin> set (path_segs ''lib/d.star'')"
proof -
  have "path_Dir (trim_suffix ''/scripts/app/main.star'' starImportScanSuffix) = ''/scripts/app''" by code_simp
  with relative_load_confined [OF ex_dispatch(2)] show ?thesis by simp
qed

lemma ex_rewrite:
  "rewrite_load ''c.star'' ex_star [''x''] [[], ''y = 2''] = Some [replacement ''c.star'' ex_star [''x''], ''y = 2'']"
  by code_simp

text \<open>
  C38. The scan for a star import is not confined: a name that is an absolute path is taken as it is, the file there is
  read and run (what its builtin calls did to the world is kept), and only the rewritten load of it is
  rejected afterwards.
\<close>

theorem star_scan_unconfined:
  assumes "IsAbs p" and "\<not> contains p '':''" and "ml_fs ml p = FileData src" and "map_of (ml_inlineModules ml) p = None"
    and "ml_parse ml p src = Inr stmts" and "star_loads stmts = []"
    and "ip_compile (ml_ip ml) (ml_predeclared ml) p src = Inr prog" and "prog w = Halt (EndOk g) w'"
  shows "star_module ml filename p = Inr (p, p) \<and>
     (\<exists>m. getModuleExports (Suc (Suc n)) ml p (NewModuleLoader NewRuntime w) =
        Some (Inr (sort (filter (\<lambda>nm. \<not> has_prefix nm ''_'') (map fst g))), m) \<and> ms_world m = w') \<and>
     (\<exists>e. dispatch ml threadName p = Inl e)"
proof (intro conjI)
  from assms(1) obtain q where p: "p = CHR ''/'' # q" by (auto simp: IsAbs_def has_prefix_iff)
  then have pre: "\<not> has_prefix p ''./''" "\<not> has_prefix p ''../''" "\<not> has_prefix p ''oci://''" by (auto simp: has_prefix_iff)
  moreover have "\<not> contains p ''@sha256:''"
    using assms(2) by (auto simp: contains_iff) (metis append.assoc append_Cons append_Nil)
  ultimately have reg: "\<not> IsDefaultRegistryTarget p" using assms(2) by (simp add: IsDefaultRegistryTarget_def)
  show "star_module ml filename p = Inr (p, p)" using pre reg by (simp add: star_module_def)
  have "CHR ''/'' \<in> set p" using p by simp
  then have "validateModuleName p = Inl (''module name '' @ go_quote p @ '' must not contain path separators'')"
    by (simp add: validateModuleName_def contains_char [of p "CHR ''/''", simplified])
  then show "\<exists>e. dispatch ml threadName p = Inl e" using pre reg assms(4) by (simp add: dispatch_def check_key_def)
  show "\<exists>m. getModuleExports (Suc (Suc n)) ml p (NewModuleLoader NewRuntime w) =
      Some (Inr (sort (filter (\<lambda>nm. \<not> has_prefix nm ''_'') (map fst g))), m) \<and> ms_world m = w'"
    using assms
    by (simp add: exports_body_def exports_source_def star_body_def hasNoStarImports_def markNoStarImports_def
        compile_module_def getOrCompile_def NewModuleLoader_def NewRuntime_def Let_def)
qed

theorem star_scan_unconfined_witness:
  "star_module ex_loader ''composition.star'' ''/scripts/app/lib/d.star'' =
     Inr (''/scripts/app/lib/d.star'', ''/scripts/app/lib/d.star'') \<and>
   (\<exists>m. getModuleExports 2 ex_loader ''/scripts/app/lib/d.star'' ex_state = Some (Inr [''x''], m)) \<and>
   (\<exists>e. dispatch ex_loader ''composition.star'' ''/scripts/app/lib/d.star'' = Inl e)"
proof -
  have "IsAbs ''/scripts/app/lib/d.star''" "\<not> contains ''/scripts/app/lib/d.star'' '':''" by code_simp+
  from star_scan_unconfined [OF this, of ex_loader "''D''" "[OtherStmt]" "ex_program ''D''" "()" "[(''x'', SList False []), (''_y'', SNone)]" "()" "''composition.star''" 0 "''composition.star''"]
  show ?thesis by (auto simp: ex_loader_def ex_program_def star_loads_def has_prefix_def numeral_2_eq_2)
qed

end
