(* ===== verification/OciCache.thy ===== *)
theory OciCache
  imports Prelude
begin

text \<open>
  The two-layer module cache (\<^verbatim>\<open>runtime/oci/cache.go\<close>): tags to digests with an expiry time, digests
  to extracted files. Times are nanoseconds; the injectable clock \<^verbatim>\<open>nowFn\<close> is the argument \<open>now\<close>.
\<close>

section \<open>State and operations\<close>

text \<open>The files of an artifact; the order of the list is the order in which Go's \<^verbatim>\<open>range\<close> visits the map.\<close>

type_synonym files = "(string \<times> string) list"

definition PullIfNotPresent :: string where
  "PullIfNotPresent = ''IfNotPresent''"

definition PullAlways :: string where
  "PullAlways = ''Always''"

record tagEntry =
  te_digest :: string
  te_expires :: int

record Cache =
  ca_tags :: "string \<Rightarrow> tagEntry option"
  ca_contents :: "string \<Rightarrow> files option"
  ca_policy :: string
  ca_ttl :: int

definition NewCache :: "string \<Rightarrow> int \<Rightarrow> Cache" where
  "NewCache policy ttl =
     \<lparr>ca_tags = (\<lambda>_. None), ca_contents = (\<lambda>_. None),
      ca_policy = (if policy \<noteq> PullAlways then PullIfNotPresent else policy), ca_ttl = ttl\<rparr>"

definition GetByTag :: "int \<Rightarrow> string \<Rightarrow> Cache \<Rightarrow> files option \<times> bool" where
  "GetByTag now ref c =
     (case ca_tags c ref of
        None \<Rightarrow> (None, False)
      | Some te \<Rightarrow>
          (case ca_contents c (te_digest te) of
             None \<Rightarrow> (None, False)
           | Some fs \<Rightarrow>
               if ca_policy c = PullIfNotPresent then (Some fs, True)
               else if 0 < ca_ttl c \<and> te_expires te < now then (Some fs, False)
               else (Some fs, True)))"

definition GetByDigest :: "string \<Rightarrow> Cache \<Rightarrow> files option" where
  "GetByDigest digest c = ca_contents c digest"

definition PutTag :: "int \<Rightarrow> string \<Rightarrow> string \<Rightarrow> Cache \<Rightarrow> Cache" where
  "PutTag now ref digest c =
     c\<lparr>ca_tags := (ca_tags c)(ref := Some \<lparr>te_digest = digest, te_expires = now + ca_ttl c\<rparr>)\<rparr>"

definition PutContent :: "string \<Rightarrow> files \<Rightarrow> Cache \<Rightarrow> Cache" where
  "PutContent digest fs c =
     (if ca_contents c digest \<noteq> None then c
      else c\<lparr>ca_contents := (ca_contents c)(digest := Some fs)\<rparr>)"

section \<open>Content-addressed stores\<close>

text \<open>
  What a client may rely on: a digest that is present keeps its content, and a new one gets what is
  put. As long as only the content that a digest stands for is put under it, every lookup agrees with
  that assignment of contents to digests.
\<close>

locale content_store =
  fixes lookup :: "'d \<Rightarrow> 's \<Rightarrow> 'f option" and insert :: "'d \<Rightarrow> 'f \<Rightarrow> 's \<Rightarrow> 's"
  assumes lookup_insert:
    "lookup d' (insert d f s) = (if d' = d \<and> lookup d s = None then Some f else lookup d' s)"
begin

definition agrees :: "('d \<Rightarrow> 'f option) \<Rightarrow> 's \<Rightarrow> bool" where
  "agrees world s \<longleftrightarrow> (\<forall>d f. lookup d s = Some f \<longrightarrow> world d = Some f)"

lemma agrees_insert: "agrees world s \<Longrightarrow> world d = Some f \<Longrightarrow> agrees world (insert d f s)"
  by (auto simp: agrees_def lookup_insert)

lemma agrees_lookup: "agrees world s \<Longrightarrow> lookup d s = Some f \<Longrightarrow> world d = Some f"
  by (simp add: agrees_def)

lemma lookup_inserted: "\<exists>f'. lookup d (insert d f s) = Some f'"
  by (auto simp: lookup_insert)

lemma lookup_inserted_agrees:
  "agrees world s \<Longrightarrow> world d = Some f \<Longrightarrow> lookup d (insert d f s) = Some f"
  by (auto simp: agrees_def lookup_insert)

lemma insert_immutable: "lookup d' s = Some f' \<Longrightarrow> lookup d' (insert d f s) = Some f'"
  by (auto simp: lookup_insert)

end

interpretation cs: content_store GetByDigest PutContent
  by unfold_locales (auto simp: GetByDigest_def PutContent_def)

section \<open>Lookups after updates\<close>

lemma PutContent_fields [simp]:
  "ca_tags (PutContent d fs c) = ca_tags c" "ca_policy (PutContent d fs c) = ca_policy c"
  "ca_ttl (PutContent d fs c) = ca_ttl c"
  by (simp_all add: PutContent_def)

lemma PutTag_fields [simp]:
  "ca_contents (PutTag now ref d c) = ca_contents c" "ca_policy (PutTag now ref d c) = ca_policy c"
  "ca_ttl (PutTag now ref d c) = ca_ttl c"
  "ca_tags (PutTag now ref d c) r =
     (if r = ref then Some \<lparr>te_digest = d, te_expires = now + ca_ttl c\<rparr> else ca_tags c r)"
  by (simp_all add: PutTag_def)

lemma GetByDigest_PutTag [simp]: "GetByDigest d (PutTag now ref d' c) = GetByDigest d c"
  by (simp add: GetByDigest_def)

lemma GetByTag_None_iff:
  "GetByTag now ref c = (None, b) \<longleftrightarrow>
     \<not> b \<and> (\<forall>te. ca_tags c ref = Some te \<longrightarrow> GetByDigest (te_digest te) c = None)"
  by (auto simp: GetByTag_def GetByDigest_def split: option.splits)

lemma GetByTag_Some_iff:
  "GetByTag now ref c = (Some fs, b) \<longleftrightarrow>
     (\<exists>te. ca_tags c ref = Some te \<and> GetByDigest (te_digest te) c = Some fs \<and>
        b = (ca_policy c = PullIfNotPresent \<or> ca_ttl c \<le> 0 \<or> now \<le> te_expires te))"
  by (auto simp: GetByTag_def GetByDigest_def split: option.splits)

section \<open>Properties\<close>

text \<open>
  Under \<^verbatim>\<open>PullAlways\<close> with a TTL of zero a cached tag is served as fresh for ever: once its
  digest and content are stored, the lookup at any time is a fresh hit, so the registry is never asked
  again.
\<close>

theorem always_zero_ttl_never_revalidates:
  assumes "ca_policy c = PullAlways" and "ca_ttl c = 0"
  shows "\<exists>fs. \<forall>now'. GetByTag now' ref (PutTag now ref d (PutContent d files c)) = (Some fs, True)"
  using cs.lookup_inserted [of d files c] assms by (auto simp: GetByTag_Some_iff)

end
