(* ===== verification/OciArtifact.thy ===== *)
theory OciArtifact
  imports OciCache GoPath OciRef
begin

text \<open>
  Extracting the Starlark files of an artifact (\<^verbatim>\<open>extractStarFiles\<close>, \<^verbatim>\<open>extractFromTar\<close> and
  \<^verbatim>\<open>layerDescriptor\<close> of \<^verbatim>\<open>runtime/oci/resolver.go\<close>). An image is the record of what the methods of
  \<^verbatim>\<open>v1.Image\<close> and \<^verbatim>\<open>v1.Layer\<close> return; the JSON decoder and the tar reader are parameters.
\<close>

section \<open>Images\<close>

text \<open>A byte stream: the bytes that can be read, and the error that comes after them, if any.\<close>

record reader =
  rd_data :: string
  rd_err :: "string option"

record layer =
  ly_MediaType :: "string + string"
  ly_Uncompressed :: "string + reader"

text \<open>Of a manifest, the media type of the config and the annotations of the layers.\<close>

record oci_manifest =
  mf_ConfigMediaType :: string
  mf_Layers :: "(string \<times> string) list list"

record image =
  im_Manifest :: "string + oci_manifest"
  im_RawManifest :: "string + string"
  im_Layers :: "string + layer list"
  im_Digest :: "string + string"

text \<open>\<^verbatim>\<open>tar.Reader.Next\<close>: a header with its type flag, name and content, or an error.\<close>

datatype tar_step = TarEntry bool string reader | TarErr string

record codecs =
  json_artifactType :: "string \<Rightarrow> string option"
  tar_steps :: "reader \<Rightarrow> tar_step list"

definition ArtifactMediaType :: string where
  "ArtifactMediaType = ''application/vnd.fn-starlark.modules.v1+tar''"

definition LayerMediaType :: string where
  "LayerMediaType = ''application/vnd.fn-starlark.layer.v1.tar''"

definition maxFileSize :: nat where
  "maxFileSize = 1048576"

definition maxFileCount :: nat where
  "maxFileCount = 1000"

section \<open>Extraction\<close>

text \<open>\<^verbatim>\<open>io.ReadAll(io.LimitReader(r, n))\<close>: an error after \<open>n\<close> bytes is not seen.\<close>

definition readAllLimit :: "nat \<Rightarrow> reader \<Rightarrow> string + string" where
  "readAllLimit n r =
     (if n \<le> length (rd_data r) then Inr (take n (rd_data r))
      else (case rd_err r of None \<Rightarrow> Inr (rd_data r) | Some e \<Rightarrow> Inl e))"

definition isTarLayer :: "layer \<Rightarrow> bool" where
  "isTarLayer l \<longleftrightarrow> ly_MediaType l = Inr LayerMediaType"

definition layerDescriptor :: "image \<Rightarrow> nat \<Rightarrow> string + (string \<times> string) list" where
  "layerDescriptor img index =
     bind_res (im_Manifest img) (\<lambda>m.
       if length (mf_Layers m) \<le> index then Inl (''layer index '' @ show_nat index @ '' out of range'')
       else Inr (mf_Layers m ! index))"

fun tar_loop :: "string \<Rightarrow> tar_step list \<Rightarrow> files \<Rightarrow> nat \<Rightarrow> string + files" where
  "tar_loop refStr [] fs fileCount = Inr fs"
| "tar_loop refStr (TarErr e # steps) fs fileCount = Inl (''reading tar from '' @ refStr @ '': '' @ e)"
| "tar_loop refStr (TarEntry reg nm r # steps) fs fileCount =
     (if \<not> reg then tar_loop refStr steps fs fileCount
      else if contains nm ''..'' then
        Inl (''path traversal detected in tar entry '' @ go_quote nm @ '' from '' @ refStr)
      else let cleaned = trim_prefix (Clean nm) ''/'' in
        if \<not> has_suffix (path_Base cleaned) ''.star'' then tar_loop refStr steps fs fileCount
        else if fileCount + 1 > maxFileCount then
          Inl (''OCI artifact '' @ refStr @ '' exceeds maximum file count ('' @ show_nat maxFileCount @ '')'')
        else bind_res (wrap_msg (''reading '' @ cleaned @ '' from tar in '' @ refStr) (readAllLimit (maxFileSize + 1) r))
          (\<lambda>data.
            if length data > maxFileSize then
              Inl (''file '' @ cleaned @ '' in '' @ refStr @ '' exceeds maximum size ('' @ show_nat maxFileSize @ '' bytes)'')
            else tar_loop refStr steps (AList.update cleaned data fs) (fileCount + 1)))"

definition extractFromTar :: "codecs \<Rightarrow> layer \<Rightarrow> string \<Rightarrow> string + files" where
  "extractFromTar cod l refStr =
     bind_res (wrap_msg (''reading layer for '' @ refStr) (ly_Uncompressed l)) (\<lambda>r.
       tar_loop refStr (tar_steps cod r) [] 0)"

fun layer_loop :: "image \<Rightarrow> string \<Rightarrow> nat \<Rightarrow> layer list \<Rightarrow> files \<Rightarrow> string + files" where
  "layer_loop img refStr i [] fs = Inr fs"
| "layer_loop img refStr i (l # ls) fs =
     (if length fs \<ge> maxFileCount then
        Inl (''OCI artifact '' @ refStr @ '' exceeds maximum file count ('' @ show_nat maxFileCount @ '')'')
      else bind_res (wrap_msg (''getting layer descriptor for '' @ refStr) (layerDescriptor img i)) (\<lambda>annotations.
        let title = (case map_of annotations ''org.opencontainers.image.title'' of None \<Rightarrow> [] | Some t \<Rightarrow> t) in
        if title = [] then layer_loop img refStr (Suc i) ls fs
        else if contains title ''..'' then
          Inl (''path traversal detected in layer title '' @ go_quote title @ '' from '' @ refStr)
        else let cleaned = Clean title in
          if \<not> has_suffix (path_Base cleaned) ''.star'' then layer_loop img refStr (Suc i) ls fs
          else bind_res (wrap_msg (''reading layer '' @ show_nat i @ '' for '' @ refStr) (ly_Uncompressed l)) (\<lambda>r.
            bind_res (wrap_msg (''reading '' @ cleaned @ '' from '' @ refStr) (readAllLimit (maxFileSize + 1) r)) (\<lambda>data.
              if length data > maxFileSize then
                Inl (''file '' @ cleaned @ '' in '' @ refStr @ '' exceeds maximum size ('' @ show_nat maxFileSize @ '' bytes)'')
              else layer_loop img refStr (Suc i) ls (AList.update cleaned data fs)))))"

definition artifact_type :: "codecs \<Rightarrow> image \<Rightarrow> oci_manifest \<Rightarrow> string" where
  "artifact_type cod img m =
     (case im_RawManifest img of
        Inl _ \<Rightarrow> mf_ConfigMediaType m
      | Inr raw \<Rightarrow>
          (case json_artifactType cod raw of
             None \<Rightarrow> mf_ConfigMediaType m
           | Some a \<Rightarrow> if a \<noteq> [] then a else mf_ConfigMediaType m))"

definition extractStarFiles :: "codecs \<Rightarrow> image \<Rightarrow> string \<Rightarrow> string + files" where
  "extractStarFiles cod img refStr =
     bind_res (wrap_msg (''reading manifest for '' @ refStr) (im_Manifest img)) (\<lambda>m.
       let artifactType = artifact_type cod img m in
       if artifactType \<noteq> ArtifactMediaType then
         Inl (''unexpected artifact type '' @ go_quote artifactType @ '' for '' @ refStr @ ''; expected '' @
           go_quote ArtifactMediaType @ '' for Starlark module bundles'')
       else bind_res (wrap_msg (''getting layers for '' @ refStr) (im_Layers img)) (\<lambda>layers.
         if layers = [] then Inl (''OCI artifact '' @ refStr @ '' has no layers'')
         else if length layers = 1 \<and> isTarLayer (hd layers) then extractFromTar cod (hd layers) refStr
         else layer_loop img refStr 0 layers []))"

section \<open>Bounds\<close>

text \<open>What every extracted file satisfies; no name can climb out of the directory it is put under.\<close>

definition file_ok :: "string \<times> string \<Rightarrow> bool" where
  "file_ok f \<longleftrightarrow> length (snd f) \<le> maxFileSize \<and> has_suffix (path_Base (fst f)) ''.star'' \<and> \<not> contains (fst f) ''..''"

lemma contains_join_segs:
  "(\<And>s. s \<in> set segs \<Longrightarrow> \<not> contains s ''..'') \<Longrightarrow> \<not> contains (join ''/'' segs) ''..''"
proof (induction "''/''" segs rule: join.induct)
  case (3 p q ps)
  then show ?case by (simp add: contains_append_sep)
qed auto

lemma clean_segs_subset:
  "set (clean_segs r segs stack) \<subseteq> set segs \<union> set stack \<union> {''..''}"
proof (induction segs arbitrary: stack)
  case (Cons x xs)
  have "set (clean_step r x stack) \<subseteq> insert x (set stack) \<union> {''..''}"
    by (cases stack) (auto simp: clean_step_def)
  with Cons.IH [of "clean_step r x stack"] show ?case by auto
qed auto

lemma no_dots_stack:
  "''..'' \<notin> set segs \<Longrightarrow> ''..'' \<notin> set stack \<Longrightarrow> ''..'' \<notin> set (clean_segs r segs stack)"
  by (induction segs arbitrary: stack) (auto simp: clean_step_def)

lemma split_contains: "p \<in> set (split_on sep s) \<Longrightarrow> contains s p"
proof (induction s arbitrary: p)
  case (Cons c cs)
  have pre: "\<exists>t. s' = hd (split_on sep s') @ t" for s'
    by (metis append_Nil2 join_split_on join.simps(2) join_Cons list.exhaust_sel split_on_neq_Nil append_assoc)
  show ?case
  proof (cases "c = sep")
    case True
    with Cons show ?thesis by (auto simp: has_prefix_def)
  next
    case False
    obtain q qs where q: "split_on sep cs = q # qs" by (meson list.exhaust split_on_neq_Nil)
    from pre [of cs] q have "\<exists>t. cs = q @ t" by simp
    with False Cons q show ?thesis by (auto simp: has_prefix_iff)
  qed
qed simp

lemma Clean_no_dots: "\<not> contains p ''..'' \<Longrightarrow> \<not> contains (Clean p) ''..''"
proof -
  assume p: "\<not> contains p ''..''"
  have split: "\<not> contains s ''..''" if "s \<in> set (split_on (CHR ''/'') p)" for s
    using p split_contains [OF that] by (auto simp: contains_iff) (metis append.assoc)
  have "''..'' \<notin> set (split_on (CHR ''/'') p)" using split [of "''..''"] by (auto simp: has_prefix_def)
  then have "''..'' \<notin> set (path_segs p)" using no_dots_stack [of "split_on (CHR ''/'') p" "[]"] by (simp add: path_segs_def)
  moreover have "set (path_segs p) \<subseteq> set (split_on (CHR ''/'') p) \<union> {''..''}"
    using clean_segs_subset [of "IsAbs p" "split_on (CHR ''/'') p" "[]"] by (simp add: path_segs_def)
  ultimately have "\<not> contains (join ''/'' (path_segs p)) ''..''" using split by (intro contains_join_segs) blast
  then show ?thesis by (auto simp: Clean_def Let_def has_prefix_def)
qed

lemma trim_prefix_no_dots: "\<not> contains s sub \<Longrightarrow> \<not> contains (trim_prefix s p) sub"
  by (auto simp: trim_prefix_def contains_iff) (metis append.assoc append_take_drop_id)

lemma length_update_le: "length (AList.update k v al) \<le> Suc (length al)"
  by (induction al) auto

lemma set_update_ok: "(\<forall>x \<in> set fs. P x) \<Longrightarrow> P (k, v) \<Longrightarrow> \<forall>x \<in> set (AList.update k v fs). P x"
  by (induction fs) auto

lemma tar_loop_ok:
  "tar_loop refStr steps fs n = Inr out \<Longrightarrow> length fs \<le> n \<Longrightarrow> n \<le> maxFileCount \<Longrightarrow> \<forall>f \<in> set fs. file_ok f \<Longrightarrow>
     distinct (map fst fs) \<Longrightarrow>
     length out \<le> maxFileCount \<and> (\<forall>f \<in> set out. file_ok f) \<and> distinct (map fst out)"
proof (induction steps arbitrary: fs n)
  case (Cons st steps)
  obtain reg nm r where st: "st = TarEntry reg nm r" using Cons.prems(1) by (cases st) auto
  let ?cl = "trim_prefix (Clean nm) ''/''"
  show ?case
  proof (cases "reg \<and> has_suffix (path_Base ?cl) ''.star''")
    case True
    with Cons.prems(1) obtain data where d: "\<not> contains nm ''..''" "n + 1 \<le> maxFileCount"
      "\<not> maxFileSize < length data" "tar_loop refStr steps (AList.update ?cl data fs) (n + 1) = Inr out"
      by (auto simp: st Let_def bind_res_eq_Inr split: if_splits)
    have "\<not> contains ?cl ''..''" by (rule trim_prefix_no_dots [OF Clean_no_dots [OF d(1)]])
    then have "file_ok (?cl, data)" using d(3) True by (simp add: file_ok_def)
    then have "\<forall>f \<in> set (AList.update ?cl data fs). file_ok f" using Cons.prems(4) by (rule set_update_ok [rotated])
    moreover have "length (AList.update ?cl data fs) \<le> n + 1"
      using length_update_le [of ?cl data fs] Cons.prems(2) by simp
    ultimately show ?thesis using Cons.IH [OF d(4) _ d(2)] Cons.prems(5) by blast
  next
    case False
    with Cons.prems(1) have "tar_loop refStr steps fs n = Inr out" by (auto simp: st Let_def split: if_splits)
    from Cons.IH [OF this] Cons.prems show ?thesis by blast
  qed
qed auto

lemma layer_loop_ok:
  "layer_loop img refStr i ls fs = Inr out \<Longrightarrow> length fs \<le> maxFileCount \<Longrightarrow> \<forall>f \<in> set fs. file_ok f \<Longrightarrow>
     distinct (map fst fs) \<Longrightarrow>
     length out \<le> maxFileCount \<and> (\<forall>f \<in> set out. file_ok f) \<and> distinct (map fst out)"
proof (induction ls arbitrary: i fs)
  case (Cons l ls)
  from Cons.prems(1) have lt: "length fs < maxFileCount" by (auto split: if_splits)
  from Cons.prems(1) lt obtain an where an: "layerDescriptor img i = Inr an" by (auto simp: bind_res_eq_Inr)
  define title where "title = (case map_of an ''org.opencontainers.image.title'' of None \<Rightarrow> [] | Some t \<Rightarrow> t)"
  show ?case
  proof (cases "title \<noteq> [] \<and> has_suffix (path_Base (Clean title)) ''.star''")
    case True
    with Cons.prems(1) lt an obtain data where d: "\<not> contains title ''..''" "\<not> maxFileSize < length data"
      "layer_loop img refStr (Suc i) ls (AList.update (Clean title) data fs) = Inr out"
      by (auto simp: Let_def bind_res_eq_Inr title_def [symmetric] split: if_splits)
    have "file_ok (Clean title, data)" using d True Clean_no_dots by (simp add: file_ok_def)
    then have "\<forall>f \<in> set (AList.update (Clean title) data fs). file_ok f"
      using Cons.prems(3) by (rule set_update_ok [rotated])
    moreover have "length (AList.update (Clean title) data fs) \<le> maxFileCount"
      using length_update_le [of "Clean title" data fs] lt by simp
    ultimately show ?thesis using Cons.IH [OF d(3)] Cons.prems(4) by blast
  next
    case False
    with Cons.prems(1) lt an have "layer_loop img refStr (Suc i) ls fs = Inr out"
      by (auto simp: Let_def title_def [symmetric] split: if_splits)
    from Cons.IH [OF this] Cons.prems show ?thesis by blast
  qed
qed auto

lemma extractStarFiles_ok:
  assumes "extractStarFiles cod img refStr = Inr fs"
  shows "length fs \<le> maxFileCount" "\<And>f. f \<in> set fs \<Longrightarrow> file_ok f" "distinct (map fst fs)"
proof -
  from assms have "(\<exists>l r. tar_loop refStr (tar_steps cod r) [] 0 = Inr fs) \<or>
      (\<exists>ls. layer_loop img refStr 0 ls [] = Inr fs)"
    unfolding extractStarFiles_def extractFromTar_def
    by (auto simp: Let_def bind_res_eq_Inr split: if_splits)
  then have "length fs \<le> maxFileCount \<and> (\<forall>f \<in> set fs. file_ok f) \<and> distinct (map fst fs)"
    using tar_loop_ok [of refStr _ "[]" 0 fs] layer_loop_ok [of img refStr 0 _ "[]" fs] by auto
  then show "length fs \<le> maxFileCount" "\<And>f. f \<in> set fs \<Longrightarrow> file_ok f" "distinct (map fst fs)" by auto
qed

section \<open>Properties\<close>

text \<open>
  C32. What is extracted from an artifact is bounded, whatever the artifact contains: at most 1000 files under
  different names, each of at most one mebibyte, each name ending in \<^verbatim>\<open>.star\<close> and without \<^verbatim>\<open>..\<close>, and the artifact is
  of the expected type.
\<close>

theorem extraction_bounded:
  assumes "extractStarFiles cod img refStr = Inr fs"
  shows "length fs \<le> 1000 \<and> distinct (map fst fs) \<and>
    (\<forall>nm src. (nm, src) \<in> set fs \<longrightarrow>
       length src \<le> 2 ^ 20 \<and> has_suffix (path_Base nm) ''.star'' \<and> \<not> contains nm ''..'') \<and>
    (\<exists>m. im_Manifest img = Inr m \<and> artifact_type cod img m = ArtifactMediaType)"
proof -
  from extractStarFiles_ok(2) [OF assms]
  have "length src \<le> 2 ^ 20 \<and> has_suffix (path_Base nm) ''.star'' \<and> \<not> contains nm ''..''" if "(nm, src) \<in> set fs" for nm src
    using that unfolding file_ok_def maxFileSize_def by fastforce
  moreover have "\<exists>m. im_Manifest img = Inr m \<and> artifact_type cod img m = ArtifactMediaType"
    using assms unfolding extractStarFiles_def by (auto simp: Let_def bind_res_eq_Inr split: if_splits)
  ultimately show ?thesis using extractStarFiles_ok(1,3) [OF assms] by (auto simp: maxFileCount_def)
qed

text \<open>A tar artifact with one module, one file that is left out, and a directory.\<close>

definition ex_tar_image :: image where
  "ex_tar_image = \<lparr>im_Manifest = Inr \<lparr>mf_ConfigMediaType = [], mf_Layers = [[]]\<rparr>, im_RawManifest = Inr ''raw'',
     im_Layers = Inr [\<lparr>ly_MediaType = Inr LayerMediaType, ly_Uncompressed = Inr \<lparr>rd_data = [], rd_err = None\<rparr>\<rparr>],
     im_Digest = Inr ''sha256:00''\<rparr>"

definition ex_codecs :: codecs where
  "ex_codecs = \<lparr>json_artifactType = (\<lambda>_. Some ArtifactMediaType),
     tar_steps = (\<lambda>_. [TarEntry False ''lib'' \<lparr>rd_data = [], rd_err = None\<rparr>,
        TarEntry True ''./README'' \<lparr>rd_data = ''x'', rd_err = None\<rparr>,
        TarEntry True ''/lib//a.star'' \<lparr>rd_data = ''A'', rd_err = None\<rparr>])\<rparr>"

lemma ex_tar_names:
  "trim_prefix (Clean ''./README'') ''/'' = ''README''" "\<not> has_suffix (path_Base ''README'') ''.star''"
  "trim_prefix (Clean ''/lib//a.star'') ''/'' = ''lib/a.star''" "has_suffix (path_Base ''lib/a.star'') ''.star''"
  "\<not> contains ''./README'' ''..''" "\<not> contains ''/lib//a.star'' ''..''"
  by code_simp+

lemma ex_tar: "extractStarFiles ex_codecs ex_tar_image ''r'' = Inr [(''lib/a.star'', ''A'')]"
  by (simp add: extractStarFiles_def extractFromTar_def ex_tar_image_def ex_codecs_def artifact_type_def Let_def isTarLayer_def
      ArtifactMediaType_def ex_tar_names readAllLimit_def maxFileSize_def maxFileCount_def del: contains_Cons)

theorem extraction_bounded_witness:
  "length [(''lib/a.star'', ''A'')] \<le> 1000 \<and> \<not> contains ''lib/a.star'' ''..'' \<and> has_suffix (path_Base ''lib/a.star'') ''.star''"
  using extraction_bounded [OF ex_tar] by auto

end
