(* ===== verification/OciScanner.thy ===== *)
theory OciScanner
  imports OciRef
begin

text \<open>
  Finding the OCI load targets of a script (\<^verbatim>\<open>runtime/oci/scanner.go\<close>). The Starlark parser
  (\<^verbatim>\<open>go.starlark.net/syntax\<close>) is a parameter: it maps a file name and a source to an error or to the
  top-level statements, of which only the module names of \<^verbatim>\<open>load\<close> matter here.
\<close>

section \<open>Scanning\<close>

datatype scan_stmt = ScanLoad string | ScanOther

type_synonym scan_parser = "string \<Rightarrow> string \<Rightarrow> string + scan_stmt list"

text \<open>How the scanner rewrites a module name; \<open>None\<close> for modules that are not OCI targets.\<close>

definition scan_target ::
  "name_pkg \<Rightarrow> string \<Rightarrow> string \<Rightarrow> string \<Rightarrow> string \<Rightarrow> string + OCILoadTarget option" where
  "scan_target lib filename defaultRegistry parentRef md =
     bind_res
       (if IsPackageLocalTarget md then
          (case ExpandPackageLocal lib md parentRef of
             Inl e \<Rightarrow> Inl (''scanning '' @ filename @ '': '' @ e)
           | Inr expanded \<Rightarrow> Inr expanded)
        else if IsDefaultRegistryTarget md then ExpandDefaultRegistry md defaultRegistry
        else Inr md)
       (\<lambda>m. if \<not> has_prefix m ''oci://'' then Inr None
            else bind_res (ParseOCILoadTarget lib m) (\<lambda>target. Inr (Some target)))"

fun scan_stmts ::
  "name_pkg \<Rightarrow> string \<Rightarrow> string \<Rightarrow> string \<Rightarrow> scan_stmt list \<Rightarrow> string + OCILoadTarget list" where
  "scan_stmts lib filename defaultRegistry parentRef [] = Inr []"
| "scan_stmts lib filename defaultRegistry parentRef (ScanOther # stmts) =
     scan_stmts lib filename defaultRegistry parentRef stmts"
| "scan_stmts lib filename defaultRegistry parentRef (ScanLoad md # stmts) =
     bind_res (scan_target lib filename defaultRegistry parentRef md) (\<lambda>t.
     bind_res (scan_stmts lib filename defaultRegistry parentRef stmts) (\<lambda>ts.
       Inr (case t of None \<Rightarrow> ts | Some target \<Rightarrow> target # ts)))"

definition scanSource ::
  "name_pkg \<Rightarrow> scan_parser \<Rightarrow> string \<Rightarrow> string \<Rightarrow> string \<Rightarrow> string \<Rightarrow> string + OCILoadTarget list" where
  "scanSource lib parse source filename defaultRegistry parentRef =
     (case parse filename source of
        Inl e \<Rightarrow> Inl (''parsing '' @ filename @ '' for OCI loads: '' @ e)
      | Inr stmts \<Rightarrow> scan_stmts lib filename defaultRegistry parentRef stmts)"

fun dedup_from :: "(string \<times> string) list \<Rightarrow> OCILoadTarget list \<Rightarrow> OCILoadTarget list" where
  "dedup_from seen [] = []"
| "dedup_from seen (t # ts) =
     (if (RefStr t, File t) \<in> set seen then dedup_from seen ts
      else t # dedup_from ((RefStr t, File t) # seen) ts)"

definition dedup :: "OCILoadTarget list \<Rightarrow> OCILoadTarget list" where
  "dedup targets = dedup_from [] targets"

text \<open>The inline modules are visited in the order of their names.\<close>

definition ScanForOCILoads ::
  "name_pkg \<Rightarrow> scan_parser \<Rightarrow> string \<Rightarrow> (string \<times> string) list \<Rightarrow> string \<Rightarrow> string \<Rightarrow> string + OCILoadTarget list"
where
  "ScanForOCILoads lib parse source inlineModules defaultRegistry parentRef =
     bind_res (scanSource lib parse source ''composition.star'' defaultRegistry parentRef) (\<lambda>found.
     bind_res (map_res (\<lambda>nm. scanSource lib parse (the (map_of inlineModules nm)) nm defaultRegistry parentRef)
         (sort (map fst inlineModules))) (\<lambda>rest.
       Inr (dedup (found @ concat rest))))"

section \<open>What is found\<close>

lemma scan_stmts_parsed:
  "scan_stmts lib fn reg par stmts = Inr ts \<Longrightarrow> t \<in> set ts \<Longrightarrow> ParseOCILoadTarget lib (RawURL t) = Inr t"
proof (induction lib fn reg par stmts arbitrary: ts rule: scan_stmts.induct)
  case (3 lib fn reg par md stmts)
  have one: "ParseOCILoadTarget lib (RawURL u) = Inr u"
    if "scan_target lib fn reg par md = Inr (Some u)" for u
  proof -
    from that obtain m where "ParseOCILoadTarget lib m = Inr u"
      unfolding scan_target_def by (auto simp: bind_res_eq_Inr split: if_splits)
    moreover from this have "RawURL u = m"
      unfolding ParseOCILoadTarget_def Let_def by (auto simp: bind_res_eq_Inr split: if_splits)
    ultimately show ?thesis by simp
  qed
  from "3.prems" "3.IH" one show ?case
    by (auto simp: bind_res_eq_Inr split: option.splits)
qed auto

lemma scan_stmts_complete:
  "scan_stmts lib fn reg par stmts = Inr ts \<Longrightarrow> ScanLoad md \<in> set stmts \<Longrightarrow>
     scan_target lib fn reg par md = Inr (Some t) \<Longrightarrow> t \<in> set ts"
  by (induction lib fn reg par stmts arbitrary: ts rule: scan_stmts.induct)
    (auto simp: bind_res_eq_Inr split: option.splits)

text \<open>One failing \<^verbatim>\<open>load\<close> statement makes the whole scan fail, with the error of such a statement.\<close>

lemma scan_stmts_fails:
  "scan_target lib fn reg par md = Inl e \<Longrightarrow> ScanLoad md \<in> set stmts \<Longrightarrow>
     \<exists>e'. scan_stmts lib fn reg par stmts = Inl e'"
proof (induction lib fn reg par stmts rule: scan_stmts.induct)
  case (3 lib fn reg par md' stmts)
  then show ?case by (cases "scan_target lib fn reg par md'"; cases "scan_stmts lib fn reg par stmts") auto
qed auto

lemma scan_stmts_error:
  "scan_stmts lib fn reg par stmts = Inl e \<Longrightarrow>
     \<exists>md. ScanLoad md \<in> set stmts \<and> scan_target lib fn reg par md = Inl e"
proof (induction lib fn reg par stmts rule: scan_stmts.induct)
  case (3 lib fn reg par md' stmts)
  then show ?case by (cases "scan_target lib fn reg par md'"; cases "scan_stmts lib fn reg par stmts") auto
qed auto

lemma set_dedup_from: "t \<in> set (dedup_from seen ts) \<Longrightarrow> t \<in> set ts"
  by (induction seen ts rule: dedup_from.induct) (auto split: if_splits)

lemma dedup_from_covers:
  "t \<in> set ts \<Longrightarrow> (RefStr t, File t) \<in> set seen \<or>
     (\<exists>u \<in> set (dedup_from seen ts). RefStr u = RefStr t \<and> File u = File t)"
  by (induction seen ts rule: dedup_from.induct) auto

lemma ScanForOCILoads_parsed:
  assumes "ScanForOCILoads lib parse src mods reg par = Inr ts" and "t \<in> set ts"
  shows "ParseOCILoadTarget lib (RawURL t) = Inr t"
proof -
  from assms obtain found rest where f: "scanSource lib parse src ''composition.star'' reg par = Inr found"
    and r: "map_res (\<lambda>nm. scanSource lib parse (the (map_of mods nm)) nm reg par) (sort (map fst mods)) = Inr rest"
    and t: "t \<in> set (found @ concat rest)"
    unfolding ScanForOCILoads_def dedup_def by (auto simp: bind_res_eq_Inr dest: set_dedup_from)
  have src_ok: "ParseOCILoadTarget lib (RawURL t) = Inr t"
    if "scanSource lib parse s fn reg par = Inr us" "t \<in> set us" for s fn us
    using that scan_stmts_parsed unfolding scanSource_def by (auto split: sum.splits)
  from t show ?thesis
  proof (simp, elim disjE bexE)
    show "t \<in> set found \<Longrightarrow> ?thesis" using src_ok [OF f] .
    fix us assume "us \<in> set rest" "t \<in> set us"
    moreover from r this(1) obtain nm where "scanSource lib parse (the (map_of mods nm)) nm reg par = Inr us"
      unfolding map_res_Inr_iff by (metis (mono_tags, lifting) in_set_conv_nth list_all2_conv_all_nth)
    ultimately show ?thesis using src_ok by blast
  qed
qed

end
