(* ===== verification/OciResolver.thy ===== *)
theory OciResolver
  imports OciArtifact OciScanner Graph
begin

text \<open>
  Resolution of OCI modules (\<^verbatim>\<open>runtime/oci/resolver.go\<close>): \<^verbatim>\<open>resolveRef\<close> with the cache, the search for
  transitive loads with its cycle test, and the depth bound. The registry client is the parameter
  \<^verbatim>\<open>Fetcher\<close>; the parser, the name package and the codecs are parameters as in the theories before.
\<close>

section \<open>State\<close>

datatype keychain =
    DefaultKeychain
  | ConfigDirKeychain string
  | CredentialKeychain string
  | MultiKeychain "keychain list"

text \<open>A reference as the fetcher gets it: its parsed name and whether plain HTTP is allowed.\<close>

record Fetcher =
  Fetch :: "oci_name \<times> bool \<Rightarrow> keychain \<Rightarrow> string + image"
  Head :: "oci_name \<times> bool \<Rightarrow> keychain \<Rightarrow> string + string"

record Resolver =
  rv_lib :: name_pkg
  rv_parse :: scan_parser
  rv_codecs :: codecs
  rv_keychain :: keychain
  rv_fetcher :: Fetcher
  rv_defaultRegistry :: string
  rv_insecureRegs :: "string list"

text \<open>\<^verbatim>\<open>resolveState\<close>, and the cache, which is shared with other resolutions.\<close>

record resolveState =
  rs_loaded :: "(string \<times> files) list"
  rs_edges :: "(string \<times> string list) list"
  rs_cache :: Cache

datatype oci_error =
    OErr string
  | OCycle string string
  | ODepth
  | OFileMissing string string "string list"
  | OLocalMissing string string "string list"

definition maxTransitiveDepth :: nat where
  "maxTransitiveDepth = 10"

section \<open>A single reference\<close>

text \<open>
  \<^verbatim>\<open>resolveRef\<close>. The result comes with the new cache, also when it is an error.
\<close>

definition store_image ::
  "Resolver \<Rightarrow> int \<Rightarrow> string \<Rightarrow> image \<Rightarrow> Cache \<Rightarrow> (string + files) \<times> Cache" where
  "store_image rv now refStr img c =
     (case extractStarFiles (rv_codecs rv) img refStr of
        Inl e \<Rightarrow> (Inl e, c)
      | Inr extracted \<Rightarrow>
          (case im_Digest img of
             Inl e \<Rightarrow> (Inl (''getting digest for '' @ refStr @ '': '' @ e), c)
           | Inr digest \<Rightarrow> (Inr extracted, PutTag now refStr digest (PutContent digest extracted c))))"

definition fetch_ref ::
  "Resolver \<Rightarrow> int \<Rightarrow> string \<Rightarrow> oci_name \<times> bool \<Rightarrow> keychain \<Rightarrow> files option \<Rightarrow> Cache \<Rightarrow> (string + files) \<times> Cache" where
  "fetch_ref rv now refStr ref kc stale c =
     (case Fetch (rv_fetcher rv) ref kc of
        Inl e \<Rightarrow>
          (case stale of
             Some fs \<Rightarrow> (Inr fs, c)
           | None \<Rightarrow> (Inl (''fetching OCI artifact '' @ refStr @ '': '' @ e), c))
      | Inr img \<Rightarrow> store_image rv now refStr img c)"

definition head_ref ::
  "Resolver \<Rightarrow> int \<Rightarrow> string \<Rightarrow> oci_name \<times> bool \<Rightarrow> keychain \<Rightarrow> files option \<Rightarrow> Cache \<Rightarrow> (files \<times> Cache) option" where
  "head_ref rv now refStr ref kc stale c =
     (case stale of
        None \<Rightarrow> None
      | Some _ \<Rightarrow>
          (case Head (rv_fetcher rv) ref kc of
             Inl _ \<Rightarrow> None
           | Inr digestStr \<Rightarrow>
               (case GetByDigest digestStr c of
                  Some cached \<Rightarrow> Some (cached, PutTag now refStr digestStr c)
                | None \<Rightarrow> None)))"

definition ask_registry ::
  "Resolver \<Rightarrow> int \<Rightarrow> string \<Rightarrow> oci_name \<times> bool \<Rightarrow> keychain \<Rightarrow> files option \<Rightarrow> Cache \<Rightarrow> (string + files) \<times> Cache" where
  "ask_registry rv now refStr ref kc stale c =
     (case head_ref rv now refStr ref kc stale c of
        Some (cached, c') \<Rightarrow> (Inr cached, c')
      | None \<Rightarrow> fetch_ref rv now refStr ref kc stale c)"

definition resolveRef ::
  "Resolver \<Rightarrow> int \<Rightarrow> string \<Rightarrow> OCILoadTarget \<Rightarrow> Cache \<Rightarrow> (string + files) \<times> Cache" where
  "resolveRef rv now refStr target c =
     (case GetByTag now refStr c of
        (Some fs, True) \<Rightarrow> (Inr fs, c)
      | (stale, _) \<Rightarrow>
          (case (if Digest target \<noteq> [] then GetByDigest (Digest target) c else None) of
             Some df \<Rightarrow> (Inr df, c)
           | None \<Rightarrow>
               (case ParseReference (rv_lib rv) refStr False of
                  Inl e \<Rightarrow> (Inl (''parsing OCI reference '' @ go_quote refStr @ '': '' @ e), c)
                | Inr ref \<Rightarrow>
                    let insecure = (nm_RegistryStr ref \<in> set (rv_insecureRegs rv)) in
                    (case (if insecure then ParseReference (rv_lib rv) refStr True else Inr ref) of
                       Inl e \<Rightarrow> (Inl (''parsing insecure OCI reference '' @ go_quote refStr @ '': '' @ e), c)
                     | Inr ref \<Rightarrow>
                         let kc = (if insecure then MultiKeychain [] else rv_keychain rv) in
                         ask_registry rv now refStr (ref, insecure) kc stale c))))"

section \<open>Reachability in the artifact graph\<close>

definition succs :: "(string \<times> string list) list \<Rightarrow> string \<Rightarrow> string list" where
  "succs edges n = (case map_of edges n of None \<Rightarrow> [] | Some ns \<Rightarrow> ns)"

text \<open>The loop of \<^verbatim>\<open>reaches\<close>; the head of the list is the top of the stack.\<close>

function reaches_loop ::
  "(string \<times> string list) list \<Rightarrow> string \<Rightarrow> string list \<Rightarrow> string list \<Rightarrow> bool" where
  "reaches_loop edges to seen [] = False"
| "reaches_loop edges to seen (cur # stack) =
     (if cur = to then True
      else if cur \<in> set seen then reaches_loop edges to seen stack
      else reaches_loop edges to (cur # seen) (rev (succs edges cur) @ stack))"
  by pat_completeness auto
termination
proof (relation "measures [\<lambda>(edges, to, seen, stack). card (fst ` set edges - set seen),
    \<lambda>(edges, to, seen, stack). length stack]", goal_cases)
  case (3 edges to seen cur stack)
  show ?case
  proof (cases "cur \<in> fst ` set edges")
    case True
    with 3 have "fst ` set edges - set (cur # seen) \<subset> fst ` set edges - set seen" by auto
    then have "card (fst ` set edges - set (cur # seen)) < card (fst ` set edges - set seen)"
      by (simp add: psubset_card_mono)
    then show ?thesis by simp
  next
    case False
    then have "succs edges cur = []" by (simp add: succs_def map_of_eq_None_iff [THEN iffD2])
    moreover have "fst ` set edges - set (cur # seen) = fst ` set edges - set seen" using False by auto
    ultimately show ?thesis by simp
  qed
qed auto

definition reaches :: "(string \<times> string list) list \<Rightarrow> string \<Rightarrow> string \<Rightarrow> bool" where
  "reaches edges from to = reaches_loop edges to [] [from]"

definition add_edge :: "string \<Rightarrow> string \<Rightarrow> (string \<times> string list) list \<Rightarrow> (string \<times> string list) list" where
  "add_edge a b edges =
     AList.update a (if b \<in> set (succs edges a) then succs edges a else succs edges a @ [b]) edges"

section \<open>The recursion\<close>

text \<open>
  The loop over the targets found in one file of artifact \<open>refStr\<close>: files of the same artifact are
  mapped at once, others are checked for cycles and queued.
\<close>

fun queue_targets ::
  "string \<Rightarrow> files \<Rightarrow> OCILoadTarget list \<Rightarrow> (string \<times> string) list \<Rightarrow> OCILoadTarget list \<Rightarrow> resolveState \<Rightarrow>
     oci_error + (string \<times> string) list \<times> OCILoadTarget list \<times> resolveState" where
  "queue_targets refStr fs [] result queue st = Inr (result, queue, st)"
| "queue_targets refStr fs (t # ts) result queue st =
     (if RefStr t = refStr then
        (case map_of fs (File t) of
           None \<Rightarrow> Inl (OLocalMissing (File t) refStr (map fst fs))
         | Some src \<Rightarrow> queue_targets refStr fs ts (AList.update (RawURL t) src result) queue st)
      else if reaches (rs_edges st) (RefStr t) refStr then Inl (OCycle refStr (RefStr t))
      else queue_targets refStr fs ts result (queue @ [t])
        (st\<lparr>rs_edges := add_edge refStr (RefStr t) (rs_edges st)\<rparr>))"

definition scan_file :: "Resolver \<Rightarrow> string \<Rightarrow> string \<Rightarrow> string + OCILoadTarget list" where
  "scan_file rv refStr src = ScanForOCILoads (rv_lib rv) (rv_parse rv) src [] (rv_defaultRegistry rv) refStr"

text \<open>The loop over the files; a file that cannot be scanned is skipped.\<close>

fun scan_files ::
  "Resolver \<Rightarrow> string \<Rightarrow> files \<Rightarrow> files \<Rightarrow> (string \<times> string) list \<Rightarrow> OCILoadTarget list \<Rightarrow> resolveState \<Rightarrow>
     oci_error + (string \<times> string) list \<times> OCILoadTarget list \<times> resolveState" where
  "scan_files rv refStr fs [] result queue st = Inr (result, queue, st)"
| "scan_files rv refStr fs ((_, src) # rest) result queue st =
     (case scan_file rv refStr src of
        Inl _ \<Rightarrow> scan_files rv refStr fs rest result queue st
      | Inr ts \<Rightarrow>
          bind_res (queue_targets refStr fs ts result queue st) (\<lambda>(result, queue, st).
            scan_files rv refStr fs rest result queue st))"

fun map_requested ::
  "string \<Rightarrow> files \<Rightarrow> OCILoadTarget list \<Rightarrow> (string \<times> string) list \<Rightarrow> oci_error + (string \<times> string) list" where
  "map_requested refStr fs [] result = Inr result"
| "map_requested refStr fs (t # ts) result =
     (case map_of fs (File t) of
        None \<Rightarrow> Inl (OFileMissing (File t) refStr (map fst fs))
      | Some src \<Rightarrow> map_requested refStr fs ts (AList.update (RawURL t) src result))"

text \<open>The loop over the references of one level. An error comes with the cache it leaves behind.\<close>

fun resolve_level ::
  "Resolver \<Rightarrow> int \<Rightarrow> (string \<times> OCILoadTarget list) list \<Rightarrow> (string \<times> string) list \<Rightarrow> OCILoadTarget list \<Rightarrow>
     resolveState \<Rightarrow> (oci_error \<times> Cache) + (string \<times> string) list \<times> OCILoadTarget list \<times> resolveState" where
  "resolve_level rv now [] result queue st = Inr (result, queue, st)"
| "resolve_level rv now ((refStr, refTargets) # rest) result queue st =
     (case map_of (rs_loaded st) refStr of
        Some fs \<Rightarrow>
          (case map_requested refStr fs refTargets result of
             Inl e \<Rightarrow> Inl (e, rs_cache st)
           | Inr result \<Rightarrow> resolve_level rv now rest result queue st)
      | None \<Rightarrow>
          (case resolveRef rv now refStr (hd refTargets) (rs_cache st) of
             (Inl e, c) \<Rightarrow> Inl (OErr e, c)
           | (Inr fs, c) \<Rightarrow>
               let st = st\<lparr>rs_loaded := AList.update refStr fs (rs_loaded st), rs_cache := c\<rparr> in
               (case map_requested refStr fs refTargets result of
                  Inl e \<Rightarrow> Inl (e, c)
                | Inr result \<Rightarrow>
                    (case scan_files rv refStr fs fs result queue st of
                       Inl e \<Rightarrow> Inl (e, c)
                     | Inr (result, queue, st) \<Rightarrow> resolve_level rv now rest result queue st))))"

text \<open>\<^verbatim>\<open>uniqueRefs\<close> in the order of \<^verbatim>\<open>refOrder\<close>.\<close>

definition unique_refs :: "OCILoadTarget list \<Rightarrow> (string \<times> OCILoadTarget list) list" where
  "unique_refs targets =
     map (\<lambda>r. (r, filter (\<lambda>t. RefStr t = r) targets)) (rev (remdups (rev (map RefStr targets))))"

text \<open>The loop that copies the transitive results over the results.\<close>

definition merge_results :: "(string \<times> string) list \<Rightarrow> (string \<times> string) list \<Rightarrow> (string \<times> string) list" where
  "merge_results result transResult = AList.merge result transResult"

function resolveRecursive ::
  "Resolver \<Rightarrow> int \<Rightarrow> OCILoadTarget list \<Rightarrow> resolveState \<Rightarrow> nat \<Rightarrow>
     (oci_error \<times> Cache) + (string \<times> string) list \<times> resolveState" where
  "resolveRecursive rv now targets st depth =
     (if depth > maxTransitiveDepth then Inl (ODepth, rs_cache st)
      else (case resolve_level rv now (unique_refs targets) [] [] st of
          Inl e \<Rightarrow> Inl e
        | Inr (result, queue, st) \<Rightarrow>
            if queue = [] then Inr (result, st)
            else (case resolveRecursive rv now queue st (depth + 1) of
                Inl e \<Rightarrow> Inl e
              | Inr (transResult, st) \<Rightarrow> Inr (merge_results result transResult, st))))"
  by pat_completeness auto
termination
  by (relation "measure (\<lambda>(rv, now, targets, st, depth). Suc maxTransitiveDepth - depth)") auto

declare resolveRecursive.simps [simp del]

definition Resolve ::
  "Resolver \<Rightarrow> int \<Rightarrow> OCILoadTarget list \<Rightarrow> Cache \<Rightarrow> (oci_error \<times> Cache) + (string \<times> string) list \<times> resolveState"
where
  "Resolve rv now targets cache =
     resolveRecursive rv now targets \<lparr>rs_loaded = [], rs_edges = [], rs_cache = cache\<rparr> 0"

section \<open>The cycle test\<close>

lemma edges_exit:
  assumes "(x, y) \<in> E\<^sup>*" and "x \<in> S" and "y \<notin> S" and "E `` S \<subseteq> S \<union> T"
  obtains z where "z \<in> T" "z \<notin> S" "(z, y) \<in> E\<^sup>*"
  using assms
proof (induction arbitrary: thesis rule: converse_rtrancl_induct)
  case (step x z)
  show ?case
  proof (cases "z \<in> S")
    case True
    with step show ?thesis by blast
  next
    case False
    with step have "z \<in> T" by blast
    with False step.hyps step.prems(1) show ?thesis by blast
  qed
qed simp

lemma reaches_loop_iff:
  "to \<notin> set seen \<Longrightarrow> edges_of (succs edges) `` set seen \<subseteq> set seen \<union> set stack \<Longrightarrow>
     reaches_loop edges to seen stack \<longleftrightarrow> (\<exists>x \<in> set stack. (x, to) \<in> (edges_of (succs edges))\<^sup>*)"
proof (induction edges to seen stack rule: reaches_loop.induct)
  case (2 edges to seen cur stack)
  let ?E = "edges_of (succs edges)"
  show ?case
  proof (cases "cur = to \<or> cur \<in> set seen")
    case False
    have "?E `` set (cur # seen) \<subseteq> set (cur # seen) \<union> set (rev (succs edges cur) @ stack)"
      using "2.prems"(2) by (auto simp: Image_def)
    then have "reaches_loop edges to (cur # seen) (rev (succs edges cur) @ stack) \<longleftrightarrow>
        (\<exists>x \<in> set (rev (succs edges cur) @ stack). (x, to) \<in> ?E\<^sup>*)"
      using "2.IH"(2) False "2.prems"(1) by auto
    moreover have "(cur, to) \<in> ?E\<^sup>* \<longleftrightarrow> (\<exists>x \<in> set (succs edges cur). (x, to) \<in> ?E\<^sup>*)"
      using False by (metis converse_rtranclE converse_rtrancl_into_rtrancl edges_of_iff)
    ultimately show ?thesis using False by auto
  next
    case True
    show ?thesis
    proof (cases "cur = to")
      case True
      then show ?thesis by auto
    next
      case ne: False
      with True have seen: "cur \<in> set seen" by simp
      then have cl: "?E `` set seen \<subseteq> set seen \<union> set stack" using "2.prems"(2) by auto
      have "\<exists>x \<in> set stack. (x, to) \<in> ?E\<^sup>*" if "(cur, to) \<in> ?E\<^sup>*"
        using edges_exit [OF that seen "2.prems"(1) cl] by blast
      then show ?thesis using "2.IH"(1) [OF ne seen "2.prems"(1) cl] ne seen by auto
    qed
  qed
qed simp

lemma reaches_iff: "reaches edges a b \<longleftrightarrow> (a, b) \<in> (edges_of (succs edges))\<^sup>*"
  unfolding reaches_def by (subst reaches_loop_iff) auto

lemma edges_add_edge: "edges_of (succs (add_edge a b edges)) = insert (a, b) (edges_of (succs edges))"
  by (auto simp: edges_of_def succs_def add_edge_def split: option.splits if_splits)

lemma acyclic_add_edge:
  "acyclic (edges_of (succs edges)) \<Longrightarrow> \<not> reaches edges b a \<Longrightarrow> acyclic (edges_of (succs (add_edge a b edges)))"
  by (simp add: edges_add_edge acyclic_insert reaches_iff)

section \<open>What a level does\<close>

text \<open>
  The result maps URLs to sources. An entry is right when it is the file that the URL names in the
  artifact that the URL names; because artifacts are loaded once, the entry is then determined by
  the URL.
\<close>

definition entry_ok :: "Resolver \<Rightarrow> resolveState \<Rightarrow> string \<Rightarrow> string \<Rightarrow> bool" where
  "entry_ok rv st url src \<longleftrightarrow>
     (\<exists>t fs. ParseOCILoadTarget (rv_lib rv) url = Inr t \<and> map_of (rs_loaded st) (RefStr t) = Some fs \<and>
        map_of fs (File t) = Some src)"

definition result_ok :: "Resolver \<Rightarrow> resolveState \<Rightarrow> (string \<times> string) list \<Rightarrow> bool" where
  "result_ok rv st result \<longleftrightarrow> (\<forall>url src. map_of result url = Some src \<longrightarrow> entry_ok rv st url src)"

definition targets_ok :: "Resolver \<Rightarrow> OCILoadTarget list \<Rightarrow> bool" where
  "targets_ok rv ts \<longleftrightarrow> (\<forall>t \<in> set ts. ParseOCILoadTarget (rv_lib rv) (RawURL t) = Inr t)"

text \<open>All loads of the artifact \<open>ref\<close> that the scanner finds are mapped or queued.\<close>

definition loads_of :: "Resolver \<Rightarrow> string \<Rightarrow> files \<Rightarrow> OCILoadTarget set" where
  "loads_of rv ref fs = {t. \<exists>f src ts. (f, src) \<in> set fs \<and> scan_file rv ref src = Inr ts \<and> t \<in> set ts}"

definition covered :: "(string \<times> string) list \<Rightarrow> OCILoadTarget list \<Rightarrow> OCILoadTarget \<Rightarrow> bool" where
  "covered result queue t \<longleftrightarrow> map_of result (RawURL t) \<noteq> None \<or> t \<in> set queue"

lemma result_ok_update:
  "result_ok rv st result \<Longrightarrow> entry_ok rv st url src \<Longrightarrow> result_ok rv st (AList.update url src result)"
  by (auto simp: result_ok_def)

text \<open>
  The progress of the loops: artifacts stay as they were loaded, the result stays right, the queue
  holds parsed targets, nothing that was covered is lost, and the graph grows without a cycle.
\<close>

definition extends ::
  "Resolver \<Rightarrow> (string \<times> string) list \<times> OCILoadTarget list \<times> resolveState \<Rightarrow>
     (string \<times> string) list \<times> OCILoadTarget list \<times> resolveState \<Rightarrow> bool" where
  "extends rv = (\<lambda>(result, queue, st) (result', queue', st').
     (\<forall>r fs. map_of (rs_loaded st) r = Some fs \<longrightarrow> map_of (rs_loaded st') r = Some fs) \<and>
     (result_ok rv st result \<longrightarrow> result_ok rv st' result') \<and>
     (targets_ok rv queue \<longrightarrow> targets_ok rv queue') \<and>
     (\<forall>t. covered result queue t \<longrightarrow> covered result' queue' t) \<and>
     edges_of (succs (rs_edges st)) \<subseteq> edges_of (succs (rs_edges st')) \<and>
     (acyclic (edges_of (succs (rs_edges st))) \<longrightarrow> acyclic (edges_of (succs (rs_edges st')))))"

lemma extends_refl [simp]: "extends rv s s"
  by (cases s) (simp add: extends_def)

lemma extends_trans: "extends rv s1 s2 \<Longrightarrow> extends rv s2 s3 \<Longrightarrow> extends rv s1 s3"
  by (cases s1, cases s2, cases s3) (auto simp: extends_def)

lemma result_ok_mono:
  assumes "result_ok rv st result"
    and "\<And>r fs. map_of (rs_loaded st) r = Some fs \<Longrightarrow> map_of (rs_loaded st') r = Some fs"
  shows "result_ok rv st' result"
  using assms unfolding result_ok_def entry_ok_def by meson

lemma extends_put:
  "entry_ok rv st url src \<Longrightarrow> extends rv (result, queue, st) (AList.update url src result, queue, st)"
  by (auto simp: extends_def result_ok_update covered_def)

lemma extends_queue:
  assumes "\<not> reaches (rs_edges st) (RefStr t) ref" and "ParseOCILoadTarget (rv_lib rv) (RawURL t) = Inr t"
  shows "extends rv (result, queue, st)
    (result, queue @ [t], st\<lparr>rs_edges := add_edge ref (RefStr t) (rs_edges st)\<rparr>)"
  using assms acyclic_add_edge [of "rs_edges st" "RefStr t" ref]
  by (auto simp: extends_def targets_ok_def covered_def result_ok_def entry_ok_def edges_add_edge simp del: edges_of_iff)

text \<open>The loads of an artifact that were dealt with.\<close>

definition done_load :: "(string \<times> string) list \<times> OCILoadTarget list \<times> resolveState \<Rightarrow> string \<Rightarrow> OCILoadTarget \<Rightarrow> bool" where
  "done_load = (\<lambda>(result, queue, st) ref t.
     covered result queue t \<and> (RefStr t \<noteq> ref \<longrightarrow> (ref, RefStr t) \<in> edges_of (succs (rs_edges st))))"

lemma done_load_mono: "done_load s ref t \<Longrightarrow> extends rv s s' \<Longrightarrow> done_load s' ref t"
  by (cases s, cases s') (auto simp: done_load_def extends_def simp del: edges_of_iff)

lemma queue_targets_ok:
  "queue_targets ref fs ts result queue st = Inr s' \<Longrightarrow> targets_ok rv ts \<Longrightarrow> map_of (rs_loaded st) ref = Some fs \<Longrightarrow>
     extends rv (result, queue, st) s' \<and> rs_loaded (snd (snd s')) = rs_loaded st \<and>
     rs_cache (snd (snd s')) = rs_cache st \<and> (\<forall>t \<in> set ts. done_load s' ref t)"
proof (induction ref fs ts result queue st rule: queue_targets.induct)
  case (2 ref fs t ts result queue st)
  have t: "ParseOCILoadTarget (rv_lib rv) (RawURL t) = Inr t" "targets_ok rv ts"
    using "2.prems"(2) by (auto simp: targets_ok_def)
  show ?case
  proof (cases "RefStr t = ref")
    case True
    with "2.prems"(1) obtain src where src: "map_of fs (File t) = Some src"
      "queue_targets ref fs ts (AList.update (RawURL t) src result) queue st = Inr s'"
      by (auto split: option.splits)
    have e: "entry_ok rv st (RawURL t) src"
      using t(1) src(1) True "2.prems"(3) unfolding entry_ok_def by blast
    note IH = "2.IH"(1) [OF True src t(2) "2.prems"(3)]
    have "done_load (AList.update (RawURL t) src result, queue, st) ref t"
      using True by (simp add: done_load_def covered_def)
    with IH have "done_load s' ref t" using done_load_mono by blast
    with IH extends_put [OF e] show ?thesis using extends_trans by fastforce
  next
    case False
    let ?st = "st\<lparr>rs_edges := add_edge ref (RefStr t) (rs_edges st)\<rparr>"
    from False "2.prems"(1) have nr: "\<not> reaches (rs_edges st) (RefStr t) ref"
      and q: "queue_targets ref fs ts result (queue @ [t]) ?st = Inr s'" by (auto split: if_splits)
    have IH: "extends rv (result, queue @ [t], ?st) s' \<and> rs_loaded (snd (snd s')) = rs_loaded ?st \<and>
        rs_cache (snd (snd s')) = rs_cache ?st \<and> (\<forall>t \<in> set ts. done_load s' ref t)"
      by (rule "2.IH"(2) [OF False nr q t(2)]) (simp add: "2.prems"(3))
    have "done_load (result, queue @ [t], ?st) ref t"
      by (simp add: done_load_def covered_def edges_add_edge del: edges_of_iff)
    with IH have "done_load s' ref t" using done_load_mono by blast
    with IH extends_queue [OF nr t(1)] show ?thesis using extends_trans by fastforce
  qed
qed auto

lemma scan_files_ok:
  "scan_files rv ref fs rest result queue st = Inr s' \<Longrightarrow> map_of (rs_loaded st) ref = Some fs \<Longrightarrow>
     extends rv (result, queue, st) s' \<and> rs_loaded (snd (snd s')) = rs_loaded st \<and>
     rs_cache (snd (snd s')) = rs_cache st \<and>
     (\<forall>f src ts t. (f, src) \<in> set rest \<longrightarrow> scan_file rv ref src = Inr ts \<longrightarrow> t \<in> set ts \<longrightarrow> done_load s' ref t)"
proof (induction rest arbitrary: result queue st)
  case (Cons fsrc rest)
  obtain f src where fs: "fsrc = (f, src)" by (cases fsrc)
  show ?case
  proof (cases "scan_file rv ref src")
    case (Inl e)
    with Cons.prems have "scan_files rv ref fs rest result queue st = Inr s'" by (simp add: fs)
    from Cons.IH [OF this Cons.prems(2)] Inl show ?thesis by (auto simp: fs)
  next
    case (Inr ts)
    with Cons.prems obtain result1 queue1 st1
      where q: "queue_targets ref fs ts result queue st = Inr (result1, queue1, st1)"
        and r: "scan_files rv ref fs rest result1 queue1 st1 = Inr s'"
      by (auto simp: fs bind_res_eq_Inr)
    have "targets_ok rv ts" using Inr ScanForOCILoads_parsed unfolding scan_file_def targets_ok_def by blast
    from queue_targets_ok [OF q this Cons.prems(2)]
    have 1: "extends rv (result, queue, st) (result1, queue1, st1)" "rs_loaded st1 = rs_loaded st"
      "rs_cache st1 = rs_cache st" "\<forall>t \<in> set ts. done_load (result1, queue1, st1) ref t" by auto
    from Cons.IH [OF r] 1(2) Cons.prems(2)
    have 2: "extends rv (result1, queue1, st1) s'" "rs_loaded (snd (snd s')) = rs_loaded st"
      "rs_cache (snd (snd s')) = rs_cache st1"
      "\<forall>f src ts t. (f, src) \<in> set rest \<longrightarrow> scan_file rv ref src = Inr ts \<longrightarrow> t \<in> set ts \<longrightarrow> done_load s' ref t"
      by auto
    have "\<forall>t \<in> set ts. done_load s' ref t" using 1(4) 2(1) done_load_mono by blast
    then show ?thesis using extends_trans [OF 1(1) 2(1)] 2 1(3) Inr by (auto simp: fs)
  qed
qed auto

lemma map_requested_ok:
  "map_requested ref fs ts result = Inr result' \<Longrightarrow> targets_ok rv ts \<Longrightarrow> (\<And>t. t \<in> set ts \<Longrightarrow> RefStr t = ref) \<Longrightarrow>
     map_of (rs_loaded st) ref = Some fs \<Longrightarrow>
     extends rv (result, queue, st) (result', queue, st) \<and> (\<forall>t \<in> set ts. covered result' queue t)"
proof (induction ts arbitrary: result)
  case (Cons t ts)
  from Cons.prems(1) obtain src where src: "map_of fs (File t) = Some src"
    "map_requested ref fs ts (AList.update (RawURL t) src result) = Inr result'"
    by (auto split: option.splits)
  have "entry_ok rv st (RawURL t) src"
    using Cons.prems(2-4) src(1) unfolding entry_ok_def targets_ok_def by auto
  note ext = extends_put [OF this, of result queue]
  have IH: "extends rv (AList.update (RawURL t) src result, queue, st) (result', queue, st) \<and>
      (\<forall>t \<in> set ts. covered result' queue t)"
    using Cons.prems by (intro Cons.IH [OF src(2)]) (auto simp: targets_ok_def)
  have "covered (AList.update (RawURL t) src result) queue t" by (simp add: covered_def)
  with IH have "covered result' queue t" by (auto simp: extends_def)
  with IH ext show ?case using extends_trans by auto
qed simp

text \<open>Artifacts that were loaded on the way have all their loads dealt with.\<close>

definition news_done ::
  "Resolver \<Rightarrow> resolveState \<Rightarrow> (string \<times> string) list \<times> OCILoadTarget list \<times> resolveState \<Rightarrow> bool" where
  "news_done rv st s' \<longleftrightarrow>
     (\<forall>r fs t. map_of (rs_loaded (snd (snd s'))) r = Some fs \<longrightarrow> map_of (rs_loaded st) r = None \<longrightarrow>
        t \<in> loads_of rv r fs \<longrightarrow> done_load s' r t)"

lemma news_done_trans:
  assumes "news_done rv st (result1, queue1, st1)" and "extends rv (result1, queue1, st1) (result2, queue2, st2)"
    and "news_done rv st1 (result2, queue2, st2)"
  shows "news_done rv st (result2, queue2, st2)"
  unfolding news_done_def
proof (intro allI impI, unfold snd_conv)
  fix r fs t
  assume r: "map_of (rs_loaded st2) r = Some fs" "map_of (rs_loaded st) r = None" "t \<in> loads_of rv r fs"
  show "done_load (result2, queue2, st2) r t"
  proof (cases "map_of (rs_loaded st1) r")
    case (Some fs1)
    with assms(2) r(1) have "fs1 = fs" by (fastforce simp: extends_def)
    with assms(1) Some r have "done_load (result1, queue1, st1) r t" by (auto simp: news_done_def)
    then show ?thesis by (rule done_load_mono [OF _ assms(2)])
  qed (use assms(3) r in \<open>auto simp: news_done_def\<close>)
qed

text \<open>One artifact that was not loaded before.\<close>

lemma news_done_single:
  assumes "map_of (rs_loaded st) ref = None" and "rs_loaded st' = AList.update ref fs (rs_loaded st)"
    and "\<forall>t \<in> loads_of rv ref fs. done_load (result, queue, st') ref t"
  shows "news_done rv st (result, queue, st')"
  using assms by (auto simp: news_done_def split: if_splits)

definition grouped :: "Resolver \<Rightarrow> (string \<times> OCILoadTarget list) list \<Rightarrow> bool" where
  "grouped rv refs \<longleftrightarrow>
     (\<forall>r ts. (r, ts) \<in> set refs \<longrightarrow> targets_ok rv ts \<and> (\<forall>t \<in> set ts. RefStr t = r))"

lemma extends_load:
  assumes "map_of (rs_loaded st) ref = None"
  shows "extends rv (result, queue, st) (result, queue, st\<lparr>rs_loaded := AList.update ref fs (rs_loaded st), rs_cache := c\<rparr>)"
proof -
  let ?st = "st\<lparr>rs_loaded := AList.update ref fs (rs_loaded st), rs_cache := c\<rparr>"
  have "map_of (rs_loaded ?st) r = Some gs" if "map_of (rs_loaded st) r = Some gs" for r gs
    using that assms by auto
  then show ?thesis using result_ok_mono [of rv st result ?st] by (simp add: extends_def)
qed

lemma resolve_level_ok:
  "resolve_level rv now refs result queue st = Inr s' \<Longrightarrow> grouped rv refs \<Longrightarrow>
     extends rv (result, queue, st) s' \<and> news_done rv st s' \<and>
     (\<forall>r ts t. (r, ts) \<in> set refs \<longrightarrow> t \<in> set ts \<longrightarrow> covered (fst s') (fst (snd s')) t)"
proof (induction refs arbitrary: result queue st)
  case (Cons rts refs)
  obtain ref ts where rts: "rts = (ref, ts)" by (cases rts)
  have g: "targets_ok rv ts" "\<And>t. t \<in> set ts \<Longrightarrow> RefStr t = ref" "grouped rv refs"
    using Cons.prems(2) unfolding grouped_def rts by auto
  show ?case
  proof (cases "map_of (rs_loaded st) ref")
    case (Some fs)
    with Cons.prems(1) obtain result1 where r1: "map_requested ref fs ts result = Inr result1"
      and rest: "resolve_level rv now refs result1 queue st = Inr s'"
      by (auto simp: rts split: sum.splits)
    from map_requested_ok [OF r1 g(1,2) Some, of queue]
    have 1: "extends rv (result, queue, st) (result1, queue, st)" "\<forall>t \<in> set ts. covered result1 queue t" by auto
    from Cons.IH [OF rest g(3)]
    have 2: "extends rv (result1, queue, st) s'" "news_done rv st s'"
      "\<forall>r ts t. (r, ts) \<in> set refs \<longrightarrow> t \<in> set ts \<longrightarrow> covered (fst s') (fst (snd s')) t" by auto
    have "\<forall>t \<in> set ts. covered (fst s') (fst (snd s')) t"
      using 1(2) 2(1) by (cases s') (auto simp: extends_def)
    with extends_trans [OF 1(1) 2(1)] 2 show ?thesis by (auto simp: rts)
  next
    case None
    with Cons.prems(1) obtain fs c where rr: "resolveRef rv now ref (hd ts) (rs_cache st) = (Inr fs, c)"
      by (auto simp: rts split: sum.splits prod.splits)
    define st0 where "st0 = st\<lparr>rs_loaded := AList.update ref fs (rs_loaded st), rs_cache := c\<rparr>"
    from Cons.prems(1) None rr obtain result1 result2 queue2 st2
      where r1: "map_requested ref fs ts result = Inr result1"
        and sf: "scan_files rv ref fs fs result1 queue st0 = Inr (result2, queue2, st2)"
        and rest: "resolve_level rv now refs result2 queue2 st2 = Inr s'"
      by (auto simp: rts Let_def st0_def [symmetric] split: sum.splits prod.splits)
    have l0: "map_of (rs_loaded st0) ref = Some fs" by (simp add: st0_def)
    have 0: "extends rv (result, queue, st) (result, queue, st0)"
      unfolding st0_def by (rule extends_load [OF None])
    from map_requested_ok [OF r1 g(1,2) l0, of queue]
    have 1: "extends rv (result, queue, st0) (result1, queue, st0)" "\<forall>t \<in> set ts. covered result1 queue t" by auto
    from scan_files_ok [OF sf l0]
    have 2: "extends rv (result1, queue, st0) (result2, queue2, st2)" "rs_loaded st2 = rs_loaded st0"
      "\<forall>t \<in> loads_of rv ref fs. done_load (result2, queue2, st2) ref t" by (auto simp: loads_of_def)
    from Cons.IH [OF rest g(3)]
    have 3: "extends rv (result2, queue2, st2) s'" "news_done rv st2 s'"
      "\<forall>r ts t. (r, ts) \<in> set refs \<longrightarrow> t \<in> set ts \<longrightarrow> covered (fst s') (fst (snd s')) t" by auto
    obtain result' queue' st' where s': "s' = (result', queue', st')" by (cases s')
    note e13 = extends_trans [OF 2(1) 3(1)]
    have "\<forall>t \<in> set ts. covered result' queue' t" using 1(2) e13 by (auto simp: s' extends_def)
    moreover have "news_done rv st (result2, queue2, st2)"
      by (rule news_done_single [OF None _ 2(3)]) (simp add: 2(2) st0_def)
    then have "news_done rv st s'" using news_done_trans 3(1,2) unfolding s' by blast
    ultimately show ?thesis using 3(3) extends_trans [OF 0 extends_trans [OF 1(1) e13]] by (auto simp: rts s')
  qed
qed (auto simp: news_done_def)

lemma grouped_unique_refs: "targets_ok rv targets \<Longrightarrow> grouped rv (unique_refs targets)"
  by (auto simp: grouped_def unique_refs_def targets_ok_def)

lemma unique_refs_covers:
  assumes "t \<in> set targets" shows "\<exists>r ts. (r, ts) \<in> set (unique_refs targets) \<and> t \<in> set ts"
  by (intro exI [of _ "RefStr t"] exI [of _ "filter (\<lambda>u. RefStr u = RefStr t) targets"])
    (use assms in \<open>auto simp: unique_refs_def\<close>)

lemma merge_results_ok:
  assumes "result_ok rv st a" "result_ok rv st b"
  shows "result_ok rv st (merge_results a b)"
    and "map_of (merge_results a b) k \<noteq> None \<longleftrightarrow> map_of a k \<noteq> None \<or> map_of b k \<noteq> None"
  using assms by (auto simp: merge_results_def result_ok_def merge_conv' map_add_Some_iff)

text \<open>The whole recursion, from any state.\<close>

lemma resolveRecursive_ok:
  "resolveRecursive rv now targets st depth = Inr (result, st') \<Longrightarrow> targets_ok rv targets \<Longrightarrow>
     extends rv ([], [], st) (result, [], st') \<and> news_done rv st (result, [], st') \<and>
     (\<forall>t \<in> set targets. map_of result (RawURL t) \<noteq> None)"
proof (induction rv now targets st depth arbitrary: result st' rule: resolveRecursive.induct)
  case (1 rv now targets st depth)
  from "1.prems"(1) obtain result1 queue1 st1
    where d: "\<not> depth > maxTransitiveDepth"
      and lv: "resolve_level rv now (unique_refs targets) [] [] st = Inr (result1, queue1, st1)"
    by (subst (asm) resolveRecursive.simps) (auto split: if_splits sum.splits prod.splits)
  from resolve_level_ok [OF lv grouped_unique_refs [OF "1.prems"(2)]]
  have 1: "extends rv ([], [], st) (result1, queue1, st1)" "news_done rv st (result1, queue1, st1)"
    "\<forall>t \<in> set targets. covered result1 queue1 t"
    using unique_refs_covers [of _ targets] by fastforce+
  show ?case
  proof (cases "queue1 = []")
    case True
    with "1.prems"(1) d lv have "result = result1" "st' = st1"
      by (subst (asm) resolveRecursive.simps, simp)+
    with 1 True show ?thesis by (auto simp: covered_def)
  next
    case False
    with "1.prems"(1) d lv obtain transResult
      where rec: "resolveRecursive rv now queue1 st1 (depth + 1) = Inr (transResult, st')"
        and result: "result = merge_results result1 transResult"
      by (subst (asm) resolveRecursive.simps) (auto split: sum.splits prod.splits)
    have q: "targets_ok rv queue1" using 1(1) by (auto simp: extends_def targets_ok_def)
    from "1.IH" [OF d lv refl refl False rec q]
    have 2: "extends rv ([], [], st1) (transResult, [], st')" "news_done rv st1 (transResult, [], st')"
      "\<forall>t \<in> set queue1. map_of transResult (RawURL t) \<noteq> None" by auto
    have res1: "result_ok rv st' result1"
      using 1(1) 2(1) result_ok_mono [of rv st1 result1 st'] by (auto simp: extends_def result_ok_def)
    have res2: "result_ok rv st' transResult" using 2(1) by (auto simp: extends_def result_ok_def)
    note dom = merge_results_ok(2) [OF res1 res2, folded result]
    have cov: "covered result [] t" if "covered result1 queue1 t \<or> covered transResult [] t" for t
      using that 2(3) dom by (auto simp: covered_def)
    have step: "extends rv (result1, queue1, st1) (result, [], st')"
      using 2(1) cov merge_results_ok(1) [OF res1 res2, folded result] by (auto simp: extends_def targets_ok_def)
    have "news_done rv st1 (result, [], st')"
      using 2(2) cov by (auto simp: news_done_def done_load_def)
    with news_done_trans [OF 1(2) step] extends_trans [OF 1(1) step] 1(3) cov show ?thesis
      by (auto simp: covered_def)
  qed
qed

section \<open>How a single reference is resolved\<close>

text \<open>The two lookups in the cache, and what happens when both miss.\<close>

definition in_cache :: "int \<Rightarrow> string \<Rightarrow> OCILoadTarget \<Rightarrow> Cache \<Rightarrow> files option" where
  "in_cache now refStr target c =
     (case GetByTag now refStr c of
        (Some fs, True) \<Rightarrow> Some fs
      | _ \<Rightarrow> if Digest target \<noteq> [] then GetByDigest (Digest target) c else None)"

lemma resolveRef_hit:
  "in_cache now refStr target c = Some fs \<Longrightarrow> resolveRef rv now refStr target c = (Inr fs, c)"
  unfolding in_cache_def resolveRef_def by (auto split: prod.splits option.splits bool.splits if_splits)

lemma resolveRef_miss:
  assumes "in_cache now refStr target c = None"
  obtains (parse) b e where "ParseReference (rv_lib rv) refStr b = Inl e"
      "\<exists>e'. resolveRef rv now refStr target c = (Inl e', c)"
  | (ask) ref insecure where "ParseReference (rv_lib rv) refStr insecure = Inr ref"
      "\<exists>ref0. ParseReference (rv_lib rv) refStr False = Inr ref0 \<and> insecure = (nm_RegistryStr ref0 \<in> set (rv_insecureRegs rv))"
      "resolveRef rv now refStr target c = ask_registry rv now refStr (ref, insecure)
         (if insecure then MultiKeychain [] else rv_keychain rv) (fst (GetByTag now refStr c)) c"
proof -
  obtain st b0 where gt: "GetByTag now refStr c = (st, b0)" by fastforce
  from assms gt have no: "(if Digest target \<noteq> [] then GetByDigest (Digest target) c else None) = None"
    and b0: "st = None \<or> \<not> b0"
    unfolding in_cache_def by (auto split: option.splits bool.splits if_splits)
  have eq: "resolveRef rv now refStr target c =
     (case ParseReference (rv_lib rv) refStr False of
        Inl e \<Rightarrow> (Inl (''parsing OCI reference '' @ go_quote refStr @ '': '' @ e), c)
      | Inr ref \<Rightarrow>
          let insecure = (nm_RegistryStr ref \<in> set (rv_insecureRegs rv)) in
          (case (if insecure then ParseReference (rv_lib rv) refStr True else Inr ref) of
             Inl e \<Rightarrow> (Inl (''parsing insecure OCI reference '' @ go_quote refStr @ '': '' @ e), c)
           | Inr ref \<Rightarrow>
               let kc = (if insecure then MultiKeychain [] else rv_keychain rv) in
               ask_registry rv now refStr (ref, insecure) kc st c))"
  proof (cases st)
    case None
    show ?thesis unfolding resolveRef_def gt None no by (cases b0) (simp_all only: prod.case option.case)
  next
    case (Some fs)
    with b0 have b0': "b0 = False" by simp
    show ?thesis unfolding resolveRef_def gt Some b0' no by (simp only: prod.case option.case bool.case)
  qed
  show ?thesis
  proof (cases "ParseReference (rv_lib rv) refStr False")
    case (Inl e)
    with eq parse [of False] show ?thesis by simp
  next
    case r0: (Inr ref0)
    show ?thesis
    proof (cases "nm_RegistryStr ref0 \<in> set (rv_insecureRegs rv)")
      case True
      show ?thesis
      proof (cases "ParseReference (rv_lib rv) refStr True")
        case (Inl e)
        with eq r0 True parse [of True] show ?thesis by (simp add: Let_def)
      next
        case (Inr ref)
        with eq r0 True ask [of True ref] gt show ?thesis by (simp add: Let_def)
      qed
    next
      case False
      with eq r0 ask [of False ref0] gt show ?thesis by (simp add: Let_def)
    qed
  qed
qed

lemma fetch_ref_error: "fetch_ref rv now refStr ref kc stale c = (Inl e, c') \<Longrightarrow> c' = c"
  by (auto simp: fetch_ref_def store_image_def split: sum.splits option.splits)

lemma ask_registry_error:
  assumes "ask_registry rv now refStr ref kc stale c = (Inl e, c')" shows "c' = c"
proof (cases "head_ref rv now refStr ref kc stale c")
  case None
  with assms have "fetch_ref rv now refStr ref kc stale c = (Inl e, c')" by (simp add: ask_registry_def)
  then show ?thesis by (rule fetch_ref_error)
qed (use assms in \<open>auto simp: ask_registry_def\<close>)

lemma resolveRef_error:
  assumes "resolveRef rv now refStr target c = (Inl e, c')"
  shows "c' = c"
proof (cases "in_cache now refStr target c")
  case (Some fs)
  from resolveRef_hit [OF this, of rv] assms show ?thesis by simp
next
  case None
  then show ?thesis
  proof (cases rule: resolveRef_miss [where rv = rv])
    case (parse b e)
    with assms show ?thesis by auto
  next
    case (ask ref b)
    from ask(3) [unfolded assms, symmetric] show ?thesis by (rule ask_registry_error)
  qed
qed

lemma resolveRef_cases:
  assumes "resolveRef rv now refStr target c = (Inr fs, c')"
  obtains (fresh) "GetByTag now refStr c = (Some fs, True)" "c' = c"
    | (pinned) "Digest target \<noteq> []" "GetByDigest (Digest target) c = Some fs" "c' = c"
    | (head) b ref kc d where "ParseReference (rv_lib rv) refStr b = Inr ref" "Head (rv_fetcher rv) (ref, b) kc = Inr d"
        "GetByDigest d c = Some fs" "c' = PutTag now refStr d c"
    | (stale) b ref kc e where "ParseReference (rv_lib rv) refStr b = Inr ref" "Fetch (rv_fetcher rv) (ref, b) kc = Inl e"
        "fst (GetByTag now refStr c) = Some fs" "c' = c"
    | (fetched) b ref kc img d where "ParseReference (rv_lib rv) refStr b = Inr ref"
        "Fetch (rv_fetcher rv) (ref, b) kc = Inr img" "extractStarFiles (rv_codecs rv) img refStr = Inr fs"
        "im_Digest img = Inr d" "c' = PutTag now refStr d (PutContent d fs c)"
proof (cases "in_cache now refStr target c")
  case (Some fs')
  with resolveRef_hit [OF this, of rv] assms have hit: "in_cache now refStr target c = Some fs" "c' = c" by auto
  then show ?thesis using fresh pinned unfolding in_cache_def
    by (auto split: prod.splits option.splits bool.splits if_splits)
next
  case None
  then show ?thesis
  proof (cases rule: resolveRef_miss [where rv = rv])
    case (parse b e)
    with assms show ?thesis by simp
  next
    case (ask ref b)
    let ?kc = "if b then MultiKeychain [] else rv_keychain rv" and ?st = "fst (GetByTag now refStr c)"
    from ask(3) assms have r: "ask_registry rv now refStr (ref, b) ?kc ?st c = (Inr fs, c')" by simp
    show ?thesis
    proof (cases "head_ref rv now refStr (ref, b) ?kc ?st c")
      case (Some y)
      with r head [OF ask(1)] show ?thesis
        by (auto simp: ask_registry_def head_ref_def split: option.splits sum.splits)
    next
      case None
      with r have "fetch_ref rv now refStr (ref, b) ?kc ?st c = (Inr fs, c')" by (simp add: ask_registry_def)
      then show ?thesis using stale [OF ask(1)] fetched [OF ask(1)]
        by (auto simp: fetch_ref_def store_image_def split: option.splits sum.splits)
    qed
  qed
qed

text \<open>
  A registry over time: the digest that a tag points to at each moment, and the files of each digest. A
  resolver is honest at a moment when its fetcher answers for that moment.
\<close>

definition honest :: "(int \<Rightarrow> string \<Rightarrow> string) \<Rightarrow> (string \<Rightarrow> files option) \<Rightarrow> int \<Rightarrow> Resolver \<Rightarrow> bool" where
  "honest digest_at world now rv \<longleftrightarrow>
     (\<forall>refStr b ref kc. ParseReference (rv_lib rv) refStr b = Inr ref \<longrightarrow>
        (\<forall>d. Head (rv_fetcher rv) (ref, b) kc = Inr d \<longrightarrow> d = digest_at now refStr) \<and>
        (\<forall>img. Fetch (rv_fetcher rv) (ref, b) kc = Inr img \<longrightarrow>
           im_Digest img = Inr (digest_at now refStr) \<and>
           (\<forall>fs. extractStarFiles (rv_codecs rv) img refStr = Inr fs \<longrightarrow> world (digest_at now refStr) = Some fs)))"

text \<open>The caches that a sequence of resolutions at increasing times can lead to.\<close>

inductive cache_history ::
  "(int \<Rightarrow> string \<Rightarrow> string) \<Rightarrow> (string \<Rightarrow> files option) \<Rightarrow> string \<Rightarrow> int \<Rightarrow> int \<Rightarrow> Cache \<Rightarrow> bool"
  for digest_at world policy ttl where
  start: "cache_history digest_at world policy ttl now (NewCache policy ttl)"
| resolve: "cache_history digest_at world policy ttl t c \<Longrightarrow> t \<le> now \<Longrightarrow> honest digest_at world now rv \<Longrightarrow>
    resolveRef rv now refStr target c = (r, c') \<Longrightarrow> cache_history digest_at world policy ttl now c'"

definition cache_inv ::
  "(int \<Rightarrow> string \<Rightarrow> string) \<Rightarrow> (string \<Rightarrow> files option) \<Rightarrow> string \<Rightarrow> int \<Rightarrow> int \<Rightarrow> Cache \<Rightarrow> bool" where
  "cache_inv digest_at world policy ttl now c \<longleftrightarrow>
     ca_ttl c = ttl \<and> ca_policy c = policy \<and> cs.agrees world c \<and>
     (\<forall>ref te. ca_tags c ref = Some te \<longrightarrow>
        GetByDigest (te_digest te) c \<noteq> None \<and>
        (\<exists>t0. t0 \<le> now \<and> te_expires te = t0 + ttl \<and> te_digest te = digest_at t0 ref))"

lemma cache_inv_later: "cache_inv da w p ttl t c \<Longrightarrow> t \<le> now \<Longrightarrow> cache_inv da w p ttl now c"
  unfolding cache_inv_def by (meson order_trans)

lemma cache_inv_PutTag:
  assumes "cache_inv da w p ttl now c" and "GetByDigest d c \<noteq> None" and "d = da now ref"
  shows "cache_inv da w p ttl now (PutTag now ref d c)"
  using assms unfolding cache_inv_def by (auto simp: cs.agrees_def)

lemma cache_inv_PutContent:
  assumes "cache_inv da w p ttl now c" and "w d = Some fs"
  shows "cache_inv da w p ttl now (PutContent d fs c)"
proof -
  have keep: "GetByDigest x (PutContent d fs c) \<noteq> None" if "GetByDigest x c \<noteq> None" for x
    using that cs.insert_immutable [of x c] by auto
  then show ?thesis using assms cs.agrees_insert [of w c d fs] unfolding cache_inv_def by auto
qed

lemma resolveRef_inv:
  assumes "cache_inv da w p ttl now c" and "honest da w now rv" and "resolveRef rv now refStr target c = (r, c')"
  shows "cache_inv da w p ttl now c'"
proof (cases r)
  case (Inl e)
  with assms resolveRef_error show ?thesis by blast
next
  case (Inr fs)
  from assms(3) [unfolded Inr] show ?thesis
  proof (cases rule: resolveRef_cases)
    case (head b ref kc d)
    with assms(2) have "d = da now refStr" by (auto simp: honest_def)
    with head assms(1) show ?thesis by (simp add: cache_inv_PutTag)
  next
    case (fetched b ref kc img d)
    with assms(2) have d: "d = da now refStr" "w d = Some fs" unfolding honest_def by fastforce+
    have "cache_inv da w p ttl now (PutContent d fs c)" by (rule cache_inv_PutContent [OF assms(1) d(2)])
    moreover have "GetByDigest d (PutContent d fs c) \<noteq> None" using cs.lookup_inserted [of d fs c] by auto
    ultimately show ?thesis using fetched(5) d(1) by (simp add: cache_inv_PutTag)
  qed (use assms(1) in simp_all)
qed

lemma cache_history_inv:
  "cache_history da w policy ttl now c \<Longrightarrow> cache_inv da w (ca_policy (NewCache policy ttl)) ttl now c"
proof (induction rule: cache_history.induct)
  case (start now)
  show ?case by (simp add: cache_inv_def NewCache_def cs.agrees_def GetByDigest_def)
next
  case (resolve t c now rv refStr target r c')
  then show ?case using resolveRef_inv cache_inv_later by blast
qed

section \<open>Properties\<close>

lemma resolved_closed:
  assumes "Resolve rv now targets cache = Inr (result, st)"
    and "\<And>t. t \<in> set targets \<Longrightarrow> ParseOCILoadTarget (rv_lib rv) (RawURL t) = Inr t"
  shows "\<forall>t \<in> set targets. map_of result (RawURL t) \<noteq> None"
    and "\<forall>url src. map_of result url = Some src \<longrightarrow>
      (\<exists>t fs. ParseOCILoadTarget (rv_lib rv) url = Inr t \<and> map_of (rs_loaded st) (RefStr t) = Some fs \<and>
         map_of fs (File t) = Some src \<and>
         (\<forall>ts u. scan_file rv (RefStr t) src = Inr ts \<longrightarrow> u \<in> set ts \<longrightarrow> map_of result (RawURL u) \<noteq> None))"
proof -
  let ?st = "\<lparr>rs_loaded = [], rs_edges = [], rs_cache = cache\<rparr>"
  have "targets_ok rv targets" using assms(2) by (simp add: targets_ok_def)
  from resolveRecursive_ok [OF assms(1) [unfolded Resolve_def] this]
  have ext: "extends rv ([], [], ?st) (result, [], st)" and news: "news_done rv ?st (result, [], st)"
    and req: "\<forall>t \<in> set targets. map_of result (RawURL t) \<noteq> None" by auto
  show "\<forall>t \<in> set targets. map_of result (RawURL t) \<noteq> None" by (rule req)
  have ok: "result_ok rv st result" using ext by (simp add: extends_def result_ok_def)
  show "\<forall>url src. map_of result url = Some src \<longrightarrow>
      (\<exists>t fs. ParseOCILoadTarget (rv_lib rv) url = Inr t \<and> map_of (rs_loaded st) (RefStr t) = Some fs \<and>
         map_of fs (File t) = Some src \<and>
         (\<forall>ts u. scan_file rv (RefStr t) src = Inr ts \<longrightarrow> u \<in> set ts \<longrightarrow> map_of result (RawURL u) \<noteq> None))"
  proof (intro allI impI)
    fix url src assume "map_of result url = Some src"
    with ok obtain t fs where t: "ParseOCILoadTarget (rv_lib rv) url = Inr t"
      "map_of (rs_loaded st) (RefStr t) = Some fs" "map_of fs (File t) = Some src"
      unfolding result_ok_def entry_ok_def by blast
    have "map_of result (RawURL u) \<noteq> None" if "scan_file rv (RefStr t) src = Inr ts" "u \<in> set ts" for ts u
    proof -
      have "u \<in> loads_of rv (RefStr t) fs"
        using that map_of_SomeD [OF t(3)] unfolding loads_of_def by blast
      with news t(2) have "done_load (result, [], st) (RefStr t) u" by (auto simp: news_done_def)
      then show ?thesis by (simp add: done_load_def covered_def)
    qed
    with t show "\<exists>t fs. ParseOCILoadTarget (rv_lib rv) url = Inr t \<and> map_of (rs_loaded st) (RefStr t) = Some fs \<and>
         map_of fs (File t) = Some src \<and>
         (\<forall>ts u. scan_file rv (RefStr t) src = Inr ts \<longrightarrow> u \<in> set ts \<longrightarrow> map_of result (RawURL u) \<noteq> None)" by blast
  qed
qed

lemma resolved_acyclic:
  assumes "Resolve rv now targets cache = Inr (result, st)"
    and "\<And>t. t \<in> set targets \<Longrightarrow> ParseOCILoadTarget (rv_lib rv) (RawURL t) = Inr t"
  shows "acyclic {(r, RefStr t) | r t fs. map_of (rs_loaded st) r = Some fs \<and> t \<in> loads_of rv r fs \<and> RefStr t \<noteq> r}"
    (is "acyclic ?D")
proof -
  let ?st = "\<lparr>rs_loaded = [], rs_edges = [], rs_cache = cache\<rparr>"
  have "targets_ok rv targets" using assms(2) by (simp add: targets_ok_def)
  from resolveRecursive_ok [OF assms(1) [unfolded Resolve_def] this]
  have ext: "extends rv ([], [], ?st) (result, [], st)" and news: "news_done rv ?st (result, [], st)" by auto
  have "edges_of (succs (rs_edges ?st)) = {}" by (auto simp: edges_of_def succs_def)
  then have "acyclic (edges_of (succs (rs_edges st)))" using ext by (simp add: extends_def acyclic_def del: edges_of_iff)
  moreover have "?D \<subseteq> edges_of (succs (rs_edges st))"
    using news by (auto simp: news_done_def done_load_def simp del: edges_of_iff)
  ultimately show ?thesis by (rule acyclic_subset)
qed

text \<open>
  C6. A successful resolution is closed under loading: every requested module is in the result; every
  module in the result is the named file of the named artifact; and every OCI module that such a file
  loads, directly, through the default registry or package-locally, is in the result as well, unless
  the file cannot be scanned.
\<close>

theorem resolved_modules_closed:
  assumes "Resolve rv now targets cache = Inr (result, st)"
    and "\<forall>t \<in> set targets. ParseOCILoadTarget (rv_lib rv) (RawURL t) = Inr t"
  shows "(\<forall>t \<in> set targets. map_of result (RawURL t) \<noteq> None) \<and>
    (\<forall>url src. map_of result url = Some src \<longrightarrow>
      (\<exists>t fs. ParseOCILoadTarget (rv_lib rv) url = Inr t \<and> map_of (rs_loaded st) (RefStr t) = Some fs \<and>
         map_of fs (File t) = Some src \<and>
         (\<forall>ts u. scan_file rv (RefStr t) src = Inr ts \<longrightarrow> u \<in> set ts \<longrightarrow> map_of result (RawURL u) \<noteq> None)))"
  using resolved_closed [OF assms(1)] assms(2) by blast

text \<open>
  C12. Whenever a resolution succeeds, the artifacts it loaded have no circular dependencies: the relation
  that links an artifact to every other artifact one of its files loads from is acyclic.
\<close>

theorem resolved_artifacts_acyclic:
  assumes "Resolve rv now targets cache = Inr (result, st)"
    and "\<forall>t \<in> set targets. ParseOCILoadTarget (rv_lib rv) (RawURL t) = Inr t"
  shows "acyclic {(r, RefStr u) | r u fs f src ts. map_of (rs_loaded st) r = Some fs \<and> (f, src) \<in> set fs \<and>
     scan_file rv r src = Inr ts \<and> u \<in> set ts \<and> RefStr u \<noteq> r}"
proof -
  have "acyclic {(r, RefStr t) | r t fs. map_of (rs_loaded st) r = Some fs \<and> t \<in> loads_of rv r fs \<and> RefStr t \<noteq> r}"
    using resolved_acyclic [OF assms(1)] assms(2) by blast
  then show ?thesis by (rule acyclic_subset) (unfold loads_of_def, blast)
qed


text \<open>
  C33. No credentials go to a registry that is contacted over plain HTTP: for a reference of an insecure registry
  the outcome depends neither on the keychain nor on how the registry answers requests that carry one.
\<close>

theorem insecure_without_credentials:
  assumes "ParseReference (rv_lib rv) refStr False = Inr ref0" and "nm_RegistryStr ref0 \<in> set (rv_insecureRegs rv)"
    and "\<forall>ref. Fetch f ref (MultiKeychain []) = Fetch (rv_fetcher rv) ref (MultiKeychain []) \<and>
       Head f ref (MultiKeychain []) = Head (rv_fetcher rv) ref (MultiKeychain [])"
  shows "resolveRef (rv\<lparr>rv_fetcher := f, rv_keychain := kc\<rparr>) now refStr target c = resolveRef rv now refStr target c"
proof -
  let ?rv = "rv\<lparr>rv_fetcher := f, rv_keychain := kc\<rparr>"
  have F: "Fetch (rv_fetcher ?rv) ref (MultiKeychain []) = Fetch (rv_fetcher rv) ref (MultiKeychain [])"
    and H: "Head (rv_fetcher ?rv) ref (MultiKeychain []) = Head (rv_fetcher rv) ref (MultiKeychain [])" for ref
    using assms(3) by (cases ref, simp)+
  have fields: "rv_lib ?rv = rv_lib rv" "rv_codecs ?rv = rv_codecs rv" "rv_insecureRegs ?rv = rv_insecureRegs rv" by simp_all
  have ask: "ask_registry ?rv now refStr ref (MultiKeychain []) st c = ask_registry rv now refStr ref (MultiKeychain []) st c" for ref st
    unfolding ask_registry_def head_ref_def fetch_ref_def store_image_def F H fields ..
  have insecure: "(nm_RegistryStr ref0 \<in> set (rv_insecureRegs rv)) = True" using assms(2) by simp
  show ?thesis unfolding resolveRef_def fields assms(1) sum.case Let_def insecure if_True ask ..
qed

text \<open>A registry with one artifact of two modules, the first of which loads the second package-locally.\<close>

definition ex_layer :: "string \<Rightarrow> layer" where
  "ex_layer src = \<lparr>ly_MediaType = Inr ''text/plain'', ly_Uncompressed = Inr \<lparr>rd_data = src, rd_err = None\<rparr>\<rparr>"

definition ex_image :: image where
  "ex_image = \<lparr>im_Manifest = Inr \<lparr>mf_ConfigMediaType = ArtifactMediaType,
       mf_Layers = [[(''org.opencontainers.image.title'', ''a.star'')], [(''org.opencontainers.image.title'', ''b.star'')]]\<rparr>,
     im_RawManifest = Inl ''none'', im_Layers = Inr [ex_layer ''A'', ex_layer ''B''], im_Digest = Inr ''sha256:00''\<rparr>"

definition ex_resolver :: Resolver where
  "ex_resolver = \<lparr>rv_lib = ex_name_pkg,
     rv_parse = (\<lambda>_ src. Inr (if src = ''A'' then [ScanLoad ''./b.star''] else [ScanOther])),
     rv_codecs = \<lparr>json_artifactType = (\<lambda>_. None), tar_steps = (\<lambda>_. [])\<rparr>, rv_keychain = DefaultKeychain,
     rv_fetcher = \<lparr>Fetch = (\<lambda>_ _. Inr ex_image), Head = (\<lambda>_ _. Inr ''sha256:00'')\<rparr>,
     rv_defaultRegistry = [], rv_insecureRegs = [''ghcr.io'']\<rparr>"

definition ex_files :: files where
  "ex_files = [(''a.star'', ''A''), (''b.star'', ''B'')]"

lemma ex_names:
  "Clean ''a.star'' = ''a.star''" "Clean ''b.star'' = ''b.star''"
  "has_suffix (path_Base ''a.star'') ''.star''" "has_suffix (path_Base ''b.star'') ''.star''"
  "\<not> contains ''a.star'' ''..''" "\<not> contains ''b.star'' ''..''"
  by code_simp+

lemma ex_extract: "extractStarFiles (rv_codecs ex_resolver) ex_image refStr = Inr ex_files"
  by (simp add: extractStarFiles_def ex_image_def ex_resolver_def artifact_type_def Let_def ex_layer_def isTarLayer_def
      layerDescriptor_def ex_names readAllLimit_def maxFileSize_def maxFileCount_def ex_files_def del: contains_Cons)

lemma ex_fetch:
  "Fetch (rv_fetcher ex_resolver) ref kc = Inr ex_image" "im_Digest ex_image = Inr ''sha256:00''"
  by (simp_all add: ex_resolver_def ex_image_def)

lemma ex_resolveRef:
  "Digest target = [] \<Longrightarrow> resolveRef ex_resolver now refStr target (NewCache policy ttl) =
     (Inr ex_files, PutTag now refStr ''sha256:00'' (PutContent ''sha256:00'' ex_files (NewCache policy ttl)))"
proof -
  have miss: "GetByTag now refStr (NewCache policy ttl) = (None, False)" by (simp add: GetByTag_def NewCache_def)
  have ask: "ask_registry ex_resolver now refStr ref kc None c = (Inr ex_files, PutTag now refStr ''sha256:00'' (PutContent ''sha256:00'' ex_files c))"
    for ref kc c
    by (simp add: ask_registry_def head_ref_def fetch_ref_def store_image_def ex_extract ex_fetch)
  assume d: "Digest target = []"
  show ?thesis unfolding resolveRef_def miss prod.case d ask
    by (simp add: ex_resolver_def ex_name_pkg_def Let_def)
qed

lemma ex_scan:
  "scan_file ex_resolver ''ghcr.io/org/mod:v1'' ''A'' = Inr [ex_target ''b.star'']"
  "scan_file ex_resolver ''ghcr.io/org/mod:v1'' ''B'' = Inr []"
  by code_simp+

lemma ex_Resolve:
  "\<exists>result st. Resolve ex_resolver now [ex_target ''a.star''] (NewCache policy ttl) = Inr (result, st)"
proof -
  have t: "RefStr (ex_target f) = ''ghcr.io/org/mod:v1''" "File (ex_target f) = f" "Digest (ex_target f) = []" for f
    by (simp_all add: ex_target_def)
  have u: "unique_refs [ex_target ''a.star''] = [(''ghcr.io/org/mod:v1'', [ex_target ''a.star''])]"
    by (simp add: unique_refs_def t)
  show ?thesis
    unfolding Resolve_def by (subst resolveRecursive.simps) (simp add: u t ex_resolveRef ex_scan ex_files_def maxTransitiveDepth_def Let_def)
qed

theorem resolved_modules_closed_witness:
  "\<exists>result st. Resolve ex_resolver 0 [ex_target ''a.star''] (NewCache PullAlways 10) = Inr (result, st) \<and>
     map_of result (RawURL (ex_target ''a.star'')) \<noteq> None"
proof -
  obtain result st where r: "Resolve ex_resolver 0 [ex_target ''a.star''] (NewCache PullAlways 10) = Inr (result, st)"
    using ex_Resolve by blast
  have "\<forall>t \<in> set [ex_target ''a.star'']. ParseOCILoadTarget (rv_lib ex_resolver) (RawURL t) = Inr t"
    using ex_target by (simp add: ex_resolver_def ex_target_def)
  from resolved_modules_closed [OF r this] r show ?thesis by auto
qed

theorem resolved_artifacts_acyclic_witness:
  "\<exists>result st. Resolve ex_resolver 0 [ex_target ''a.star''] (NewCache PullAlways 10) = Inr (result, st) \<and>
     acyclic {(r, RefStr u) | r u fs f src ts. map_of (rs_loaded st) r = Some fs \<and> (f, src) \<in> set fs \<and>
       scan_file ex_resolver r src = Inr ts \<and> u \<in> set ts \<and> RefStr u \<noteq> r}"
proof -
  obtain result st where r: "Resolve ex_resolver 0 [ex_target ''a.star''] (NewCache PullAlways 10) = Inr (result, st)"
    using ex_Resolve by blast
  have "\<forall>t \<in> set [ex_target ''a.star'']. ParseOCILoadTarget (rv_lib ex_resolver) (RawURL t) = Inr t"
    using ex_target by (simp add: ex_resolver_def ex_target_def)
  from resolved_artifacts_acyclic [OF r this] r show ?thesis by blast
qed


theorem insecure_without_credentials_witness:
  "resolveRef (ex_resolver\<lparr>rv_fetcher := rv_fetcher ex_resolver, rv_keychain := CredentialKeychain ''secret''\<rparr>) 0
     ''ghcr.io/org/mod:v1'' (ex_target ''a.star'') (NewCache PullAlways 0) =
   resolveRef ex_resolver 0 ''ghcr.io/org/mod:v1'' (ex_target ''a.star'') (NewCache PullAlways 0)"
proof (rule insecure_without_credentials)
  show "ParseReference (rv_lib ex_resolver) ''ghcr.io/org/mod:v1'' False = Inr (ex_name ''ghcr.io/org/mod:v1'')"
    by (simp add: ex_resolver_def ex_name_pkg_def)
  show "nm_RegistryStr (ex_name ''ghcr.io/org/mod:v1'') \<in> set (rv_insecureRegs ex_resolver)"
    by (simp add: ex_resolver_def ex_name_def)
qed simp

end
