(* ===== verification/Frontend.thy ===== *)
theory Frontend
  imports Pipeline Loader OciResolver
begin

text \<open>
  \<^verbatim>\<open>RunFunction\<close> of \<^verbatim>\<open>fn.go\<close> before the script: how the script is found, which registry, credentials and insecure
  registries are used, the scan for OCI modules and their resolution, and what the module loader is set up
  with. The environment variables, the file system and the credentials of the request are parameters.
\<close>

section \<open>Parameters\<close>

record function_env =
  fe_scriptDir :: string
  fe_getenv :: "string \<Rightarrow> string"
  fe_readFile :: "string \<Rightarrow> file_result"
  fe_statOk :: "string \<Rightarrow> bool"
  fe_credentials :: "string \<Rightarrow> (string \<times> string) list option"

section \<open>The script\<close>

definition script_dir :: "function_env \<Rightarrow> string" where
  "script_dir fe = (if fe_scriptDir fe = [] then ''/scripts'' else fe_scriptDir fe)"

definition script_key :: "ScriptConfigRef \<Rightarrow> string" where
  "script_key ref = (if ref_Key ref = [] then ''main.star'' else ref_Key ref)"

definition script_path :: "function_env \<Rightarrow> ScriptConfigRef \<Rightarrow> string" where
  "script_path fe ref = path_Join [script_dir fe, ref_Name ref, script_key ref]"

definition loadScript :: "function_env \<Rightarrow> ScriptConfigRef \<Rightarrow> string + string" where
  "loadScript fe ref =
     (let key = script_key ref in
      if \<not> IsLocal (ref_Name ref) then
        Inl (''script ConfigMap name '' @ go_quote (ref_Name ref) @ '' contains path traversal'')
      else if \<not> IsLocal key then Inl (''script key '' @ go_quote key @ '' contains path traversal'')
      else let path = script_path fe ref in
        (case fe_readFile fe path of
           FileData d \<Rightarrow> Inr d
         | FileNotExist _ \<Rightarrow>
             Inl (''script file '' @ go_quote path @ '' not found; ensure the ConfigMap '' @ go_quote (ref_Name ref) @
               '' is mounted via DeploymentRuntimeConfig'')
         | FileError e \<Rightarrow> Inl (''reading script file '' @ go_quote path @ '': '' @ e)))"

text \<open>The source and the file name of the script, or the fatal error.\<close>

definition find_script :: "function_env \<Rightarrow> StarlarkInputSpec \<Rightarrow> string + string \<times> string" where
  "find_script fe spec =
     (if in_Source spec \<noteq> [] then Inr (in_Source spec, ''composition.star'')
      else (case in_ScriptConfigRef spec of
          None \<Rightarrow> Inl ''spec.source or spec.scriptConfigRef is required''
        | Some ref \<Rightarrow>
            bind_res (wrap_msg ''loading script from ConfigMap'' (loadScript fe ref)) (\<lambda>src.
              Inr (src, script_path fe ref))))"

section \<open>Registries and credentials\<close>

definition default_registry :: "function_env \<Rightarrow> StarlarkInputSpec \<Rightarrow> string" where
  "default_registry fe spec =
     (if in_OCIDefaultRegistry spec \<noteq> [] then NormalizeRegistry (in_OCIDefaultRegistry spec)
      else let envReg = fe_getenv fe ''STARLARK_OCI_DEFAULT_REGISTRY'' in
        if envReg \<noteq> [] then NormalizeRegistry envReg else [])"

definition insecure_registries :: "function_env \<Rightarrow> StarlarkInputSpec \<Rightarrow> string list" where
  "insecure_registries fe spec =
     (if in_OCIInsecureRegistries spec \<noteq> [] then in_OCIInsecureRegistries spec
      else let envInsecure = fe_getenv fe ''STARLARK_OCI_INSECURE_REGISTRIES'' in
        if envInsecure \<noteq> [] then filter (\<lambda>r. r \<noteq> []) (map trim_space (split_on (CHR '','') envInsecure)) else [])"

definition docker_config_secret :: "function_env \<Rightarrow> StarlarkInputSpec \<Rightarrow> string" where
  "docker_config_secret fe spec =
     (if in_DockerConfigSecret spec = [] then fe_getenv fe ''STARLARK_DOCKER_CONFIG_SECRET'' else in_DockerConfigSecret spec)"

definition buildKeychain :: "function_env \<Rightarrow> string \<Rightarrow> keychain" where
  "buildKeychain fe secret =
     (if secret = [] \<or> \<not> IsLocal secret then DefaultKeychain
      else let configDir = path_Join [''/var/run/secrets/docker'', secret] in
        if \<not> fe_statOk fe configDir then DefaultKeychain
        else MultiKeychain [ConfigDirKeychain configDir, DefaultKeychain])"

definition buildKeychainFromCredential :: "(string \<times> string) list \<Rightarrow> keychain option" where
  "buildKeychainFromCredential dat =
     (case map_of dat ''config.json'' of
        Some j \<Rightarrow> Some (CredentialKeychain j)
      | None \<Rightarrow> map_option CredentialKeychain (map_of dat ''.dockerconfigjson''))"

definition registry_keychain :: "function_env \<Rightarrow> StarlarkInputSpec \<Rightarrow> keychain" where
  "registry_keychain fe spec =
     (let cred = in_DockerConfigCredential spec;
          fromCred = (if cred = [] then None
            else (case fe_credentials fe cred of None \<Rightarrow> None | Some dat \<Rightarrow> buildKeychainFromCredential dat));
          fsKC = buildKeychain fe (docker_config_secret fe spec)
      in MultiKeychain
           ((case fromCred of None \<Rightarrow> [] | Some kc \<Rightarrow> [kc]) @ (if fsKC \<noteq> DefaultKeychain then [fsKC] else []) @
            [DefaultKeychain]))"

text \<open>
  \<^verbatim>\<open>Resolve\<close> of the two keychains: the Docker configuration (of the directory, or from the credential) is a parameter,
  given as its lookup of a registry key; an entry without its server address is empty or not.
\<close>

record AuthConfig =
  au_Username :: string
  au_Password :: string
  au_Auth :: string
  au_IdentityToken :: string
  au_RegistryToken :: string

definition empty_auth :: AuthConfig where
  "empty_auth = \<lparr>au_Username = [], au_Password = [], au_Auth = [], au_IdentityToken = [], au_RegistryToken = []\<rparr>"

datatype authenticator = Anonymous | FromConfig AuthConfig

definition keychain_Resolve :: "string + (string \<Rightarrow> string + AuthConfig) \<Rightarrow> string \<Rightarrow> string \<Rightarrow> authenticator" where
  "keychain_Resolve config target registry =
     (case config of
        Inl _ \<Rightarrow> Anonymous
      | Inr GetAuthConfig \<Rightarrow>
          (case GetAuthConfig target of
             Inl _ \<Rightarrow> Anonymous
           | Inr cfg \<Rightarrow>
               if cfg \<noteq> empty_auth then FromConfig cfg
               else (case GetAuthConfig registry of
                   Inl _ \<Rightarrow> Anonymous
                 | Inr cfg \<Rightarrow> if cfg = empty_auth then Anonymous else FromConfig cfg)))"

text \<open>The two keychains: the configuration is loaded from a directory, or read from the credential.\<close>

definition configDirKeychain_Resolve ::
  "(string \<Rightarrow> string + (string \<Rightarrow> string + AuthConfig)) \<Rightarrow> string \<Rightarrow> string \<Rightarrow> string \<Rightarrow> authenticator" where
  "configDirKeychain_Resolve load_config dir target registry = keychain_Resolve (load_config dir) target registry"

definition credentialKeychain_Resolve ::
  "(string \<Rightarrow> string + (string \<Rightarrow> string + AuthConfig)) \<Rightarrow> string \<Rightarrow> string \<Rightarrow> string \<Rightarrow> authenticator" where
  "credentialKeychain_Resolve read_config dat target registry = keychain_Resolve (read_config dat) target registry"

section \<open>Modules\<close>

text \<open>
  The libraries of the resolver, without the parts that \<^verbatim>\<open>RunFunction\<close> computes.
\<close>

definition resolver_for :: "Resolver \<Rightarrow> function_env \<Rightarrow> StarlarkInputSpec \<Rightarrow> Resolver" where
  "resolver_for rv fe spec =
     rv\<lparr>rv_keychain := registry_keychain fe spec, rv_defaultRegistry := default_registry fe spec,
        rv_insecureRegs := insecure_registries fe spec\<rparr>"

text \<open>
  The OCI phase: the modules for the loader and the new cache, or the fatal error. An error of the scan is fatal
  only when it is about the default registry.
\<close>

datatype setup_error = SetupErr string | SetupOCI oci_error

definition oci_targets :: "Resolver \<Rightarrow> StarlarkInputSpec \<Rightarrow> string \<Rightarrow> setup_error + OCILoadTarget list" where
  "oci_targets rv spec source =
     (case ScanForOCILoads (rv_lib rv) (rv_parse rv) source (in_Modules spec) (rv_defaultRegistry rv) [] of
        Inr targets \<Rightarrow> Inr targets
      | Inl e \<Rightarrow>
          if contains e ''requires a default OCI registry''
          then Inl (SetupErr (''scanning for OCI load targets: '' @ e)) else Inr [])"

definition module_setup ::
  "Resolver \<Rightarrow> function_env \<Rightarrow> int \<Rightarrow> StarlarkInputSpec \<Rightarrow> string \<Rightarrow> Cache \<Rightarrow> (setup_error \<times> Cache) + (string \<times> string) list \<times> Cache"
where
  "module_setup rv fe now spec source cache =
     (let rv = resolver_for rv fe spec; reg = rv_defaultRegistry rv in
      case (if reg \<noteq> [] then ValidateRegistry (rv_lib rv) reg else Inr ()) of
        Inl e \<Rightarrow> Inl (SetupErr (''validating default OCI registry: '' @ e), cache)
      | Inr _ \<Rightarrow>
          (case oci_targets rv spec source of
             Inl e \<Rightarrow> Inl (e, cache)
           | Inr [] \<Rightarrow> Inr (in_Modules spec, cache)
           | Inr targets \<Rightarrow>
               (case Resolve rv now targets cache of
                  Inl (e, cache) \<Rightarrow> Inl (SetupOCI e, cache)
                | Inr (result, st) \<Rightarrow> Inr (AList.merge (in_Modules spec) result, rs_cache st))))"

definition search_dirs :: "function_env \<Rightarrow> StarlarkInputSpec \<Rightarrow> string list" where
  "search_dirs fe spec =
     (case in_ScriptConfigRef spec of
        None \<Rightarrow> []
      | Some ref \<Rightarrow> (let d = path_Join [script_dir fe, ref_Name ref] in if d = [] then [] else [d])) @ in_ModulePaths spec"

text \<open>The loader for the script: \<open>ml\<close> carries the libraries and the predeclared names.\<close>

definition loader_for ::
  "'w ModuleLoader \<Rightarrow> function_env \<Rightarrow> StarlarkInputSpec \<Rightarrow> (string \<times> string) list \<Rightarrow> 'w ModuleLoader" where
  "loader_for ml fe spec modules =
     ml\<lparr>ml_inlineModules := modules, ml_searchPaths := search_dirs fe spec, ml_fs := fe_readFile fe,
        ml_defaultRegistry := default_registry fe spec\<rparr>"

section \<open>Properties\<close>

lemma path_segs_below:
  assumes "IsLocal rel" and "dir \<noteq> []"
  shows "path_segs (dir @ CHR ''/'' # rel) = path_segs dir @ path_segs rel"
  using Join_IsLocal(1) [OF assms] IsLocal_segs [OF assms(1)] assms(2) by (simp add: path_Join_def)

text \<open>
  A script that is loaded from a ConfigMap comes from below the script directory: the file that is read is that
  directory followed by the segments of the name and of the key, none of which is \<^verbatim>\<open>..\<close>.
\<close>

theorem script_confined:
  assumes "loadScript fe ref = Inr src"
  shows "fe_readFile fe (script_path fe ref) = FileData src \<and>
     path_segs (script_path fe ref) = path_segs (script_dir fe) @ path_segs (ref_Name ref) @ path_segs (script_key ref) \<and>
     ''..'' \<notin> set (path_segs (ref_Name ref)) \<and> ''..'' \<notin> set (path_segs (script_key ref))"
proof -
  from assms have loc: "IsLocal (ref_Name ref)" "IsLocal (script_key ref)"
    and rd: "fe_readFile fe (script_path fe ref) = FileData src"
    unfolding loadScript_def Let_def by (auto split: if_splits file_result.splits)
  have ne: "script_dir fe \<noteq> []" "ref_Name ref \<noteq> []" "script_key ref \<noteq> []"
    using IsLocal_segs [OF loc(1)] IsLocal_segs [OF loc(2)] by (auto simp: script_dir_def)
  then have "script_path fe ref = Clean ((script_dir fe @ CHR ''/'' # ref_Name ref) @ CHR ''/'' # script_key ref)"
    by (simp add: script_path_def path_Join_def)
  then have "path_segs (script_path fe ref) = path_segs (script_dir fe) @ path_segs (ref_Name ref) @ path_segs (script_key ref)"
    using path_segs_below [OF loc(2), of "script_dir fe @ CHR ''/'' # ref_Name ref"] path_segs_below [OF loc(1) ne(1)] by simp
  then show ?thesis using rd IsLocal_segs [OF loc(1)] IsLocal_segs [OF loc(2)] by simp
qed

definition ex_env :: function_env where
  "ex_env = \<lparr>fe_scriptDir = [], fe_getenv = (\<lambda>_. []),
     fe_readFile = (\<lambda>p. if p = ''/scripts/app/main.star'' then FileData ''M'' else FileNotExist ''none''),
     fe_statOk = (\<lambda>_. False), fe_credentials = (\<lambda>_. None)\<rparr>"


definition ex_oci_spec :: StarlarkInputSpec where
  "ex_oci_spec = \<lparr>in_Source = [], in_ScriptConfigRef = Some \<lparr>ref_Name = ''app'', ref_Key = []\<rparr>, in_UsageAPIVersion = [],
     in_Modules = [], in_ModulePaths = [], in_DockerConfigSecret = [], in_DockerConfigCredential = [],
     in_OCIDefaultRegistry = [], in_OCIInsecureRegistries = [], in_SequencingTTL = []\<rparr>"

section \<open>Modules at run time\<close>

lemma trim_scan_suffix: "has_suffix s ''.star'' \<Longrightarrow> trim_suffix s starImportScanSuffix = s"
proof -
  assume "has_suffix s ''.star''"
  then obtain u where "s = u @ ''.star''" by (auto simp: has_suffix_iff)
  then have "last s = CHR ''r''" by simp
  moreover have "\<not> has_suffix s starImportScanSuffix" if "last s = CHR ''r''"
    using that by (auto simp: has_suffix_iff starImportScanSuffix_def)
  ultimately show ?thesis by (simp add: trim_suffix_def)
qed

lemma oci_url_suffix: "has_suffix f ''.star'' \<Longrightarrow> has_suffix (p @ r @ CHR ''/'' # f) ''.star''"
  unfolding has_suffix_iff by (metis append_Cons append_assoc)

lemma ParseOCILoadTarget_prefix: "ParseOCILoadTarget lib x = Inr u \<Longrightarrow> has_prefix x ''oci://'' \<and> RawURL u = x"
  unfolding ParseOCILoadTarget_def Let_def by (auto simp: bind_res_eq_Inr split: if_splits)

lemma ParseOCILoadTarget_url:
  assumes "ParseOCILoadTarget lib raw = Inr t" and "string_original lib"
  shows "raw = ''oci://'' @ RefStr t @ CHR ''/'' # File t \<and> has_suffix raw ''.star''"
  using assms
proof (cases rule: ParseOCILoadTarget_cases)
  case (digest ref)
  from oci_url_suffix [OF digest(5)] show ?thesis by (subst (1 2) digest(4)) blast
next
  case (tag ref)
  from oci_url_suffix [OF tag(5)] show ?thesis by (subst (1 2) tag(4)) blast
qed

text \<open>The scanner and the loader mean the same module.\<close>

lemma dispatch_scan_target:
  assumes lib: "string_original (ml_lib ml)" and t: "ParseOCILoadTarget (ml_lib ml) url = Inr t"
    and scan: "scan_target (ml_lib ml) fn (ml_defaultRegistry ml) (RefStr t) md = Inr (Some u)"
    and form: "IsPackageLocalTarget md \<or> \<not> has_prefix md ''./'' \<and> \<not> has_prefix md ''../''"
    and there: "map_of (ml_inlineModules ml) (RawURL u) = Some src"
  shows "dispatch ml url md = Inr (ByKey (RawURL u))"
proof -
  note url = ParseOCILoadTarget_url [OF t lib] ParseOCILoadTarget_prefix [OF t]
  have key: "check_key ml x = Inr (ByKey (RawURL u))" if "ParseOCILoadTarget (ml_lib ml) x = Inr u" for x
    using ParseOCILoadTarget_prefix [OF that] there by (simp add: check_key_def)
  show ?thesis
  proof (cases "IsPackageLocalTarget md")
    case True
    with scan obtain x where x: "ExpandPackageLocal (ml_lib ml) md (RefStr t) = Inr x" "ParseOCILoadTarget (ml_lib ml) x = Inr u"
      unfolding scan_target_def by (auto simp: bind_res_eq_Inr split: sum.splits if_splits)
    have md: "has_prefix md ''./''" "\<not> has_prefix md ''../''"
      using package_local_inner(5) [OF True] by (auto simp: has_prefix_iff)
    have "oci_relative ml url md = Inr x" using True t x(1) by (simp add: oci_relative_def)
    moreover have "trim_suffix url starImportScanSuffix = url" "has_prefix url ''oci://''"
      using url trim_scan_suffix by blast+
    ultimately show ?thesis using md key [OF x(2)] by (simp add: dispatch_def Let_def isFilesystemCaller_def)
  next
    case False
    with form have md: "\<not> has_prefix md ''./''" "\<not> has_prefix md ''../''" by auto
    show ?thesis
    proof (cases "IsDefaultRegistryTarget md")
      case True
      with False scan obtain x where x: "ExpandDefaultRegistry md (ml_defaultRegistry ml) = Inr x" "ParseOCILoadTarget (ml_lib ml) x = Inr u"
        unfolding scan_target_def by (auto simp: bind_res_eq_Inr split: sum.splits if_splits)
      with md True key [OF x(2)] show ?thesis by (simp add: dispatch_def)
    next
      case nodef: False
      with False scan have "ParseOCILoadTarget (ml_lib ml) md = Inr u"
        unfolding scan_target_def by (auto simp: bind_res_eq_Inr split: if_splits)
      with md nodef key show ?thesis by (simp add: dispatch_def)
    qed
  qed
qed

lemma scan_file_covers:
  assumes "string_original (rv_lib rv)" and "scan_file rv ref src = Inr ts"
    and "rv_parse rv ''composition.star'' src = Inr stmts" and "ScanLoad md \<in> set stmts"
    and "scan_target (rv_lib rv) ''composition.star'' (rv_defaultRegistry rv) ref md = Inr (Some u)"
  shows "\<exists>v \<in> set ts. RawURL v = RawURL u"
proof -
  from assms(2,3) obtain found
    where f: "scan_stmts (rv_lib rv) ''composition.star'' (rv_defaultRegistry rv) ref stmts = Inr found" and ts: "ts = dedup found"
    unfolding scan_file_def ScanForOCILoads_def scanSource_def by (auto simp: bind_res_eq_Inr)
  have u: "u \<in> set found" by (rule scan_stmts_complete [OF f assms(4,5)])
  with dedup_from_covers [of u found "[]"] obtain v where v: "v \<in> set ts" "RefStr v = RefStr u" "File v = File u"
    by (auto simp: ts dedup_def)
  have "v \<in> set found" using v(1) set_dedup_from unfolding ts dedup_def by blast
  with u scan_stmts_parsed [OF f] have "ParseOCILoadTarget (rv_lib rv) (RawURL v) = Inr v" "ParseOCILoadTarget (rv_lib rv) (RawURL u) = Inr u"
    by blast+
  then have "RawURL v = RawURL u" using ParseOCILoadTarget_url assms(1) v(2,3) by metis
  with v(1) show ?thesis by blast
qed

text \<open>
  C15. What was resolved is found again: when the OCI phase has succeeded, every OCI load in a resolved module (by full
  URL, short form or package-locally) that the scanner accepted leads the module loader to a module whose
  source was resolved, so it cannot fail as unresolved at run time.
\<close>

theorem loader_finds_resolved:
  assumes "string_original (rv_lib rv)" and "ml_lib ml = rv_lib rv" and "rv_defaultRegistry rv = default_registry fe spec"
    and "Resolve rv now targets cache = Inr (result, st)"
    and "\<forall>t \<in> set targets. ParseOCILoadTarget (rv_lib rv) (RawURL t) = Inr t"
    and "map_of result url = Some src" and "rv_parse rv ''composition.star'' src = Inr stmts" and "ScanLoad md \<in> set stmts"
    and "\<forall>t. ParseOCILoadTarget (rv_lib rv) url = Inr t \<longrightarrow> (\<exists>ts. scan_file rv (RefStr t) src = Inr ts) \<and>
       scan_target (rv_lib rv) ''composition.star'' (rv_defaultRegistry rv) (RefStr t) md = Inr (Some u)"
    and "IsPackageLocalTarget md \<or> \<not> has_prefix md ''./'' \<and> \<not> has_prefix md ''../''"
  shows "\<exists>src'. map_of result (RawURL u) = Some src' \<and>
     dispatch (loader_for ml fe spec (AList.merge (in_Modules spec) result)) url md = Inr (ByKey (RawURL u)) \<and>
     resolve_source (loader_for ml fe spec (AList.merge (in_Modules spec) result)) (RawURL u) = Inr src'"
proof -
  let ?ml = "loader_for ml fe spec (AList.merge (in_Modules spec) result)"
  have targets: "\<And>t. t \<in> set targets \<Longrightarrow> ParseOCILoadTarget (rv_lib rv) (RawURL t) = Inr t" using assms(5) by blast
  from resolved_closed(2) [OF assms(4) targets] assms(6) obtain t
    where t: "ParseOCILoadTarget (rv_lib rv) url = Inr t"
      and closed: "\<And>ts v. scan_file rv (RefStr t) src = Inr ts \<Longrightarrow> v \<in> set ts \<Longrightarrow> map_of result (RawURL v) \<noteq> None"
    by blast
  from assms(9) t obtain ts where ts: "scan_file rv (RefStr t) src = Inr ts"
    and sc: "scan_target (rv_lib rv) ''composition.star'' (rv_defaultRegistry rv) (RefStr t) md = Inr (Some u)" by blast
  from scan_file_covers [OF assms(1) ts assms(7,8) sc] closed [OF ts] obtain src' where s: "map_of result (RawURL u) = Some src'"
    by force
  then have inl: "map_of (ml_inlineModules ?ml) (RawURL u) = Some src'" by (simp add: loader_for_def)
  have "dispatch ?ml url md = Inr (ByKey (RawURL u))"
    by (rule dispatch_scan_target [OF _ _ _ assms(10) inl]) (use assms(1-3) t sc in \<open>auto simp: loader_for_def\<close>)
  with s inl show ?thesis by (simp add: resolve_source_def)
qed

lemma ex_Resolve_source:
  "\<exists>result st. Resolve ex_resolver 0 [ex_target ''a.star''] (NewCache PullAlways 0) = Inr (result, st) \<and>
     map_of result (RawURL (ex_target ''a.star'')) = Some ''A''"
proof -
  have t: "RefStr (ex_target f) = ''ghcr.io/org/mod:v1''" "File (ex_target f) = f" "Digest (ex_target f) = []" for f
    by (simp_all add: ex_target_def)
  have u: "unique_refs [ex_target ''a.star''] = [(''ghcr.io/org/mod:v1'', [ex_target ''a.star''])]"
    by (simp add: unique_refs_def t)
  have r: "RawURL (ex_target ''b.star'') \<noteq> RawURL (ex_target ''a.star'')" by (simp add: ex_target_def)
  show ?thesis
    unfolding Resolve_def
    by (subst resolveRecursive.simps) (simp add: u t r r [symmetric] update_conv' ex_resolveRef ex_scan ex_files_def maxTransitiveDepth_def Let_def)
qed

theorem loader_finds_resolved_witness:
  "\<exists>result src'. dispatch (loader_for ex_loader ex_env ex_oci_spec (AList.merge (in_Modules ex_oci_spec) result))
     (RawURL (ex_target ''a.star'')) ''./b.star'' = Inr (ByKey (RawURL (ex_target ''b.star''))) \<and>
     resolve_source (loader_for ex_loader ex_env ex_oci_spec (AList.merge (in_Modules ex_oci_spec) result))
       (RawURL (ex_target ''b.star'')) = Inr src'"
proof -
  obtain result st where r: "Resolve ex_resolver 0 [ex_target ''a.star''] (NewCache PullAlways 0) = Inr (result, st)"
    and src: "map_of result (RawURL (ex_target ''a.star'')) = Some ''A''"
    using ex_Resolve_source by blast
  have lib: "rv_lib ex_resolver = ex_name_pkg" "ml_lib ex_loader = ex_name_pkg" "ml_lib ex_loader = rv_lib ex_resolver"
    by (simp_all add: ex_resolver_def ex_loader_def)
  have url: "RawURL (ex_target ''a.star'') = ''oci://ghcr.io/org/mod:v1/a.star''" "RefStr (ex_target ''a.star'') = ''ghcr.io/org/mod:v1''"
    by (simp_all add: ex_target_def)
  have reg: "rv_defaultRegistry ex_resolver = default_registry ex_env ex_oci_spec" by code_simp
  have parse: "rv_parse ex_resolver ''composition.star'' ''A'' = Inr [ScanLoad ''./b.star'']" by (simp add: ex_resolver_def)
  have ok: "\<forall>t \<in> set [ex_target ''a.star'']. ParseOCILoadTarget (rv_lib ex_resolver) (RawURL t) = Inr t"
    using ex_target by (simp add: lib url)
  have sc: "scan_target (rv_lib ex_resolver) ''composition.star'' (rv_defaultRegistry ex_resolver) ''ghcr.io/org/mod:v1'' ''./b.star'' =
      Inr (Some (ex_target ''b.star''))" by code_simp
  have scan: "\<forall>t. ParseOCILoadTarget (rv_lib ex_resolver) (RawURL (ex_target ''a.star'')) = Inr t \<longrightarrow>
      (\<exists>ts. scan_file ex_resolver (RefStr t) ''A'' = Inr ts) \<and>
      scan_target (rv_lib ex_resolver) ''composition.star'' (rv_defaultRegistry ex_resolver) (RefStr t) ''./b.star'' =
        Inr (Some (ex_target ''b.star''))"
    using ex_target ex_scan(1) sc unfolding lib url by (metis sum.inject(2) url(2))
  have form: "IsPackageLocalTarget ''./b.star''" by code_simp
  have "string_original (rv_lib ex_resolver)" unfolding lib by (rule ex_name_pkg_original)
  from loader_finds_resolved [OF this lib(3) reg r ok src parse _ scan] form show ?thesis by (auto intro!: exI [of _ result])
qed

end
