(* ===== verification/FunctionRun.thy ===== *)
theory FunctionRun
  imports Frontend
begin

text \<open>
  \<^verbatim>\<open>RunFunction\<close> of \<^verbatim>\<open>fn.go\<close> as a whole: from the request over the globals of the script, the OCI phase, the
  expansion of star imports and the execution to the response, with the two pieces of state that outlive
  a request, the runtime with its bytecode cache and the OCI cache. Requests are handled one after the other
  here. The function SDK, the interpreter, the registry and the file system are parameters.
\<close>

section \<open>Request and function\<close>

text \<open>
  The request: what \<^verbatim>\<open>request.GetInput\<close> reads from it, the states, the context, the extra resources (the current and the
  deprecated field) and the credentials by name.
\<close>

record RunFunctionRequest =
  rq_input :: "string + StarlarkInputSpec"
  rq_observed :: "State_proto option"
  rq_desired :: "State_proto option"
  rq_context :: "pstruct option"
  rq_required :: "(string \<times> pstruct option list) list option"
  rq_extra :: "(string \<times> pstruct option list) list option"
  rq_credentials :: "string \<Rightarrow> (string \<times> string) list option"

text \<open>The getters of the generated code, which accept nil.\<close>

definition GetComposite :: "State_proto option \<Rightarrow> pstruct option" where
  "GetComposite s = Option.bind (Option.bind s sp_Composite) rp_Resource"

definition observed_resources :: "RunFunctionRequest \<Rightarrow> (string \<times> pstruct option) list" where
  "observed_resources req =
     (case rq_observed req of None \<Rightarrow> [] | Some s \<Rightarrow> map (\<lambda>(n, r). (n, rp_Resource r)) (sp_Resources s))"

text \<open>
  What a script sees and acts on: the state it leaves behind, and the globals that are frozen.
\<close>

record ScriptWorld = RunState +
  sw_oxr :: sval
  sw_observed :: sval
  sw_environment :: sval
  sw_extra :: sval

text \<open>What the fatal exits report.\<close>

datatype run_error =
    InputError string
  | ScriptMissing string
  | GlobalsError serror
  | ModulesError setup_error
  | StarImportError go_error
  | AfterScript fn_error

text \<open>
  \<^verbatim>\<open>Function\<close> with what it calls: \<open>f_To\<close> is \<^verbatim>\<open>response.To\<close>, \<open>f_Fatal\<close> is \<^verbatim>\<open>response.Fatal\<close>, \<open>f_ParseDuration\<close> is
  \<^verbatim>\<open>time.ParseDuration\<close>; \<open>f_resolver\<close> and \<open>f_loader\<close> carry the libraries of the OCI phase and of the loader.
\<close>

record 'r Function =
  f_env :: function_env
  f_sdk :: "'r sdk"
  f_To :: "RunFunctionRequest \<Rightarrow> 'r RunFunctionResponse"
  f_Fatal :: "'r \<Rightarrow> run_error \<Rightarrow> 'r"
  f_ParseDuration :: "string \<Rightarrow> string + int"
  f_resolver :: Resolver
  f_loader :: "ScriptWorld ModuleLoader"

text \<open>Its state.\<close>

record function_state =
  fs_runtime :: "ScriptWorld Runtime"
  fs_ociCache :: Cache

section \<open>Globals\<close>

definition sharedStatelessBuiltins :: "string list" where
  "sharedStatelessBuiltins =
     [''When'', ''get'', ''get_label'', ''get_annotation'', ''schema'', ''field'', ''struct'', ''json'', ''mutable_struct'',
      ''crypto'', ''encoding'', ''dict'', ''regex'', ''yaml'']"

text \<open>The names that \<^verbatim>\<open>BuildGlobals\<close> defines; they are what the compiler knows as predeclared.\<close>

definition global_names :: "string list" where
  "global_names = sharedStatelessBuiltins @
     [''oxr'', ''dxr'', ''observed'', ''context'', ''environment'', ''extra_resources'', ''Resource'', ''skip_resource'',
      ''set_condition'', ''emit_event'', ''fatal'', ''set_composite_ready'', ''set_connection_details'', ''set_xr_status'',
      ''get_observed'', ''require_extra_resource'', ''require_extra_resources'', ''get_extra_resource'',
      ''get_extra_resources'', ''is_observed'', ''get_manifest'', ''observed_body'', ''get_condition'', ''set_response_ttl'']"

text \<open>The values of \<^verbatim>\<open>BuildGlobals\<close>, with the collectors of this run.\<close>

definition BuildGlobals ::
  "RunFunctionRequest \<Rightarrow> Collector \<Rightarrow> ConnectionCollector \<Rightarrow> RequirementsCollector \<Rightarrow> int option \<Rightarrow> sval \<Rightarrow> serror + ScriptWorld"
where
  "BuildGlobals req collector conn reqs ttl observed =
     bind_res (wrap_err (EIn ''building oxr'') (StructToStarlark (GetComposite (rq_observed req)) True)) (\<lambda>oxr.
     bind_res (wrap_err (EIn ''building dxr'') (StructToStarlark (GetComposite (rq_desired req)) False)) (\<lambda>dxr.
     bind_res (wrap_err (EIn ''building context'') (buildContextDict (rq_context req))) (\<lambda>ctx.
     bind_res (wrap_err (EIn ''building environment'') (buildEnvironmentDict (rq_context req))) (\<lambda>env.
     Inr \<lparr>run_collector = collector, run_conn = conn, run_reqs = reqs, run_ttl = ttl, run_dxr = dxr, run_context = ctx,
          sw_oxr = oxr, sw_observed = observed, sw_environment = env,
          sw_extra = buildExtraResourcesDict (rq_required req) (rq_extra req)\<rparr>))))"

text \<open>Fresh collectors for one execution, and the globals.\<close>

definition script_world :: "RunFunctionRequest \<Rightarrow> string \<Rightarrow> serror + ScriptWorld" where
  "script_world req filename =
     (let observed = BuildObservedDict (observed_resources req);
          collector = NewCollector NewConditionCollector filename (GetComposite (rq_observed req)) (Some observed)
      in BuildGlobals req collector [] NewRequirementsCollector None observed)"

section \<open>The run\<close>

text \<open>How far a request came.\<close>

datatype outcome =
    Stopped run_error
  | Passthrough
  | Ran StarlarkInputSpec exec_result RunState

definition exec_result_of :: "go_error + globals \<Rightarrow> exec_result" where
  "exec_result_of r =
     (case r of
        Inr _ \<Rightarrow> ExecOk
      | Inl e \<Rightarrow> (case err_fatal e of Some message \<Rightarrow> ExecFatal message | None \<Rightarrow> ExecError (err_msg e)))"

text \<open>From the expansion of star imports to the end of the execution.\<close>

definition run_script ::
  "nat \<Rightarrow> ScriptWorld ModuleLoader \<Rightarrow> StarlarkInputSpec \<Rightarrow> string \<Rightarrow> string \<Rightarrow> ScriptWorld loader_state \<Rightarrow>
     (outcome \<times> ScriptWorld Runtime) option" where
  "run_script n ml spec source filename m =
     (case ResolveStarImports n ml source filename m of
        None \<Rightarrow> None
      | Some (Inl e, m) \<Rightarrow> Some (Stopped (StarImportError e), ms_rt m)
      | Some (Inr source, m) \<Rightarrow>
          (case Execute (ml_ip ml) source (ml_predeclared ml) filename (Some (load n ml filename))
                  ms_rt (\<lambda>rt m. m\<lparr>ms_rt := rt\<rparr>) ms_world (\<lambda>w m. m\<lparr>ms_world := w\<rparr>) m of
             None \<Rightarrow> None
           | Some (r, m) \<Rightarrow> Some (Ran spec (exec_result_of r) (RunState.truncate (ms_world m)), ms_rt m)))"

text \<open>The environment and the loader for a request.\<close>

definition env_for :: "'r Function \<Rightarrow> RunFunctionRequest \<Rightarrow> function_env" where
  "env_for f req = (f_env f)\<lparr>fe_credentials := rq_credentials req\<rparr>"

definition script_loader ::
  "'r Function \<Rightarrow> RunFunctionRequest \<Rightarrow> StarlarkInputSpec \<Rightarrow> (string \<times> string) list \<Rightarrow> ScriptWorld ModuleLoader" where
  "script_loader f req spec modules = loader_for ((f_loader f)\<lparr>ml_predeclared := global_names\<rparr>) (env_for f req) spec modules"

text \<open>Everything up to the end of the script; \<open>now\<close> is the time of the request.\<close>

definition script_phase ::
  "nat \<Rightarrow> 'r Function \<Rightarrow> int \<Rightarrow> RunFunctionRequest \<Rightarrow> function_state \<Rightarrow> (outcome \<times> function_state) option" where
  "script_phase n f now req st =
     (case rq_input req of
        Inl e \<Rightarrow> Some (Stopped (InputError e), st)
      | Inr spec \<Rightarrow>
          (case find_script (env_for f req) spec of
             Inl e \<Rightarrow> Some (Stopped (ScriptMissing e), st)
           | Inr (source, filename) \<Rightarrow>
               if source = [] then Some (Passthrough, st)
               else (case script_world req filename of
                   Inl e \<Rightarrow> Some (Stopped (GlobalsError e), st)
                 | Inr w \<Rightarrow>
                     (case module_setup (f_resolver f) (env_for f req) now spec source (fs_ociCache st) of
                        Inl (e, cache) \<Rightarrow> Some (Stopped (ModulesError e), st\<lparr>fs_ociCache := cache\<rparr>)
                      | Inr (modules, cache) \<Rightarrow>
                          map_option (\<lambda>(out, rt). (out, \<lparr>fs_runtime = rt, fs_ociCache = cache\<rparr>))
                            (run_script n (script_loader f req spec modules) spec source filename
                               (NewModuleLoader (fs_runtime st) w))))))"

definition respond :: "'r Function \<Rightarrow> RunFunctionRequest \<Rightarrow> outcome \<Rightarrow> 'r RunFunctionResponse" where
  "respond f req out =
     (let rsp = f_To f req in
      case out of
        Stopped e \<Rightarrow> rsp\<lparr>res_sdk := f_Fatal f (res_sdk rsp) e\<rparr>
      | Passthrough \<Rightarrow>
          rsp\<lparr>res_sdk := sdk_Normal (f_sdk f) (res_sdk rsp) ''function-starlark: input parsed successfully (passthrough mode)''\<rparr>
      | Ran spec res run \<Rightarrow>
          after_execute (f_sdk f) (\<lambda>r e. f_Fatal f r (AfterScript e)) (f_ParseDuration f)
            (fe_getenv (f_env f) ''STARLARK_USAGE_API_VERSION'') spec (observed_resources req) res run rsp)"

definition RunFunction ::
  "nat \<Rightarrow> 'r Function \<Rightarrow> int \<Rightarrow> RunFunctionRequest \<Rightarrow> function_state \<Rightarrow> ('r RunFunctionResponse \<times> function_state) option" where
  "RunFunction n f now req st = map_option (\<lambda>(out, st). (respond f req out, st)) (script_phase n f now req st)"

text \<open>The state that the process starts with, given the flags for the pull policy and the TTL.\<close>

definition NewFunction :: "string \<Rightarrow> int \<Rightarrow> function_state" where
  "NewFunction policy ttl = \<lparr>fs_runtime = NewRuntime, fs_ociCache = NewCache policy ttl\<rparr>"

section \<open>What scripts can do\<close>

text \<open>
  A run that keeps an invariant of the outside world: whenever it hands the world over it has it, provided that it
  gets it back so after each load.
\<close>

primrec behaved :: "('w \<Rightarrow> bool) \<Rightarrow> 'w run \<Rightarrow> bool" where
  "behaved I (Halt r w) \<longleftrightarrow> I w"
| "behaved I (LoadCall md w k) \<longleftrightarrow> I w \<and> (\<forall>res w'. I w' \<longrightarrow> behaved I (k res w'))"

definition sandboxed :: "('w \<Rightarrow> bool) \<Rightarrow> 'w interpreter \<Rightarrow> bool" where
  "sandboxed I ip \<longleftrightarrow> (\<forall>names f s prog w. ip_compile ip names f s = Inr prog \<longrightarrow> I w \<longrightarrow> behaved I (prog w))"

definition programs_ok :: "('w \<Rightarrow> bool) \<Rightarrow> 'w Runtime \<Rightarrow> bool" where
  "programs_ok I rt \<longleftrightarrow> (\<forall>key prog w. rt_cache rt key = Some prog \<longrightarrow> I w \<longrightarrow> behaved I (prog w))"

definition world_ok :: "('w \<Rightarrow> bool) \<Rightarrow> 'w loader_state \<Rightarrow> bool" where
  "world_ok I m \<longleftrightarrow> I (ms_world m) \<and> programs_ok I (ms_rt m)"

lemma world_ok_fields [simp]:
  "world_ok I (m\<lparr>ms_cache := x\<rparr>) = world_ok I m" "world_ok I (m\<lparr>ms_expanding := y\<rparr>) = world_ok I m"
  "world_ok I (m\<lparr>ms_rt := markNoStarImports key (ms_rt m)\<rparr>) = world_ok I m"
  by (simp_all add: world_ok_def programs_ok_def markNoStarImports_def)

lemma getOrCompile_ok:
  assumes "sandboxed I ip" and "programs_ok I rt" and "getOrCompile ip source names filename rt = (r, rt')"
  shows "programs_ok I rt'" and "r = Inr prog \<Longrightarrow> I w \<Longrightarrow> behaved I (prog w)"
  using assms unfolding sandboxed_def programs_ok_def getOrCompile_def Let_def
  by (fastforce split: option.splits sum.splits if_splits)+

lemma compile_module_ok:
  assumes "sandboxed I (ml_ip ml)" and "world_ok I m" and "compile_module ml source filename m = (r, m')"
  shows "world_ok I m'" and "r = Inr prog \<Longrightarrow> behaved I (prog (ms_world m'))"
proof -
  from assms(3) obtain rt where g: "getOrCompile (ml_ip ml) source (ml_predeclared ml) filename (ms_rt m) = (r, rt)"
    and m': "m' = m\<lparr>ms_rt := rt\<rparr>" by (auto simp: compile_module_def split: prod.splits)
  note ok = getOrCompile_ok [OF assms(1) _ g]
  show "world_ok I m'" "r = Inr prog \<Longrightarrow> behaved I (prog (ms_world m'))"
    using ok assms(2) unfolding m' world_ok_def by auto
qed

lemma run_program_ok:
  assumes "\<And>md m r m'. world_ok I m \<Longrightarrow> ld md m = Some (r, m') \<Longrightarrow> world_ok I m'"
  shows "behaved I t \<Longrightarrow> world_ok I m \<Longrightarrow> run_program ld ms_world (\<lambda>w m. m\<lparr>ms_world := w\<rparr>) t m = Some (r, m') \<Longrightarrow> world_ok I m'"
proof (induction t arbitrary: m)
  case (LoadCall md w k)
  then obtain res m1 where 1: "ld md (m\<lparr>ms_world := w\<rparr>) = Some (res, m1)"
    and 2: "run_program ld ms_world (\<lambda>w m. m\<lparr>ms_world := w\<rparr>) (k res (ms_world m1)) m1 = Some (r, m')"
    by (auto split: option.splits)
  have "world_ok I (m\<lparr>ms_world := w\<rparr>)" using LoadCall.prems(1,2) by (simp add: world_ok_def)
  from assms [OF this 1] have w: "world_ok I m1" .
  then have "behaved I (k res (ms_world m1))" using LoadCall.prems(1) by (simp add: world_ok_def)
  from LoadCall.IH [OF _ _ this w 2] show ?case by (auto simp: fun_eq_iff)
qed (auto simp: world_ok_def)

lemma run_module_ok:
  assumes ip: "sandboxed I (ml_ip ml)"
    and star: "\<And>s f m r m'. world_ok I m \<Longrightarrow> star s f m = Some (r, m') \<Longrightarrow> world_ok I m'"
    and ld: "\<And>t md m r m'. world_ok I m \<Longrightarrow> ld t md m = Some (r, m') \<Longrightarrow> world_ok I m'"
    and ok: "world_ok I m" and run: "run_module ml star ld key source m = Some (r, m')"
  shows "world_ok I m'"
proof -
  have "\<exists>m1. world_ok I m1 \<and> (r, m') = cached key r m1"
    using run
  proof (cases rule: run_moduleE)
    case (star e m1)
    then show ?thesis using assms(2) [OF ok] by blast
  next
    case (compile src m1 e m2)
    then show ?thesis using compile_module_ok(1) [OF ip star [OF ok]] by blast
  next
    case (run src m1 prog m2 x m3)
    note k2 = compile_module_ok [OF ip star [OF ok run(1)] run(2)]
    have "world_ok I m3" by (rule run_program_ok [OF _ k2(2) [OF refl] k2(1) run(3)]) (rule ld)
    then show ?thesis using run(4) by blast
  qed
  then show ?thesis by (auto simp: cached_def)
qed

lemma load_body_ok:
  assumes ip: "sandboxed I (ml_ip ml)"
    and star: "\<And>s f m r m'. world_ok I m \<Longrightarrow> star s f m = Some (r, m') \<Longrightarrow> world_ok I m'"
    and ld: "\<And>t md m r m'. world_ok I m \<Longrightarrow> ld t md m = Some (r, m') \<Longrightarrow> world_ok I m'"
    and ok: "world_ok I m" and body: "load_body ml star ld thr md m = Some (r, m')"
  shows "world_ok I m'"
  using body
proof (cases rule: load_bodyE)
  case (run target source)
  show ?thesis by (rule run_module_ok [OF ip star ld _ run(3)]) (simp_all add: ok)
qed (use ok in \<open>auto simp: cached_def\<close>)

lemma exports_body_ok:
  assumes ip: "sandboxed I (ml_ip ml)"
    and star: "\<And>s f m r m'. world_ok I m \<Longrightarrow> star s f m = Some (r, m') \<Longrightarrow> world_ok I m'"
    and ld: "\<And>t md m r m'. world_ok I m \<Longrightarrow> ld t md m = Some (r, m') \<Longrightarrow> world_ok I m'"
    and ok: "world_ok I m" and body: "exports_body ml star ld md m = Some (r, m')"
  shows "world_ok I m'"
  using body
proof (cases rule: exports_bodyE)
  case (run src src' m1 prog m2 x)
  note k2 = compile_module_ok [OF ip star [OF ok run(1)] run(2)]
  show ?thesis by (rule run_program_ok [OF _ k2(2) [OF refl] k2(1) run(3)]) (rule ld)
qed (use ok star compile_module_ok(1) [OF ip star [OF ok]] in blast)+

lemma star_loop_ok:
  assumes "\<And>md m r m'. world_ok I m \<Longrightarrow> ex md m = Some (r, m') \<Longrightarrow> world_ok I m'"
  shows "world_ok I m \<Longrightarrow> star_loop ml ex filename ls lines m = Some (r, m') \<Longrightarrow> world_ok I m'"
proof (induction ls arbitrary: lines m)
  case (Cons l ls)
  show ?case
  proof (cases "star_module ml filename (ls_module l)")
    case (Inr p)
    obtain md loadMod where p: "p = (md, loadMod)" by (cases p)
    from Cons.prems(2) Inr p obtain r1 m1 where x: "ex md m = Some (r1, m1)" by (auto split: option.splits)
    note k = assms [OF Cons.prems(1) x]
    show ?thesis using Cons.prems(2) Inr p x k Cons.IH [OF k] by (auto split: sum.splits option.splits)
  qed (use Cons.prems in simp)
qed simp

lemma star_body_ok:
  assumes "\<And>md m r m'. world_ok I m \<Longrightarrow> ex md m = Some (r, m') \<Longrightarrow> world_ok I m'"
    and "world_ok I m" and body: "star_body ml ex source filename m = Some (r, m')"
  shows "world_ok I m'"
  using body
proof (cases rule: star_bodyE)
  case (loop ls lines r1 m1)
  with star_loop_ok [OF assms(1) _ loop(2)] assms(2) show ?thesis by simp
qed (simp_all add: assms(2))

lemma loader_ok:
  assumes ip: "sandboxed I (ml_ip ml)"
  shows "world_ok I m \<Longrightarrow> load n ml thr md m = Some (r, m') \<Longrightarrow> world_ok I m'"
    and "world_ok I m \<Longrightarrow> ResolveStarImports n ml source filename m = Some (r', m') \<Longrightarrow> world_ok I m'"
    and "world_ok I m \<Longrightarrow> getModuleExports n ml md m = Some (r'', m') \<Longrightarrow> world_ok I m'"
proof (induction n arbitrary: thr md m r m' source filename r' r'')
  case (Suc n)
  {
    case 1
    show ?case by (rule load_body_ok [OF ip Suc.IH(2) Suc.IH(1) 1(1) 1(2) [unfolded load.simps]])
  next
    case 2
    show ?case by (rule star_body_ok [OF Suc.IH(3) 2(1) 2(2) [unfolded ResolveStarImports.simps]])
  next
    case 3
    show ?case by (rule exports_body_ok [OF ip Suc.IH(2) Suc.IH(1) 3(1) 3(2) [unfolded getModuleExports.simps]])
  }
qed simp_all

section \<open>Requests\<close>

lemma run_script_ok:
  assumes ip: "sandboxed I (ml_ip ml)" and ok: "world_ok I m" and run: "run_script n ml spec source filename m = Some (out, rt)"
  shows "programs_ok I rt \<and> (\<forall>spec' res r. out = Ran spec' res r \<longrightarrow> (\<exists>w. I w \<and> r = RunState.truncate w))"
proof -
  from run obtain r1 m1 where s: "ResolveStarImports n ml source filename m = Some (r1, m1)"
    by (auto simp: run_script_def split: option.splits)
  from loader_ok(2) [OF ip ok s] have k1: "world_ok I m1" .
  show ?thesis
  proof (cases r1)
    case (Inl e)
    with run s k1 show ?thesis by (auto simp: run_script_def world_ok_def)
  next
    case (Inr src)
    obtain r2 rt2 where g: "getOrCompile (ml_ip ml) src (ml_predeclared ml) filename (ms_rt m1) = (r2, rt2)" by fastforce
    have k: "programs_ok I (ms_rt m1)" "I (ms_world m1)" using k1 by (simp_all add: world_ok_def)
    note c = getOrCompile_ok [OF ip k(1) g]
    have k2: "world_ok I (m1\<lparr>ms_rt := rt2\<rparr>)" using c(1) k(2) by (simp add: world_ok_def)
    show ?thesis
    proof (cases r2)
      case (Inl e)
      with run s g k2 \<open>r1 = Inr src\<close> show ?thesis by (auto simp: run_script_def Execute_def world_ok_def)
    next
      case prog: (Inr prog)
      with run s g \<open>r1 = Inr src\<close> obtain x m3
        where x: "run_program (load n ml filename) ms_world (\<lambda>w m. m\<lparr>ms_world := w\<rparr>) (prog (ms_world m1)) (m1\<lparr>ms_rt := rt2\<rparr>) = Some (x, m3)"
          and out: "out = Ran spec (exec_result_of (execute_result x)) (RunState.truncate (ms_world m3))" "rt = ms_rt m3"
        by (auto simp: run_script_def Execute_def split: option.splits)
      have "world_ok I m3"
        by (rule run_program_ok [OF _ c(2) [OF prog k(2)] k2 x]) (rule loader_ok(1) [OF ip])
      then show ?thesis by (auto simp: out world_ok_def)
    qed
  qed
qed

text \<open>Scripts change the collector through the builtins only.\<close>

abbreviation collector_reached :: "ScriptWorld \<Rightarrow> bool" where
  "collector_reached w \<equiv> reachable_collector (run_collector w)"

definition builtins_only :: "'r Function \<Rightarrow> bool" where
  "builtins_only f \<longleftrightarrow> sandboxed collector_reached (ml_ip (f_loader f))"

text \<open>The states after any number of requests.\<close>

inductive served :: "'r Function \<Rightarrow> function_state \<Rightarrow> bool" for f where
  start: "served f (NewFunction policy ttl)"
| request: "served f st \<Longrightarrow> RunFunction n f now req st = Some (rsp, st') \<Longrightarrow> served f st'"

lemma script_world_fresh: "script_world req filename = Inr w \<Longrightarrow> collector_reached w"
proof -
  assume "script_world req filename = Inr w"
  then have "run_collector w = NewCollector NewConditionCollector filename (GetComposite (rq_observed req))
      (Some (BuildObservedDict (observed_resources req)))"
    by (auto simp: script_world_def BuildGlobals_def Let_def bind_res_eq_Inr)
  then show ?thesis unfolding reachable_collector_def by auto
qed

lemma script_loader_ip [simp]: "ml_ip (script_loader f req spec modules) = ml_ip (f_loader f)"
  by (simp add: script_loader_def loader_for_def)

lemma script_phase_ok:
  assumes "builtins_only f" and "programs_ok collector_reached (fs_runtime st)" and "script_phase n f now req st = Some (out, st')"
  shows "programs_ok collector_reached (fs_runtime st') \<and>
     (\<forall>spec res run. out = Ran spec res run \<longrightarrow> reachable_collector (run_collector run))"
proof (cases "\<exists>spec source filename w modules cache. rq_input req = Inr spec \<and> find_script (env_for f req) spec = Inr (source, filename) \<and>
    source \<noteq> [] \<and> script_world req filename = Inr w \<and>
    module_setup (f_resolver f) (env_for f req) now spec source (fs_ociCache st) = Inr (modules, cache)")
  case True
  then obtain spec source filename w modules cache where pre: "rq_input req = Inr spec" "find_script (env_for f req) spec = Inr (source, filename)"
    "source \<noteq> []" "script_world req filename = Inr w"
    "module_setup (f_resolver f) (env_for f req) now spec source (fs_ociCache st) = Inr (modules, cache)" by blast
  let ?m = "NewModuleLoader (fs_runtime st) w" and ?ml = "script_loader f req spec modules"
  from assms(3) pre obtain rt where r: "run_script n ?ml spec source filename ?m = Some (out, rt)" and st': "fs_runtime st' = rt"
    by (auto simp: script_phase_def)
  have ok: "world_ok collector_reached ?m"
    using script_world_fresh [OF pre(4)] assms(2) by (simp add: world_ok_def NewModuleLoader_def)
  have ip: "sandboxed collector_reached (ml_ip ?ml)" using assms(1) by (simp add: builtins_only_def)
  from run_script_ok [OF ip ok r] show ?thesis by (auto simp: st' RunState.truncate_def)
qed (use assms(2,3) in \<open>auto simp: script_phase_def split: sum.splits if_splits prod.splits\<close>)

lemma served_ok: "served f st \<Longrightarrow> builtins_only f \<Longrightarrow> programs_ok collector_reached (fs_runtime st)"
proof (induction rule: served.induct)
  case (request st n now req rsp st')
  from request.hyps(2) obtain out where "script_phase n f now req st = Some (out, st')" by (auto simp: RunFunction_def)
  from script_phase_ok [OF request.prems request.IH [OF request.prems] this] show ?case by blast
qed (simp add: NewFunction_def programs_ok_def NewRuntime_def)

lemma reachable_distinct: "reachable_collector c \<Longrightarrow> distinct (map fst (c_resources c))"
  using reachable_inv [of c] by (simp add: collector_inv_def resources_ok_def)

lemma ran_desired:
  assumes "reachable_collector (run_collector run)" and "deps_accepted (f_ParseDuration f) spec run seqTTL"
    and "res_core (f_To f req) = \<lparr>rsp_Desired = rq_desired req, rsp_Context = rq_context req\<rparr>"
  shows "map_of (sp_Resources (desired_of (res_core (respond f req (Ran spec ExecOk run))))) nm =
     (case (if nm \<in> set (deferred_of run (observed_resources req)) then None else map_of (c_resources (run_collector run)) nm) of
        Some cr \<Rightarrow> Some (resource_proto cr)
      | None \<Rightarrow>
          (case map_of (usages_of (fe_getenv (f_env f) ''STARLARK_USAGE_API_VERSION'') spec run (observed_resources req)) nm of
             Some body \<Rightarrow> Some \<lparr>rp_Resource = Some body, rp_Ready = READY_TRUE, rp_ConnectionDetails = []\<rparr>
           | None \<Rightarrow> (case rq_desired req of None \<Rightarrow> None | Some d \<Rightarrow> map_of (sp_Resources d) nm)))"
proof -
  have core: "sp_Resources (desired_of (res_core (f_To f req))) = (case rq_desired req of None \<Rightarrow> [] | Some d \<Rightarrow> sp_Resources d)"
    by (simp add: assms(3) desired_of_def empty_state_def split: option.splits)
  show ?thesis
    by (simp add: respond_def Let_def desired_resources [OF assms(2) reachable_distinct [OF assms(1)]] core split: option.splits)
qed

section \<open>Properties\<close>

text \<open>
  C2. What the function asks Crossplane to create, for any request that ends a script normally with acceptable
  dependencies, after any earlier requests: every resource of the script that the sequencer does not withhold,
  as the script left it and never without a body; else the Usage of that name, marked ready; else
  what the request brought from earlier functions of the pipeline, of which nothing is lost. The scripts
  change the collector only through the builtins, and \<^verbatim>\<open>response.To\<close> copies the desired state.
\<close>

theorem request_desired_resources:
  assumes "builtins_only f" and "served f st" and "script_phase n f now req st = Some (Ran spec ExecOk run, st')"
    and "deps_accepted (f_ParseDuration f) spec run seqTTL"
    and "res_core (f_To f req) = \<lparr>rsp_Desired = rq_desired req, rsp_Context = rq_context req\<rparr>"
  shows "\<exists>rsp. RunFunction n f now req st = Some (rsp, st') \<and>
     (\<forall>nm. map_of (sp_Resources (desired_of (res_core rsp))) nm =
       (case (if nm \<in> set (deferred_of run (observed_resources req)) then None else map_of (c_resources (run_collector run)) nm) of
          Some cr \<Rightarrow> Some (resource_proto cr)
        | None \<Rightarrow>
            (case map_of (usages_of (fe_getenv (f_env f) ''STARLARK_USAGE_API_VERSION'') spec run (observed_resources req)) nm of
               Some body \<Rightarrow> Some \<lparr>rp_Resource = Some body, rp_Ready = READY_TRUE, rp_ConnectionDetails = []\<rparr>
             | None \<Rightarrow> (case rq_desired req of None \<Rightarrow> None | Some d \<Rightarrow> map_of (sp_Resources d) nm)))) \<and>
     (\<forall>nm cr. map_of (c_resources (run_collector run)) nm = Some cr \<longrightarrow> cr_Body cr \<noteq> None)"
proof -
  have reach: "reachable_collector (run_collector run)"
    using script_phase_ok [OF assms(1) served_ok [OF assms(2,1)] assms(3)] by blast
  note desired = ran_desired [OF reach assms(4,5)]
  from reachable_inv [OF reach] have "\<forall>nm cr. map_of (c_resources (run_collector run)) nm = Some cr \<longrightarrow> cr_Body cr \<noteq> None"
    by (simp add: collector_inv_def resources_ok_def)
  then show ?thesis unfolding RunFunction_def assms(3) option.map case_prod_conv using desired by blast
qed

text \<open>
  C34. What the function reports about the composite, for a script that ends normally with acceptable dependencies. Readiness: an
  explicit \<^verbatim>\<open>set_composite_ready\<close> decides; without it, a required resource that was skipped or any resource withheld for a
  dependency makes the composite not ready, and otherwise what earlier functions set stays. TTL: the script's own one wins, zero
  clearing it; otherwise the sequencing TTL applies while a resource is withheld, it is cleared once all
  dependencies are satisfied, and without dependencies the default stays.
\<close>

theorem request_readiness_and_ttl:
  assumes "script_phase n f now req st = Some (Ran spec ExecOk run, st')"
    and "deps_accepted (f_ParseDuration f) spec run seqTTL" and "globals_convert run"
    and "c_gatingDefers (run_collector run) = []"
  shows "\<exists>rsp. RunFunction n f now req st = Some (rsp, st') \<and>
     rp_Ready (composite_of (res_core rsp)) =
       (let override = c_compositeReady (run_collector run)
        in if ov_Set override then (if ov_Ready override then READY_TRUE else READY_FALSE)
           else if c_gatingSkips (run_collector run) \<noteq> [] \<or> deferred_of run (observed_resources req) \<noteq> [] then READY_FALSE
           else rp_Ready (composite_of (res_core (f_To f req)))) \<and>
     res_ttl rsp =
       (case run_ttl run of
          Some d \<Rightarrow> if d = 0 then None else Some d
        | None \<Rightarrow>
            if c_dependencies (run_collector run) = [] then res_ttl (f_To f req)
            else if deferred_of run (observed_resources req) \<noteq> [] then Some seqTTL
            else None)"
  unfolding RunFunction_def assms(1) respond_def
  by (simp add: composite_readiness [OF assms(2-4)] response_ttl [OF assms(2)] Let_def)


lemma run_script_total:
  assumes "finite_files ml" and "finite S" and "stars_closed ml S" and "stars_in ml S source filename"
    and "2 * (card (load_keys ml \<union> S) + 1) ^ 2 + 2 \<le> n"
  shows "run_script n ml spec source filename m \<noteq> None"
proof -
  note total = loader_returns [OF assms]
  from total(2) obtain r1 m1 where s: "ResolveStarImports n ml source filename m = Some (r1, m1)" by fastforce
  have "run_program (load n ml filename) ms_world (\<lambda>w m. m\<lparr>ms_world := w\<rparr>) t m2 \<noteq> None" for t m2
    by (rule kp.run_program_total) (auto dest: loader_keeps(1) simp del: not_None_eq intro!: total(1))
  then have run: "(run_program (load n ml filename) ms_world (\<lambda>w m. m\<lparr>ms_world := w\<rparr>) t m2 = None) = False" for t m2 by blast
  show ?thesis
    using s by (auto simp: run_script_def Execute_def Let_def run split: sum.splits option.splits prod.splits)
qed

text \<open>The names that star imports may mention in a request, and the depth of nested calls that is allowed.\<close>

definition stars_bounded :: "'r Function \<Rightarrow> int \<Rightarrow> RunFunctionRequest \<Rightarrow> function_state \<Rightarrow> string set \<Rightarrow> nat \<Rightarrow> bool" where
  "stars_bounded f now req st S n \<longleftrightarrow>
     (\<forall>spec source filename modules cache.
        rq_input req = Inr spec \<longrightarrow> find_script (env_for f req) spec = Inr (source, filename) \<longrightarrow>
        module_setup (f_resolver f) (env_for f req) now spec source (fs_ociCache st) = Inr (modules, cache) \<longrightarrow>
        stars_closed (script_loader f req spec modules) S \<and> stars_in (script_loader f req spec modules) S source filename \<and>
        2 * (card (load_keys (script_loader f req spec modules) \<union> S) + 1) ^ 2 + 2 \<le> n)"

text \<open>
  C8. Every request is answered: with finitely many files, and finitely many names in the star imports, the
  function returns a response from every state, whatever the scripts and modules load and star-import.
\<close>

theorem request_answered:
  assumes "finite {p. \<exists>d. fe_readFile (f_env f) p = FileData d}" and "finite S" and "stars_bounded f now req st S n"
  shows "\<exists>rsp st'. RunFunction n f now req st = Some (rsp, st')"
proof -
  have files: "finite_files (script_loader f req spec modules)" for spec modules
    using assms(1) by (simp add: finite_files_def files_def script_loader_def loader_for_def env_for_def)
  have "script_phase n f now req st \<noteq> None"
    using assms(3) run_script_total [OF files assms(2)]
    unfolding script_phase_def stars_bounded_def by (auto split: sum.splits prod.splits)
  then show ?thesis by (auto simp: RunFunction_def)
qed

section \<open>A request\<close>

text \<open>A script that creates one resource; a function whose file system is empty but for one script and whose scripts do
  \<open>g\<close> to the collector; and a request with some observed resources.\<close>

definition ex_app :: "Collector \<Rightarrow> Collector" where
  "ex_app c = snd (resourceFn ''app'' (SDict False []) SNone None None None None None c)"

definition ex_fn :: "(Collector \<Rightarrow> Collector) \<Rightarrow> string list Function" where
  "ex_fn g = \<lparr>f_env = ex_env, f_sdk = ex_sdk,
     f_To = (\<lambda>req. \<lparr>res_core = \<lparr>rsp_Desired = rq_desired req, rsp_Context = rq_context req\<rparr>, res_ttl = Some 60000000000,
       res_requirements = None, res_sdk = []\<rparr>),
     f_Fatal = (\<lambda>r _. r @ [''fatal'']), f_ParseDuration = (\<lambda>s. Inl s), f_resolver = ex_resolver,
     f_loader = \<lparr>ml_inlineModules = [], ml_searchPaths = [], ml_predeclared = [], ml_defaultRegistry = [], ml_lib = ex_name_pkg,
       ml_fs = (\<lambda>_. FileNotExist ''none''), ml_parse = (\<lambda>_ _. Inr [OtherStmt]),
       ml_ip = \<lparr>ip_compile = (\<lambda>_ _ _. Inr (\<lambda>w. Halt (EndOk []) (w\<lparr>run_collector := g (run_collector w)\<rparr>))), ip_hash = (\<lambda>s. s)\<rparr>\<rparr>\<rparr>"

definition ex_req :: "(string \<times> Resource_proto) list \<Rightarrow> RunFunctionRequest" where
  "ex_req obs = \<lparr>rq_input = Inr ex_spec, rq_observed = Some \<lparr>sp_Composite = None, sp_Resources = obs\<rparr>,
     rq_desired = Some \<lparr>sp_Composite = None, sp_Resources = [(''old'', empty_resource)]\<rparr>, rq_context = None,
     rq_required = None, rq_extra = None, rq_credentials = (\<lambda>_. None)\<rparr>"

abbreviation ex_fn_state :: function_state where
  "ex_fn_state \<equiv> NewFunction PullAlways 0"

lemma ex_builtins_only: "(\<And>c. script_step\<^sup>*\<^sup>* c (g c)) \<Longrightarrow> builtins_only (ex_fn g)"
proof -
  assume g: "\<And>c. script_step\<^sup>*\<^sup>* c (g c)"
  have "reachable_collector (g c)" if "reachable_collector c" for c
  proof -
    have "(sup script_step post_step)\<^sup>*\<^sup>* c (g c)" using g by (rule rtranclp_mono [THEN predicate2D, rotated]) simp
    with that show ?thesis unfolding reachable_collector_def by (meson rtranclp_trans)
  qed
  then show ?thesis by (auto simp: builtins_only_def sandboxed_def ex_fn_def)
qed

lemma ex_app_step: "script_step\<^sup>*\<^sup>* c (ex_app c)"
  unfolding ex_app_def by (intro r_into_rtranclp script_step.resource) (rule surjective_pairing)

lemma ex_setup: "module_setup ex_resolver (env_for (ex_fn g) (ex_req obs)) 0 ex_spec ''x'' cache = Inr ([], cache)"
  by (simp add: module_setup_def resolver_for_def default_registry_def ex_spec_def ex_fn_def env_for_def ex_env_def oci_targets_def
      ex_resolver_def ScanForOCILoads_def scanSource_def Let_def dedup_def)

lemma ex_observed: "observed_resources (ex_req obs) = map (\<lambda>(n, r). (n, rp_Resource r)) obs"
  by (simp add: observed_resources_def ex_req_def)

definition ex_world :: "(string \<times> Resource_proto) list \<Rightarrow> ScriptWorld" where
  "ex_world obs = \<lparr>run_collector = NewCollector NewConditionCollector ''composition.star'' None (Some (BuildObservedDict (observed_resources (ex_req obs)))),
     run_conn = [], run_reqs = NewRequirementsCollector, run_ttl = None, run_dxr = SStarlarkDict False [], run_context = SDict False [],
     sw_oxr = SStarlarkDict True [], sw_observed = BuildObservedDict (observed_resources (ex_req obs)), sw_environment = SStarlarkDict True [],
     sw_extra = SDict True []\<rparr>"

lemma ex_script_world: "script_world (ex_req obs) ''composition.star'' = Inr (ex_world obs)"
  by (simp add: script_world_def BuildGlobals_def ex_world_def ex_observed)
    (simp add: ex_req_def GetComposite_def StructToStarlark_def
      buildContextDict_def buildEnvironmentDict_def buildExtraResourcesDict_def Let_def)

definition ex_final :: "(Collector \<Rightarrow> Collector) \<Rightarrow> (string \<times> Resource_proto) list \<Rightarrow> RunState" where
  "ex_final g obs = RunState.truncate (ex_world obs\<lparr>run_collector := g (run_collector (ex_world obs))\<rparr>)"

lemma ex_phase: "\<exists>st'. script_phase (Suc k) (ex_fn g) 0 (ex_req obs) ex_fn_state = Some (Ran ex_spec ExecOk (ex_final g obs), st')"
proof -
  have f: "find_script fe ex_spec = Inr (''x'', ''composition.star'')" for fe by (simp add: find_script_def ex_spec_def)
  have i: "rq_input (ex_req obs) = Inr ex_spec" by (simp add: ex_req_def)
  have r: "f_resolver (ex_fn g) = ex_resolver" by (simp add: ex_fn_def)
  show ?thesis
    unfolding script_phase_def i r
    by (simp add: f ex_script_world ex_setup)
      (simp add: run_script_def star_body_def Execute_def script_loader_def loader_for_def ex_fn_def getOrCompile_def star_loads_def
        NewModuleLoader_def NewFunction_def NewRuntime_def hasNoStarImports_def markNoStarImports_def execute_result_def exec_result_of_def
        ex_final_def Let_def)
qed

lemma ex_To: "res_core (f_To (ex_fn g) req) = \<lparr>rsp_Desired = rq_desired req, rsp_Context = rq_context req\<rparr>"
  by (simp add: ex_fn_def)

lemma ex_app_resources: "map_of (c_resources (run_collector (ex_final ex_app []))) ''app'' \<noteq> None \<and> c_dependencies (run_collector (ex_final ex_app [])) = []"
  by code_simp

lemma ex_final_fields:
  "c_dependencies (run_collector (ex_final ex_app [])) = []" "map_of (c_resources (run_collector (ex_final ex_app []))) ''old'' = None"
  by code_simp+

theorem request_desired_resources_witness:
  "\<exists>rsp st'. RunFunction 1 (ex_fn ex_app) 0 (ex_req []) ex_fn_state = Some (rsp, st') \<and>
     map_of (sp_Resources (desired_of (res_core rsp))) ''app'' \<noteq> None \<and>
     map_of (sp_Resources (desired_of (res_core rsp))) ''old'' = Some empty_resource"
proof -
  obtain st' where ph: "script_phase 1 (ex_fn ex_app) 0 (ex_req []) ex_fn_state = Some (Ran ex_spec ExecOk (ex_final ex_app []), st')"
    using ex_phase [of 0 ex_app "[]"] by auto
  have acc: "deps_accepted (f_ParseDuration (ex_fn ex_app)) ex_spec (ex_final ex_app []) 0" by (simp add: deps_accepted_def ex_final_fields)
  have d: "deferred_of (ex_final ex_app []) obs = []" "usages_of env spec (ex_final ex_app []) obs = []" for obs env spec
    by (simp_all add: deferred_of_def usages_of_def BuildUsageResources_def no_deps_nothing_deferred ex_final_fields)
  from request_desired_resources [OF ex_builtins_only [OF ex_app_step] served.start ph acc ex_To, unfolded d map_of.simps option.case list.set empty_iff if_False] obtain rsp
    where r: "RunFunction 1 (ex_fn ex_app) 0 (ex_req []) ex_fn_state = Some (rsp, st')"
      and nm: "\<And>nm. map_of (sp_Resources (desired_of (res_core rsp))) nm =
        (case map_of (c_resources (run_collector (ex_final ex_app []))) nm of
           Some cr \<Rightarrow> Some (resource_proto cr)
         | None \<Rightarrow> (case rq_desired (ex_req []) of None \<Rightarrow> None | Some d \<Rightarrow> map_of (sp_Resources d) nm))"
    by blast
  from nm [of "''app''"] nm [of "''old''"] ex_app_resources ex_final_fields(2) r show ?thesis by (auto simp: ex_req_def)
qed

lemma ex_final_rest:
  "c_gatingDefers (run_collector (ex_final ex_app [])) = []" "c_gatingSkips (run_collector (ex_final ex_app [])) = []"
  "ov_Set (c_compositeReady (run_collector (ex_final ex_app []))) = False" "run_ttl (ex_final ex_app []) = None"
  "run_dxr (ex_final ex_app []) = SStarlarkDict False []" "run_context (ex_final ex_app []) = SDict False []"
  by code_simp+

theorem request_readiness_and_ttl_witness:
  "\<exists>rsp st'. RunFunction 1 (ex_fn ex_app) 0 (ex_req []) ex_fn_state = Some (rsp, st') \<and>
     rp_Ready (composite_of (res_core rsp)) = READY_UNSPECIFIED \<and> res_ttl rsp = Some 60000000000"
proof -
  obtain st' where ph: "script_phase 1 (ex_fn ex_app) 0 (ex_req []) ex_fn_state = Some (Ran ex_spec ExecOk (ex_final ex_app []), st')"
    using ex_phase [of 0 ex_app "[]"] by auto
  have acc: "deps_accepted (f_ParseDuration (ex_fn ex_app)) ex_spec (ex_final ex_app []) 0" by (simp add: deps_accepted_def ex_final_fields)
  have conv: "globals_convert (ex_final ex_app [])"
    by (auto simp: globals_convert_def ex_final_rest StarlarkToStruct_def PlainDictToStruct_def)
  have d: "deferred_of (ex_final ex_app []) obs = []" for obs
    by (simp add: deferred_of_def no_deps_nothing_deferred ex_final_fields)
  have To: "rp_Ready (composite_of (res_core (f_To (ex_fn ex_app) (ex_req [])))) = READY_UNSPECIFIED"
    "res_ttl (f_To (ex_fn ex_app) (ex_req [])) = Some 60000000000"
    by (simp_all add: ex_fn_def ex_req_def composite_of_def desired_of_def empty_resource_def)
  from request_readiness_and_ttl [OF ph acc conv ex_final_rest(1)] show ?thesis
    by (auto simp: ex_final_rest ex_final_fields d To)
qed


lemma ex_fn_files: "{p. \<exists>d. fe_readFile (f_env (ex_fn ex_app)) p = FileData d} = {''/scripts/app/main.star''}"
  by (auto simp: ex_fn_def ex_env_def)

lemma ex_fn_keys: "load_keys (script_loader (ex_fn ex_app) (ex_req []) spec []) \<subseteq> set [''/scripts/app/main.star'', ''main.star'']"
proof -
  have "files (script_loader (ex_fn ex_app) (ex_req []) spec []) = {''/scripts/app/main.star''}"
    using ex_fn_files by (simp add: files_def script_loader_def loader_for_def env_for_def)
  moreover have "last (path_segs ''/scripts/app/main.star'') = ''main.star''" by code_simp
  ultimately show ?thesis
    using load_keys_files [of "script_loader (ex_fn ex_app) (ex_req []) spec []"] by (auto simp: script_loader_def loader_for_def)
qed

theorem request_answered_witness: "\<exists>rsp st'. RunFunction 20 (ex_fn ex_app) 0 (ex_req []) ex_fn_state = Some (rsp, st')"
proof (rule request_answered [where S = "{}"])
  show "finite {p. \<exists>d. fe_readFile (f_env (ex_fn ex_app)) p = FileData d}" unfolding ex_fn_files by simp
  have "card (load_keys (script_loader (ex_fn ex_app) (ex_req []) spec [])) \<le> 2" for spec
    using card_mono [OF _ ex_fn_keys [of spec]] card_length [of "[''/scripts/app/main.star'', ''main.star'']"] by simp
  then have "(card (load_keys (script_loader (ex_fn ex_app) (ex_req []) spec [])) + 1) ^ 2 \<le> 3 ^ 2" for spec by (intro power_mono) auto
  then have b: "2 * (card (load_keys (script_loader (ex_fn ex_app) (ex_req []) spec [])) + 1) ^ 2 + 2 \<le> 20" for spec by (simp add: le_diff_conv)
  have no: "stars_in (script_loader (ex_fn ex_app) (ex_req []) spec modules) {} source filename" for spec modules source filename
    by (simp add: stars_in_def script_loader_def loader_for_def ex_fn_def star_loads_def)
  have "modules = []" if "module_setup (f_resolver (ex_fn ex_app)) (env_for (ex_fn ex_app) (ex_req [])) 0 ex_spec ''x'' c = Inr (modules, cache)" for modules cache c
    using that ex_setup [of ex_app "[]" c] by (simp add: ex_fn_def)
  then show "stars_bounded (ex_fn ex_app) 0 (ex_req []) ex_fn_state {} 20"
    using b no by (auto simp: stars_bounded_def stars_closed_def find_script_def ex_req_def ex_spec_def)
qed simp

end
