(* ===== verification/Reconciliation.thy ===== *)
theory Reconciliation
  imports FunctionRun
begin

text \<open>
  The function in its control loop: Crossplane calls \<^verbatim>\<open>RunFunction\<close>, creates what the response asks for, and calls
  again with what it observes. The rounds of \<open>Progress\<close>, which are about the sequencer alone, are what such a loop does.
\<close>

section \<open>Rounds\<close>

text \<open>
  One round, from a request and the state of the function to the next ones. The script ends normally and composes the
  resources \<open>names\<close> with the dependencies \<open>deps\<close>, whatever it observes. Every resource that the response desires
  is observed in the next request, nothing that was observed vanishes, and what is observed satisfies the pairs
  that wait for it.
\<close>

inductive control_round ::
  "'r Function \<Rightarrow> DependencyPair list \<Rightarrow> string list \<Rightarrow> RunFunctionRequest \<times> function_state \<Rightarrow> RunFunctionRequest \<times> function_state \<Rightarrow> bool"
  for f :: "'r Function" and deps :: "DependencyPair list" and names :: "string list"
where
  round: "script_phase n f now req st = Some (Ran spec ExecOk run, st') \<Longrightarrow>
    c_dependencies (run_collector run) = deps \<Longrightarrow> map fst (c_resources (run_collector run)) = names \<Longrightarrow>
    sequencing_ttl (f_ParseDuration f) (in_SequencingTTL spec) = Inr seqTTL \<Longrightarrow>
    RunFunction n f now req st = Some (rsp, st') \<Longrightarrow>
    dom (map_of (observed_resources req)) \<subseteq> dom (map_of (observed_resources req')) \<Longrightarrow>
    dom (map_of (sp_Resources (desired_of (res_core rsp)))) \<subseteq> dom (map_of (observed_resources req')) \<Longrightarrow>
    (\<And>d. d \<in> set deps \<Longrightarrow> map_of (observed_resources req') (Dependency d) \<noteq> None \<Longrightarrow>
       dep_met (map_of (observed_resources req')) d) \<Longrightarrow>
    control_round f deps names (req, st) (req', st')"

definition To_copies :: "'r Function \<Rightarrow> bool" where
  "To_copies f \<longleftrightarrow> (\<forall>req. res_core (f_To f req) = \<lparr>rsp_Desired = rq_desired req, rsp_Context = rq_context req\<rparr>)"

lemma control_round_reconciled:
  assumes "builtins_only f" and "To_copies f" and "served f st" and "ValidateDependencies deps names = Inr ()"
    and "control_round f deps names (req, st) (req', st')"
  shows "reconciled deps names 0 (map_of (observed_resources req)) (map_of (observed_resources req')) \<and> served f st'"
  using assms(5)
proof cases
  case (round n now spec run seqTTL rsp)
  note ph = round(1) and deps = round(2) and names = round(3) and ttl = round(4) and run = round(5)
    and mono = round(6) and created = round(7) and met = round(8)
  have acc: "deps_accepted (f_ParseDuration f) spec run seqTTL"
    using assms(4) ttl by (simp add: deps_accepted_def deps names)
  have reach: "reachable_collector (run_collector run)"
    using script_phase_ok [OF assms(1) served_ok [OF assms(3,1)] ph] by blast
  have core: "res_core (f_To f req) = \<lparr>rsp_Desired = rq_desired req, rsp_Context = rq_context req\<rparr>"
    using assms(2) by (simp add: To_copies_def)
  have rsp: "rsp = respond f req (Ran spec ExecOk run)" using run by (simp add: RunFunction_def ph)
  have "reconciled deps names 0 (map_of (observed_resources req)) (map_of (observed_resources req'))"
  proof (rule reconciled.round [OF mono _ met])
    fix nm assume nm: "nm \<in> set names" "nm \<notin> set (Deferred (Evaluate (NewSequencer deps names (map_of (observed_resources req)) 0)))"
    from nm(1) obtain cr where "map_of (c_resources (run_collector run)) nm = Some cr"
      unfolding names [symmetric] by (metis map_of_eq_None_iff not_None_eq set_map)
    with nm(2) have "map_of (sp_Resources (desired_of (res_core rsp))) nm = Some (resource_proto cr)"
      unfolding rsp ran_desired [OF reach acc core] by (simp add: deferred_of_def deps names)
    with created show "map_of (observed_resources req') nm \<noteq> None" by auto
  qed
  with served.request [OF assms(3) run] show ?thesis by blast
qed

lemma control_rounds_reconciled:
  assumes "builtins_only f" and "To_copies f" and "ValidateDependencies deps names = Inr ()"
  shows "(control_round f deps names ^^ k) (req, st) (req', st') \<Longrightarrow> served f st \<Longrightarrow>
     (reconciled deps names 0 ^^ k) (map_of (observed_resources req)) (map_of (observed_resources req'))"
proof (induction k arbitrary: req st)
  case (Suc k)
  from relpowp_Suc_D2 [OF Suc.prems(1)] obtain req1 st1
    where r: "control_round f deps names (req, st) (req1, st1)" and rest: "(control_round f deps names ^^ k) (req1, st1) (req', st')"
    by auto
  note step = control_round_reconciled [OF assms(1,2) Suc.prems(2) assms(3) r]
  show ?case by (rule relpowp_Suc_I2 [OF conjunct1 [OF step] Suc.IH [OF rest conjunct2 [OF step]]])
qed simp

section \<open>Properties\<close>


section \<open>A round\<close>

text \<open>A script with two resources, the second one depending on the first, which already exists.\<close>

definition ex_two :: "Collector \<Rightarrow> Collector" where
  "ex_two c = snd (resourceFn ''b'' (SDict False []) SNone None None (Some [SResourceRef ''a'']) None None
     (snd (resourceFn ''a'' (SDict False []) SNone None None None None None c)))"

definition ex_there :: "string \<Rightarrow> string \<times> Resource_proto" where
  "ex_there nm = (nm, \<lparr>rp_Resource = Some ex_ready_body, rp_Ready = READY_UNSPECIFIED, rp_ConnectionDetails = []\<rparr>)"

lemma ex_two_step: "script_step\<^sup>*\<^sup>* c (ex_two c)"
proof -
  have "script_step c (snd (resourceFn ''a'' (SDict False []) SNone None None None None None c))"
    by (rule script_step.resource) (rule surjective_pairing)
  moreover have "script_step c' (snd (resourceFn ''b'' (SDict False []) SNone None None (Some [SResourceRef ''a'']) None None c'))" for c'
    by (rule script_step.resource) (rule surjective_pairing)
  ultimately show ?thesis unfolding ex_two_def by (meson rtranclp.rtrancl_into_rtrancl r_into_rtranclp)
qed

abbreviation ex_two_run :: RunState where
  "ex_two_run \<equiv> ex_final ex_two [ex_there ''a'']"

lemma ex_two_fields:
  "c_dependencies (run_collector ex_two_run) = [ex_pair ''b'' ''a'']" "map fst (c_resources (run_collector ex_two_run)) = [''a'', ''b'']"
  by code_simp+

lemma ex_there_observed: "map_of (observed_resources (ex_req (map ex_there nms))) nm = (if nm \<in> set nms then Some (Some ex_ready_body) else None)"
  by (induction nms) (auto simp: ex_observed ex_there_def)

lemma ex_two_usages: "usages_of env ex_spec ex_two_run (observed_resources (ex_req [ex_there ''a''])) = []"
proof -
  have "pstring (pfield ex_ready_body ''kind'') = ''Bucket''" by code_simp
  moreover have "\<not> isObservedReady None" using rdy.absent_unready .
  ultimately show ?thesis
    using ex_there_observed [of "[''a'']"]
    by (simp add: usages_of_def ex_two_fields BuildUsageResources_def usageOfPair_def usagePairReady_def usageAlreadyCreated_def obs_at_def Let_def)
qed

lemma ex_two_round:
  "\<exists>st'. control_round (ex_fn ex_two) [ex_pair ''b'' ''a''] [''a'', ''b''] (ex_req [ex_there ''a''], ex_fn_state)
     (ex_req (map ex_there [''a'', ''b'', ''old'']), st')"
proof -
  obtain st' where ph: "script_phase 1 (ex_fn ex_two) 0 (ex_req [ex_there ''a'']) ex_fn_state = Some (Ran ex_spec ExecOk ex_two_run, st')"
    using ex_phase [of 0 ex_two "[ex_there ''a'']"] by auto
  let ?rsp = "respond (ex_fn ex_two) (ex_req [ex_there ''a'']) (Ran ex_spec ExecOk ex_two_run)"
  have v: "ValidateDependencies [ex_pair ''b'' ''a''] [''a'', ''b''] = Inr ()" by code_simp
  have ttl: "sequencing_ttl (f_ParseDuration (ex_fn ex_two)) (in_SequencingTTL ex_spec) = Inr 10000000000"
    by (simp add: sequencing_ttl_def ex_spec_def)
  have acc: "deps_accepted (f_ParseDuration (ex_fn ex_two)) ex_spec ex_two_run 10000000000"
    using v ttl by (simp add: deps_accepted_def ex_two_fields)
  have reach: "reachable_collector (run_collector ex_two_run)"
    using script_phase_ok [OF ex_builtins_only [OF ex_two_step] served_ok [OF served.start ex_builtins_only [OF ex_two_step]] ph] by blast
  have "nm \<in> {''a'', ''b'', ''old''}" if "map_of (sp_Resources (desired_of (res_core ?rsp))) nm \<noteq> None" for nm
  proof (cases "map_of (c_resources (run_collector ex_two_run)) nm")
    case None
    have "rq_desired (ex_req [ex_there ''a'']) = Some \<lparr>sp_Composite = None, sp_Resources = [(''old'', empty_resource)]\<rparr>"
      by (simp add: ex_req_def)
    with that show ?thesis
      unfolding ran_desired [OF reach acc ex_To] None if_cancel option.case ex_two_usages map_of.simps by (auto split: if_splits)
  next
    case (Some cr)
    then have "nm \<in> set (map fst (c_resources (run_collector ex_two_run)))" by (force dest: map_of_SomeD)
    then show ?thesis unfolding ex_two_fields by auto
  qed
  then have sub: "dom (map_of (sp_Resources (desired_of (res_core ?rsp)))) \<subseteq> dom (map_of (observed_resources (ex_req (map ex_there [''a'', ''b'', ''old'']))))"
    unfolding dom_def ex_there_observed by auto
  have "control_round (ex_fn ex_two) [ex_pair ''b'' ''a''] [''a'', ''b''] (ex_req [ex_there ''a''], ex_fn_state)
      (ex_req (map ex_there [''a'', ''b'', ''old'']), st')"
  proof (rule control_round.round [OF ph ex_two_fields ttl _ _ sub])
    show "RunFunction 1 (ex_fn ex_two) 0 (ex_req [ex_there ''a'']) ex_fn_state = Some (?rsp, st')" unfolding RunFunction_def ph by simp
    show "dom (map_of (observed_resources (ex_req [ex_there ''a'']))) \<subseteq> dom (map_of (observed_resources (ex_req (map ex_there [''a'', ''b'', ''old'']))))"
    proof
      fix x assume "x \<in> dom (map_of (observed_resources (ex_req [ex_there ''a''])))"
      with ex_there_observed [of "[''a'']" x] have "x = ''a''" by (auto split: if_splits)
      then show "x \<in> dom (map_of (observed_resources (ex_req (map ex_there [''a'', ''b'', ''old'']))))"
        unfolding dom_def ex_there_observed by simp
    qed
  qed (use ex_there_observed [of "[''a'', ''b'', ''old'']"] in \<open>auto simp: dep_met_def ex_ready\<close>)
  then show ?thesis by blast
qed


end
