(* ===== verification/CacheTransparency.thy ===== *)
theory CacheTransparency
  imports FunctionRun
begin

text \<open>
  The runtime that requests share, its bytecode cache and its memo of sources without star imports, does not show in
  the answers: two runs of the loader that start in states which differ only in the runtime go in step.
  This is a simulation over the mutually recursive functions of \<^verbatim>\<open>runtime/loader.go\<close>, lifted to \<^verbatim>\<open>RunFunction\<close>.
\<close>

section \<open>Sound runtimes\<close>

text \<open>
  \<open>U\<close> holds the sources with their file names that can come up. A runtime is sound when it answers for each of them
  with what compiling it gives, and remembers only those without star imports.
\<close>

definition star_free :: "'w ModuleLoader \<Rightarrow> string \<Rightarrow> string \<Rightarrow> bool" where
  "star_free ml source filename = (case ml_parse ml filename source of Inl _ \<Rightarrow> True | Inr stmts \<Rightarrow> star_loads stmts = [])"

definition rt_sound :: "'w ModuleLoader \<Rightarrow> (string \<times> string) set \<Rightarrow> 'w Runtime \<Rightarrow> bool" where
  "rt_sound ml U rt \<longleftrightarrow>
     (\<forall>source filename. (source, filename) \<in> U \<longrightarrow>
        (\<forall>prog. rt_cache rt (ip_hash (ml_ip ml) (cache_key source filename)) = Some prog \<longrightarrow>
           ip_compile (ml_ip ml) (ml_predeclared ml) filename source = Inr prog) \<and>
        (hasNoStarImports (starScanKey (ml_ip ml) source filename) rt \<longrightarrow> star_free ml source filename))"

definition no_collisions :: "'w ModuleLoader \<Rightarrow> (string \<times> string) set \<Rightarrow> bool" where
  "no_collisions ml U \<longleftrightarrow> inj_on (\<lambda>(source, filename). ip_hash (ml_ip ml) (cache_key source filename)) U"

lemma rt_sound_New: "rt_sound ml U NewRuntime"
  by (simp add: rt_sound_def NewRuntime_def hasNoStarImports_def)

lemma rt_sound_compile:
  assumes "no_collisions ml U" and "(source, filename) \<in> U" and "rt_sound ml U rt"
  shows "fst (getOrCompile (ml_ip ml) source (ml_predeclared ml) filename rt) =
      ip_compile (ml_ip ml) (ml_predeclared ml) filename source"
    and "rt_sound ml U (snd (getOrCompile (ml_ip ml) source (ml_predeclared ml) filename rt))"
proof -
  let ?key = "\<lambda>s f. ip_hash (ml_ip ml) (cache_key s f)"
  show "fst (getOrCompile (ml_ip ml) source (ml_predeclared ml) filename rt) =
      ip_compile (ml_ip ml) (ml_predeclared ml) filename source"
    using assms(2,3) by (auto simp: rt_sound_def getOrCompile_def Let_def split: option.splits sum.splits)
  have key: "s = source \<and> f = filename" if "(s, f) \<in> U" "?key s f = ?key source filename" for s f
    using inj_onD [OF assms(1) [unfolded no_collisions_def], of "(s, f)" "(source, filename)"] that assms(2) by simp
  show "rt_sound ml U (snd (getOrCompile (ml_ip ml) source (ml_predeclared ml) filename rt))"
    using assms(3) unfolding rt_sound_def
    by (auto simp: getOrCompile_def hasNoStarImports_def Let_def split: option.splits sum.splits if_splits dest: key)
qed

lemma rt_sound_mark:
  assumes "no_collisions ml U" and "(source, filename) \<in> U" and "rt_sound ml U rt" and "star_free ml source filename"
  shows "rt_sound ml U (markNoStarImports (starScanKey (ml_ip ml) source filename) rt)"
proof -
  have key: "s = source \<and> f = filename" if "(s, f) \<in> U" "starScanKey (ml_ip ml) s f = starScanKey (ml_ip ml) source filename" for s f
    using inj_onD [OF assms(1) [unfolded no_collisions_def], of "(s, f)" "(source, filename)"] that assms(2)
    by (simp add: starScanKey_def)
  then show ?thesis using assms(3,4) unfolding rt_sound_def
    by (auto simp: markNoStarImports_def hasNoStarImports_def)
qed

section \<open>States in step\<close>

definition in_step :: "'w ModuleLoader \<Rightarrow> (string \<times> string) set \<Rightarrow> 'w loader_state \<Rightarrow> 'w loader_state \<Rightarrow> bool" where
  "in_step ml U m m' \<longleftrightarrow>
     ms_cache m' = ms_cache m \<and> ms_expanding m' = ms_expanding m \<and> ms_world m' = ms_world m \<and>
     rt_sound ml U (ms_rt m) \<and> rt_sound ml U (ms_rt m')"

text \<open>Both fail to return, or both return the same and are in step again.\<close>

definition agree ::
  "'w ModuleLoader \<Rightarrow> (string \<times> string) set \<Rightarrow> ('r \<times> 'w loader_state) option \<Rightarrow> ('r \<times> 'w loader_state) option \<Rightarrow> bool" where
  "agree ml U = rel_option (rel_prod (=) (in_step ml U))"

lemma agree_simps [simp]:
  "agree ml U None None" "\<not> agree ml U None (Some y)" "\<not> agree ml U (Some x) None"
  "agree ml U (Some (r, m)) (Some (r', m')) \<longleftrightarrow> r = r' \<and> in_step ml U m m'"
  by (simp_all add: agree_def)

lemma agreeE:
  assumes "agree ml U x y"
  obtains (none) "x = None" "y = None"
  | (some) r m m' where "x = Some (r, m)" "y = Some (r, m')" "in_step ml U m m'"
  using assms by (auto simp: agree_def rel_option_iff rel_prod_sel split: option.splits)

lemma in_step_fields:
  "in_step ml U m m' \<Longrightarrow> ms_cache m' = ms_cache m" "in_step ml U m m' \<Longrightarrow> ms_expanding m' = ms_expanding m"
  "in_step ml U m m' \<Longrightarrow> ms_world m' = ms_world m"
  by (simp_all add: in_step_def)

lemma in_step_updates:
  assumes "in_step ml U m m'"
  shows "in_step ml U (m\<lparr>ms_world := w\<rparr>) (m'\<lparr>ms_world := w\<rparr>)"
    and "in_step ml U (m\<lparr>ms_cache := c\<rparr>) (m'\<lparr>ms_cache := c\<rparr>)"
    and "in_step ml U (m\<lparr>ms_expanding := e\<rparr>) (m'\<lparr>ms_expanding := e\<rparr>)"
  using assms by (simp_all add: in_step_def)

lemma in_step_cached:
  assumes "in_step ml U m m'"
  shows "agree ml U (Some (cached key r m)) (Some (cached key r m'))"
  using in_step_updates(2) [OF assms] in_step_fields(1) [OF assms] by (simp add: cached_def)

lemma compile_in_step:
  assumes "no_collisions ml U" and "(source, filename) \<in> U" and "in_step ml U m m'"
  obtains r n n' where "compile_module ml source filename m = (r, n)" "compile_module ml source filename m' = (r, n')" "in_step ml U n n'"
proof -
  have s: "rt_sound ml U (ms_rt m)" "rt_sound ml U (ms_rt m')" using assms(3) by (simp_all add: in_step_def)
  note g = rt_sound_compile [OF assms(1,2) s(1)] rt_sound_compile [OF assms(1,2) s(2)]
  obtain r rt where a: "getOrCompile (ml_ip ml) source (ml_predeclared ml) filename (ms_rt m) = (r, rt)" by force
  obtain r' rt' where b: "getOrCompile (ml_ip ml) source (ml_predeclared ml) filename (ms_rt m') = (r', rt')" by force
  show ?thesis
    by (rule that [of r "m\<lparr>ms_rt := rt\<rparr>" "m'\<lparr>ms_rt := rt'\<rparr>"])
      (use g assms(3) in \<open>simp_all add: compile_module_def a b in_step_def\<close>)
qed

lemma run_program_in_step:
  assumes "\<And>md m m'. in_step ml U m m' \<Longrightarrow> agree ml U (ld md m) (ld md m')"
  shows "in_step ml U m m' \<Longrightarrow> agree ml U (run_program ld ms_world (\<lambda>w m. m\<lparr>ms_world := w\<rparr>) t m)
     (run_program ld ms_world (\<lambda>w m. m\<lparr>ms_world := w\<rparr>) t m')"
proof (induction t arbitrary: m m')
  case (LoadCall md w k)
  have "agree ml U (ld md (m\<lparr>ms_world := w\<rparr>)) (ld md (m'\<lparr>ms_world := w\<rparr>))"
    by (rule assms [OF in_step_updates(1) [OF LoadCall.prems]])
  then show ?case
  proof (cases rule: agreeE)
    case (some res m1 m1')
    with LoadCall.IH [of "k res" "k res (ms_world m1)" "m1" "m1'"] show ?thesis by (auto simp: in_step_fields fun_eq_iff)
  qed simp
qed (simp add: in_step_updates)

section \<open>The loader in step\<close>

text \<open>
  The sources that can come up are closed under what the loader does: the source of every module that can be loaded or
  scanned for its exports is among them, under the name it is compiled with, and so is every expansion.
\<close>

definition covers :: "'w ModuleLoader \<Rightarrow> (string \<times> string) set \<Rightarrow> bool" where
  "covers ml U \<longleftrightarrow>
     (\<forall>thr md target source. dispatch ml thr md = Inr target \<longrightarrow> target_source ml target = Inr source \<longrightarrow>
        (source, key_of target) \<in> U) \<and>
     (\<forall>md source. exports_source ml md = Inr source \<longrightarrow> (source, md) \<in> U) \<and>
     (\<forall>n source filename m source' m'. (source, filename) \<in> U \<longrightarrow>
        ResolveStarImports n ml source filename m = Some (Inr source', m') \<longrightarrow> (source', filename) \<in> U)"

lemma star_loop_in_step:
  assumes "\<And>md m m'. in_step ml U m m' \<Longrightarrow> agree ml U (ex md m) (ex md m')"
  shows "in_step ml U m m' \<Longrightarrow> agree ml U (star_loop ml ex filename ls lines m) (star_loop ml ex filename ls lines m')"
proof (induction ls arbitrary: lines m m')
  case (Cons l ls)
  show ?case
  proof (cases "star_module ml filename (ls_module l)")
    case (Inr p)
    obtain md loadMod where p: "p = (md, loadMod)" by (cases p)
    have "agree ml U (ex md m) (ex md m')" by (rule assms [OF Cons.prems])
    then show ?thesis
    proof (cases rule: agreeE)
      case (some r m1 m1')
      then show ?thesis using Inr p Cons.IH [OF some(3)] by (cases r) (auto split: option.split)
    qed (simp add: Inr p)
  qed (use Cons.prems in simp)
qed simp

lemma star_body_in_step:
  assumes "no_collisions ml U" and "(source, filename) \<in> U" and "in_step ml U m m'"
    and "\<And>md m m'. in_step ml U m m' \<Longrightarrow> agree ml U (ex md m) (ex md m')"
  shows "agree ml U (star_body ml ex source filename m) (star_body ml ex source filename m')"
proof -
  let ?key = "starScanKey (ml_ip ml) source filename"
  note e = in_step_fields(2) [OF assms(3)]
  have sound: "rt_sound ml U (ms_rt m)" "rt_sound ml U (ms_rt m')" using assms(3) by (simp_all add: in_step_def)
  show ?thesis
  proof (cases "ms_expanding m filename")
    case True
    then show ?thesis using assms(3) e by (simp add: star_body_def)
  next
    case expanding: False
    show ?thesis
    proof (cases "star_free ml source filename")
      case True
      have mark: "in_step ml U (m\<lparr>ms_rt := a\<rparr>) (m'\<lparr>ms_rt := b\<rparr>)"
        if "a \<in> {ms_rt m, markNoStarImports ?key (ms_rt m)}" "b \<in> {ms_rt m', markNoStarImports ?key (ms_rt m')}" for a b
        using that assms(3) rt_sound_mark [OF assms(1,2) sound(1) True] rt_sound_mark [OF assms(1,2) sound(2) True]
        by (auto simp: in_step_def)
      have shape: "\<exists>a \<in> {ms_rt n, markNoStarImports ?key (ms_rt n)}. star_body ml ex source filename n = Some (Inr source, n\<lparr>ms_rt := a\<rparr>)" for n
        using True by (auto simp: star_body_def star_free_def Let_def split: sum.splits)
      from shape [of m] shape [of m'] mark show ?thesis by fastforce
    next
      case False
      then have memo: "\<not> hasNoStarImports ?key (ms_rt m)" "\<not> hasNoStarImports ?key (ms_rt m')"
        using sound assms(2) by (auto simp: rt_sound_def)
      from False obtain stmts where p: "ml_parse ml filename source = Inr stmts" "star_loads stmts \<noteq> []"
        by (auto simp: star_free_def split: sum.splits)
      have "agree ml U (star_loop ml ex filename (rev (star_loads stmts)) (split_on (CHR 0x0A) source) (m\<lparr>ms_expanding := (ms_expanding m)(filename := True)\<rparr>))
          (star_loop ml ex filename (rev (star_loads stmts)) (split_on (CHR 0x0A) source) (m'\<lparr>ms_expanding := (ms_expanding m)(filename := True)\<rparr>))"
        by (rule star_loop_in_step [OF assms(4) in_step_updates(3) [OF assms(3)]])
      then show ?thesis
      proof (cases rule: agreeE)
        case (some r m1 m1')
        have "in_step ml U (m1\<lparr>ms_expanding := f\<rparr>) (m1'\<lparr>ms_expanding := f\<rparr>)" for f by (rule in_step_updates(3) [OF some(3)])
        with some in_step_fields(2) [OF some(3)] show ?thesis by (simp add: star_body_def Let_def memo p expanding e)
      qed (simp add: star_body_def Let_def memo p expanding e)
    qed
  qed
qed

lemma run_module_in_step:
  assumes free: "no_collisions ml U" and src: "(source, key) \<in> U" and m: "in_step ml U m m'"
    and star: "\<And>s f m m'. (s, f) \<in> U \<Longrightarrow> in_step ml U m m' \<Longrightarrow> agree ml U (star s f m) (star s f m')"
    and star_U: "\<And>s f m s' m'. (s, f) \<in> U \<Longrightarrow> star s f m = Some (Inr s', m') \<Longrightarrow> (s', f) \<in> U"
    and ld: "\<And>t md m m'. in_step ml U m m' \<Longrightarrow> agree ml U (ld t md m) (ld t md m')"
  shows "agree ml U (run_module ml star ld key source m) (run_module ml star ld key source m')"
  using star [OF src m]
proof (cases rule: agreeE)
  case (some r m1 m1')
  show ?thesis
  proof (cases r)
    case (Inl e)
    with some in_step_cached [OF some(3)] show ?thesis by (simp add: run_module_def)
  next
    case (Inr s1)
    have U: "(s1, key) \<in> U" using star_U [OF src] some(1) Inr by blast
    obtain c m2 m2' where c: "compile_module ml s1 key m1 = (c, m2)" "compile_module ml s1 key m1' = (c, m2')" "in_step ml U m2 m2'"
      by (rule compile_in_step [OF free U some(3)])
    show ?thesis
    proof (cases c)
      case (Inl e)
      with some Inr c in_step_cached [OF c(3)] show ?thesis by (simp add: run_module_def)
    next
      case prog: (Inr prog)
      have "agree ml U (run_program (ld key) ms_world (\<lambda>w m. m\<lparr>ms_world := w\<rparr>) (prog (ms_world m2)) m2)
          (run_program (ld key) ms_world (\<lambda>w m. m\<lparr>ms_world := w\<rparr>) (prog (ms_world m2)) m2')"
        by (rule run_program_in_step [OF ld c(3)])
      then show ?thesis
      proof (cases rule: agreeE)
        case run: (some x m3 m3')
        with some Inr c prog in_step_cached [OF run(3)] in_step_fields(3) [OF c(3)] show ?thesis
          by (cases x) (simp_all add: run_module_def)
      qed (use some Inr c prog in_step_fields(3) [OF c(3)] in \<open>simp add: run_module_def\<close>)
    qed
  qed
qed (simp add: run_module_def)

lemma exports_body_in_step:
  assumes free: "no_collisions ml U" and cov: "covers ml U" and m: "in_step ml U m m'"
    and star: "\<And>s f m m'. (s, f) \<in> U \<Longrightarrow> in_step ml U m m' \<Longrightarrow> agree ml U (star s f m) (star s f m')"
    and star_U: "\<And>s f m s' m'. (s, f) \<in> U \<Longrightarrow> star s f m = Some (Inr s', m') \<Longrightarrow> (s', f) \<in> U"
    and ld: "\<And>t md m m'. in_step ml U m m' \<Longrightarrow> agree ml U (ld t md m) (ld t md m')"
  shows "agree ml U (exports_body ml star ld md m) (exports_body ml star ld md m')"
proof (cases "exports_source ml md")
  case src: (Inr source)
  with cov have U: "(source, md) \<in> U" by (simp add: covers_def)
  from star [OF U m] show ?thesis
  proof (cases rule: agreeE)
    case (some r m1 m1')
    show ?thesis
    proof (cases r)
      case (Inr s1)
      have U1: "(s1, md) \<in> U" using star_U [OF U] some(1) Inr by blast
      obtain c m2 m2' where c: "compile_module ml s1 md m1 = (c, m2)" "compile_module ml s1 md m1' = (c, m2')" "in_step ml U m2 m2'"
        by (rule compile_in_step [OF free U1 some(3)])
      show ?thesis
      proof (cases c)
        case prog: (Inr prog)
        have "agree ml U (run_program (ld (md @ starImportScanSuffix)) ms_world (\<lambda>w m. m\<lparr>ms_world := w\<rparr>) (prog (ms_world m2)) m2)
            (run_program (ld (md @ starImportScanSuffix)) ms_world (\<lambda>w m. m\<lparr>ms_world := w\<rparr>) (prog (ms_world m2)) m2')"
          by (rule run_program_in_step [OF ld c(3)])
        then show ?thesis
        proof (cases rule: agreeE)
          case run: (some x m3 m3')
          with some Inr c prog src in_step_fields(3) [OF c(3)] show ?thesis by (cases x) (simp_all add: exports_body_def)
        qed (use some Inr c prog src in_step_fields(3) [OF c(3)] in \<open>simp add: exports_body_def\<close>)
      qed (use some Inr c src in \<open>simp add: exports_body_def\<close>)
    qed (use some src in \<open>simp add: exports_body_def\<close>)
  qed (simp add: exports_body_def src)
qed (use m in \<open>simp add: exports_body_def\<close>)

lemma load_body_in_step:
  assumes free: "no_collisions ml U" and cov: "covers ml U" and m: "in_step ml U m m'"
    and star: "\<And>s f m m'. (s, f) \<in> U \<Longrightarrow> in_step ml U m m' \<Longrightarrow> agree ml U (star s f m) (star s f m')"
    and star_U: "\<And>s f m s' m'. (s, f) \<in> U \<Longrightarrow> star s f m = Some (Inr s', m') \<Longrightarrow> (s', f) \<in> U"
    and ld: "\<And>t md m m'. in_step ml U m m' \<Longrightarrow> agree ml U (ld t md m) (ld t md m')"
  shows "agree ml U (load_body ml star ld thr md m) (load_body ml star ld thr md m')"
proof (cases "dispatch ml thr md")
  case target: (Inr target)
  show ?thesis
  proof (cases "ms_cache m (key_of target)")
    case (Some e)
    with target in_step_fields(1) [OF m] m show ?thesis by (cases e) (simp_all add: load_body_def)
  next
    case None
    have mk: "in_step ml U (m\<lparr>ms_cache := c\<rparr>) (m'\<lparr>ms_cache := c\<rparr>)" for c by (rule in_step_updates(2) [OF m])
    show ?thesis
    proof (cases "target_source ml target")
      case (Inl e)
      with target None in_step_fields(1) [OF m] in_step_cached [OF mk] show ?thesis by (simp add: load_body_def Let_def)
    next
      case (Inr source)
      with cov target have U: "(source, key_of target) \<in> U" by (auto simp: covers_def)
      have "agree ml U (run_module ml star ld (key_of target) source (m\<lparr>ms_cache := (ms_cache m)(key_of target := Some None)\<rparr>))
          (run_module ml star ld (key_of target) source (m'\<lparr>ms_cache := (ms_cache m)(key_of target := Some None)\<rparr>))"
        by (rule run_module_in_step [OF free U mk star star_U ld])
      with target None Inr in_step_fields(1) [OF m] show ?thesis by (simp add: load_body_def Let_def)
    qed
  qed
qed (use m in \<open>simp add: load_body_def\<close>)

lemma loader_in_step:
  assumes free: "no_collisions ml U" and cov: "covers ml U"
  shows "in_step ml U m m' \<Longrightarrow> agree ml U (load n ml thr md m) (load n ml thr md m')"
    and "(source, filename) \<in> U \<Longrightarrow> in_step ml U m m' \<Longrightarrow>
      agree ml U (ResolveStarImports n ml source filename m) (ResolveStarImports n ml source filename m')"
    and "in_step ml U m m' \<Longrightarrow> agree ml U (getModuleExports n ml md m) (getModuleExports n ml md m')"
proof (induction n arbitrary: thr md m m' source filename)
  case (Suc n)
  have star_U: "(s, f) \<in> U \<Longrightarrow> ResolveStarImports n ml s f m = Some (Inr s', m') \<Longrightarrow> (s', f) \<in> U" for s f m s' m'
    using cov unfolding covers_def by blast
  { case 1
    show ?case unfolding load.simps by (rule load_body_in_step [OF free cov 1 Suc.IH(2) star_U Suc.IH(1)])
  next
    case 2
    show ?case unfolding ResolveStarImports.simps by (rule star_body_in_step [OF free 2 Suc.IH(3)])
  next
    case 3
    show ?case unfolding getModuleExports.simps by (rule exports_body_in_step [OF free cov 3 Suc.IH(2) star_U Suc.IH(1)])
  }
qed simp_all

section \<open>The function in step\<close>

text \<open>The requests \<open>Q\<close> that a process may get, and the sources that come up in them.\<close>

definition covers_requests :: "'r Function \<Rightarrow> RunFunctionRequest set \<Rightarrow> (string \<times> string) set \<Rightarrow> bool" where
  "covers_requests f Q U \<longleftrightarrow>
     (\<forall>req \<in> Q. \<forall>spec source filename. rq_input req = Inr spec \<longrightarrow>
        find_script (env_for f req) spec = Inr (source, filename) \<longrightarrow>
        (source, filename) \<in> U \<and>
        (\<forall>now cache modules cache'.
           module_setup (f_resolver f) (env_for f req) now spec source cache = Inr (modules, cache') \<longrightarrow>
           covers (script_loader f req spec modules) U))"

text \<open>The states of a process that has answered requests from \<open>Q\<close>.\<close>

inductive answered :: "'r Function \<Rightarrow> RunFunctionRequest set \<Rightarrow> function_state \<Rightarrow> bool" for f Q where
  start: "answered f Q (NewFunction policy ttl)"
| request: "answered f Q st \<Longrightarrow> req \<in> Q \<Longrightarrow> RunFunction n f now req st = Some (rsp, st') \<Longrightarrow> answered f Q st'"

text \<open>Soundness does not depend on the request: the interpreter, the predeclared names and the parser are those of the function.\<close>

definition function_rt_sound :: "'r Function \<Rightarrow> (string \<times> string) set \<Rightarrow> ScriptWorld Runtime \<Rightarrow> bool" where
  "function_rt_sound f U rt \<longleftrightarrow> rt_sound ((f_loader f)\<lparr>ml_predeclared := global_names\<rparr>) U rt"

lemma rt_sound_loader:
  "rt_sound (script_loader f req spec modules) U rt = function_rt_sound f U rt"
  "no_collisions (script_loader f req spec modules) U = no_collisions (f_loader f) U"
  by (simp_all add: function_rt_sound_def rt_sound_def no_collisions_def script_loader_def loader_for_def star_free_def)

lemma run_script_in_step:
  assumes free: "no_collisions ml U" and cov: "covers ml U" and src: "(source, filename) \<in> U" and m: "in_step ml U m m'"
  shows "rel_option (rel_prod (=) (\<lambda>rt rt'. rt_sound ml U rt \<and> rt_sound ml U rt'))
     (run_script n ml spec source filename m) (run_script n ml spec source filename m')"
  using loader_in_step(2) [OF free cov src m, of n]
proof (cases rule: agreeE)
  case (some r m1 m1')
  have s1: "rt_sound ml U (ms_rt m1)" "rt_sound ml U (ms_rt m1')" using some(3) by (simp_all add: in_step_def)
  show ?thesis
  proof (cases r)
    case (Inr source')
    with some(1) src cov have U: "(source', filename) \<in> U" unfolding covers_def by blast
    obtain c m2 m2' where c: "compile_module ml source' filename m1 = (c, m2)" "compile_module ml source' filename m1' = (c, m2')"
      "in_step ml U m2 m2'" by (rule compile_in_step [OF free U some(3)])
    obtain rt rt' where g: "getOrCompile (ml_ip ml) source' (ml_predeclared ml) filename (ms_rt m1) = (c, rt)" "m2 = m1\<lparr>ms_rt := rt\<rparr>"
      "getOrCompile (ml_ip ml) source' (ml_predeclared ml) filename (ms_rt m1') = (c, rt')" "m2' = m1'\<lparr>ms_rt := rt'\<rparr>"
      using c(1,2) by (auto simp: compile_module_def split: prod.splits)
    show ?thesis
    proof (cases c)
      case (Inl e)
      with some Inr g c(3) in_step_fields(3) [OF some(3)] show ?thesis
        by (simp add: run_script_def Execute_def in_step_def)
    next
      case prog: (Inr prog)
      have "agree ml U (run_program (load n ml filename) ms_world (\<lambda>w m. m\<lparr>ms_world := w\<rparr>) (prog (ms_world m2)) m2)
          (run_program (load n ml filename) ms_world (\<lambda>w m. m\<lparr>ms_world := w\<rparr>) (prog (ms_world m2)) m2')"
        by (rule run_program_in_step [OF loader_in_step(1) [OF free cov] c(3)])
      then show ?thesis
      proof (cases rule: agreeE)
        case run: (some x m3 m3')
        with some Inr g prog in_step_fields(3) [OF c(3)] in_step_fields(3) [OF run(3)] show ?thesis
          by (simp add: run_script_def Execute_def Let_def in_step_def)
      qed (use some Inr g prog in_step_fields(3) [OF c(3)] in \<open>simp add: run_script_def Execute_def Let_def\<close>)
    qed
  qed (use some s1 in \<open>simp add: run_script_def\<close>)
qed (simp add: run_script_def)

definition twins :: "'r Function \<Rightarrow> (string \<times> string) set \<Rightarrow> function_state \<Rightarrow> function_state \<Rightarrow> bool" where
  "twins f U st st' \<longleftrightarrow>
     fs_ociCache st' = fs_ociCache st \<and> function_rt_sound f U (fs_runtime st) \<and> function_rt_sound f U (fs_runtime st')"

lemma script_phase_in_step:
  assumes "covers_requests f Q U" and "no_collisions (f_loader f) U" and "req \<in> Q" and "twins f U st st'"
  shows "rel_option (rel_prod (=) (twins f U)) (script_phase n f now req st) (script_phase n f now req st')"
proof (cases "\<exists>spec source filename w modules cache. rq_input req = Inr spec \<and> find_script (env_for f req) spec = Inr (source, filename) \<and>
    source \<noteq> [] \<and> script_world req filename = Inr w \<and>
    module_setup (f_resolver f) (env_for f req) now spec source (fs_ociCache st) = Inr (modules, cache)")
  case True
  then obtain spec source filename w modules cache where pre: "rq_input req = Inr spec" "find_script (env_for f req) spec = Inr (source, filename)"
    "source \<noteq> []" "script_world req filename = Inr w"
    "module_setup (f_resolver f) (env_for f req) now spec source (fs_ociCache st) = Inr (modules, cache)" by blast
  let ?ml = "script_loader f req spec modules"
  let ?run = "\<lambda>st. run_script n ?ml spec source filename (NewModuleLoader (fs_runtime st) w)"
  have free: "no_collisions ?ml U" using assms(2) by (simp add: rt_sound_loader)
  have cov: "covers ?ml U" and src: "(source, filename) \<in> U"
    using assms(1,3) pre(1,2,5) unfolding covers_requests_def by blast+
  have m: "in_step ?ml U (NewModuleLoader (fs_runtime st) w) (NewModuleLoader (fs_runtime st') w)"
    using assms(4) by (simp add: in_step_def NewModuleLoader_def rt_sound_loader twins_def)
  have phase: "script_phase n f now req x = map_option (\<lambda>(out, rt). (out, \<lparr>fs_runtime = rt, fs_ociCache = cache\<rparr>)) (?run x)"
    if "fs_ociCache x = fs_ociCache st" for x
    using pre that by (simp add: script_phase_def)
  from run_script_in_step [OF free cov src m, of n spec] phase [of st] phase [of st'] assms(4) show ?thesis
    by (cases "?run st"; cases "?run st'") (auto simp: twins_def rt_sound_loader)
next
  case False
  then show ?thesis using assms(4) by (auto simp: script_phase_def twins_def split: sum.splits if_splits prod.splits)
qed

lemma RunFunction_in_step:
  assumes "covers_requests f Q U" and "no_collisions (f_loader f) U" and "req \<in> Q" and "twins f U st st'"
  shows "rel_option (rel_prod (=) (twins f U)) (RunFunction n f now req st) (RunFunction n f now req st')"
  using script_phase_in_step [OF assms, of n now]
  by (cases "script_phase n f now req st"; cases "script_phase n f now req st'") (auto simp: RunFunction_def)

lemma answered_sound:
  "answered f Q st \<Longrightarrow> covers_requests f Q U \<Longrightarrow> no_collisions (f_loader f) U \<Longrightarrow> function_rt_sound f U (fs_runtime st)"
proof (induction rule: answered.induct)
  case (request st req n now rsp st')
  then have "twins f U st st" by (simp add: twins_def)
  from RunFunction_in_step [OF request.prems request.hyps(2) this, of n now] request.hyps(3)
  show ?case by (simp add: twins_def)
qed (simp add: NewFunction_def function_rt_sound_def rt_sound_New)

section \<open>Properties\<close>

text \<open>
  C16. Answers do not depend on what the process ran before: after any requests, a request is answered, and changes
  the module cache, exactly as by a process whose runtime is new, as long as no two of the sources that can come
  up have the same hash. So neither the bytecode cache nor the memo of sources without star imports ever shows.
\<close>

theorem answers_independent_of_history:
  assumes "answered f Q st" and "req \<in> Q" and "covers_requests f Q U" and "no_collisions (f_loader f) U"
  shows "map_option (\<lambda>(rsp, st'). (rsp, fs_ociCache st')) (RunFunction n f now req st) =
     map_option (\<lambda>(rsp, st'). (rsp, fs_ociCache st')) (RunFunction n f now req (st\<lparr>fs_runtime := NewRuntime\<rparr>))"
proof -
  have "twins f U st (st\<lparr>fs_runtime := NewRuntime\<rparr>)"
    using answered_sound [OF assms(1,3,4)] by (simp add: twins_def function_rt_sound_def rt_sound_New)
  from RunFunction_in_step [OF assms(3,4,2) this, of n now] show ?thesis
    by (cases "RunFunction n f now req st"; cases "RunFunction n f now req (st\<lparr>fs_runtime := NewRuntime\<rparr>)") (auto simp: twins_def)
qed

text \<open>The example: file names without a NUL byte, and a hash that is the identity.\<close>

lemma ex_setup_any: "module_setup ex_resolver (env_for (ex_fn g) (ex_req obs)) now ex_spec ''x'' cache = Inr ([], cache)"
  by (simp add: module_setup_def resolver_for_def default_registry_def ex_spec_def ex_fn_def env_for_def ex_env_def oci_targets_def
      ex_resolver_def ScanForOCILoads_def scanSource_def Let_def dedup_def)

definition ex_universe :: "(string \<times> string) set" where
  "ex_universe = {(source, filename). CHR 0x00 \<notin> set filename}"

lemma ex_no_collisions: "no_collisions (f_loader (ex_fn g)) ex_universe"
  by (auto simp: no_collisions_def ex_universe_def ex_fn_def inj_on_def dest: cache_key_inj)

lemma ex_covers: "covers (script_loader (ex_fn ex_app) (ex_req []) ex_spec []) ex_universe"
proof -
  let ?ml = "script_loader (ex_fn ex_app) (ex_req []) ex_spec []"
  have keys: "CHR 0x00 \<notin> set (key_of target)" if "dispatch ?ml thr md = Inr target" "target_source ?ml target = Inr source" for thr md target source
  proof -
    have "key_of target \<in> set [''/scripts/app/main.star'', ''main.star'']"
      using that ex_fn_keys [of ex_spec] by (auto simp: load_keys_def)
    then show ?thesis by auto
  qed
  have "CHR 0x00 \<notin> set md" if "exports_source ?ml md = Inr source" for md source
    using that
    by (auto simp: exports_source_def script_loader_def loader_for_def search_dirs_def ex_spec_def resolve_source_def env_for_def ex_fn_def
        ex_env_def split: if_splits)
  with keys show ?thesis by (auto simp: covers_def ex_universe_def)
qed

theorem answers_independent_of_history_witness:
  "\<exists>rsp st. RunFunction 1 (ex_fn ex_app) 0 (ex_req []) ex_fn_state = Some (rsp, st) \<and>
     map_option fst (RunFunction 1 (ex_fn ex_app) 0 (ex_req []) st) =
     map_option fst (RunFunction 1 (ex_fn ex_app) 0 (ex_req []) (st\<lparr>fs_runtime := NewRuntime\<rparr>))"
proof -
  obtain st out where "script_phase 1 (ex_fn ex_app) 0 (ex_req []) ex_fn_state = Some (out, st)"
    using ex_phase [of 0 ex_app "[]"] by auto
  then obtain rsp where run: "RunFunction 1 (ex_fn ex_app) 0 (ex_req []) ex_fn_state = Some (rsp, st)" by (simp add: RunFunction_def)
  have script: "f_resolver (ex_fn ex_app) = ex_resolver" "rq_input (ex_req []) = Inr ex_spec"
    "find_script fe ex_spec = Inr (''x'', ''composition.star'')" for fe
    by (simp_all add: ex_fn_def ex_req_def find_script_def ex_spec_def)
  have cov: "covers_requests (ex_fn ex_app) {ex_req []} ex_universe"
    unfolding covers_requests_def using ex_covers by (simp add: script ex_setup_any) (simp add: ex_universe_def)
  have "answered (ex_fn ex_app) {ex_req []} st" using answered.request [OF answered.start _ run] by simp
  from answers_independent_of_history [OF this _ cov ex_no_collisions, of "ex_req []" 1 0]
  have "map_option fst (map_option (\<lambda>(rsp, st'). (rsp, fs_ociCache st')) (RunFunction 1 (ex_fn ex_app) 0 (ex_req []) st)) =
     map_option fst (map_option (\<lambda>(rsp, st'). (rsp, fs_ociCache st')) (RunFunction 1 (ex_fn ex_app) 0 (ex_req []) (st\<lparr>fs_runtime := NewRuntime\<rparr>)))"
    by simp
  with run show ?thesis by (auto simp: option.map_comp comp_def case_prod_beta)
qed

end
