(* ===== verification/Metrics.thy ===== *)
theory Metrics
  imports Prelude
begin

text \<open>
  The Prometheus metrics (\<^verbatim>\<open>metrics/metrics.go\<close>). A counter is a function from its labels, the script and for all but
  the cache metrics also the kind of the composite. Of a histogram the number of observations is kept; durations
  are not modelled. Counting is atomic in the client library.
\<close>

type_synonym script_kind = "string \<times> string"

record metrics =
  ExecutionDurationSeconds :: "script_kind \<Rightarrow> nat"
  ReconciliationDurationSeconds :: "script_kind \<Rightarrow> nat"
  OCIResolveDurationSeconds :: "script_kind \<Rightarrow> nat"
  CacheHitsTotal :: "string \<Rightarrow> nat"
  CacheMissesTotal :: "string \<Rightarrow> nat"
  ResourcesEmittedTotal :: "script_kind \<Rightarrow> nat"
  ResourcesSkippedTotal :: "script_kind \<Rightarrow> nat"
  ReconciliationsTotal :: "script_kind \<Rightarrow> nat"
  ResourcesDeferredTotal :: "script_kind \<Rightarrow> nat"

definition no_metrics :: metrics where
  "no_metrics = \<lparr>ExecutionDurationSeconds = (\<lambda>_. 0), ReconciliationDurationSeconds = (\<lambda>_. 0),
     OCIResolveDurationSeconds = (\<lambda>_. 0), CacheHitsTotal = (\<lambda>_. 0), CacheMissesTotal = (\<lambda>_. 0),
     ResourcesEmittedTotal = (\<lambda>_. 0), ResourcesSkippedTotal = (\<lambda>_. 0), ReconciliationsTotal = (\<lambda>_. 0),
     ResourcesDeferredTotal = (\<lambda>_. 0)\<rparr>"

text \<open>\<^verbatim>\<open>WithLabelValues(l).Add(n)\<close>.\<close>

definition add_at :: "'l \<Rightarrow> nat \<Rightarrow> ('l \<Rightarrow> nat) \<Rightarrow> 'l \<Rightarrow> nat" where
  "add_at l n m = m(l := m l + n)"

lemma add_at_get [simp]: "add_at l n m l' = (if l' = l then m l + n else m l')"
  by (simp add: add_at_def)

end
