(* ===== verification/Concurrency.thy ===== *)
theory Concurrency
  imports ScriptRuntime Metrics
begin

text \<open>
  Requests are served by concurrent goroutines that share one \<^verbatim>\<open>Runtime\<close>. This theory splits \<^verbatim>\<open>getOrCompile\<close>
  (\<^verbatim>\<open>runtime/runtime.go\<close>) at its lock operations and looks at every interleaving of any number of calls:
  accesses to the cache do not race, no call is blocked for ever, each call is answered as if it
  were alone, and the counters of the cache add up. Two locales carry the proofs: \<open>interference\<close> lifts an
  assertion of one thread to all interleavings when the other threads' steps keep it, and \<open>accounting\<close> does
  it for a counter that the threads share.
\<close>

section \<open>Interleaving\<close>

text \<open>
  A thread is a value \<open>'t\<close> (what it was asked and how far it has come), \<open>'s\<close> is what the threads share. \<open>advance\<close> is
  the next atomic step of one thread, \<open>None\<close> when it has returned or is blocked. New threads may
  start at any time.
\<close>

inductive interleave ::
  "('t \<Rightarrow> 's \<Rightarrow> ('t \<times> 's) option) \<Rightarrow> ('t \<Rightarrow> bool) \<Rightarrow> 's \<times> 't list \<Rightarrow> 's \<times> 't list \<Rightarrow> bool"
  for advance :: "'t \<Rightarrow> 's \<Rightarrow> ('t \<times> 's) option" and starts :: "'t \<Rightarrow> bool" where
  turn: "i < length ts \<Longrightarrow> advance (ts ! i) s = Some (t', s') \<Longrightarrow> interleave advance starts (s, ts) (s', ts[i := t'])"
| arrive: "starts t \<Longrightarrow> interleave advance starts (s, ts) (s, ts @ [t])"

inductive_cases interleaveE: "interleave advance starts (s, ts) c"

text \<open>A scheduler, to run interleavings: thread \<open>i\<close> takes a step, or stays where it is when it cannot.\<close>

definition turn_of :: "('t \<Rightarrow> 's \<Rightarrow> ('t \<times> 's) option) \<Rightarrow> nat \<Rightarrow> 's \<times> 't list \<Rightarrow> 's \<times> 't list" where
  "turn_of advance i c =
     (if i < length (snd c) then
        (case advance (snd c ! i) (fst c) of None \<Rightarrow> c | Some (t', s') \<Rightarrow> (s', (snd c)[i := t']))
      else c)"

definition run_schedule :: "('t \<Rightarrow> 's \<Rightarrow> ('t \<times> 's) option) \<Rightarrow> nat list \<Rightarrow> 's \<times> 't list \<Rightarrow> 's \<times> 't list" where
  "run_schedule advance = fold (turn_of advance)"

lemma turn_of_interleaves: "(interleave advance starts)\<^sup>*\<^sup>* c (turn_of advance i c)"
  by (cases c) (auto simp: turn_of_def split: option.splits intro!: r_into_rtranclp turn)

lemma schedule_interleaves: "(interleave advance starts)\<^sup>*\<^sup>* c (run_schedule advance is c)"
proof (induction "is" arbitrary: c)
  case (Cons i "is")
  show ?case using rtranclp_trans [OF turn_of_interleaves Cons.IH] by (simp add: run_schedule_def)
qed (simp add: run_schedule_def)

lemma arrivals: "\<forall>t \<in> set ts. starts t \<Longrightarrow> (interleave advance starts)\<^sup>*\<^sup>* (s, []) (s, ts)"
proof (induction ts rule: rev_induct)
  case (snoc t ts)
  then have "(interleave advance starts)\<^sup>*\<^sup>* (s, []) (s, ts)" "interleave advance starts (s, ts) (s, ts @ [t])"
    by (simp_all add: arrive)
  then show ?case by (rule rtranclp.rtrancl_into_rtrancl)
qed simp

lemma schedule_reached:
  "\<forall>t \<in> set ts. starts t \<Longrightarrow> (interleave advance starts)\<^sup>*\<^sup>* (s, []) (run_schedule advance is (s, ts))"
  by (rule rtranclp_trans [OF arrivals schedule_interleaves])

text \<open>
  Assertions of threads: \<open>inv\<close> speaks about the shared state, \<open>ok\<close> about a thread in it. A thread's own step
  keeps both, and no step spoils the assertion of another thread.
\<close>

locale interference =
  fixes advance :: "'t \<Rightarrow> 's \<Rightarrow> ('t \<times> 's) option" and starts :: "'t \<Rightarrow> bool"
    and inv :: "'s \<Rightarrow> bool" and ok :: "'t \<Rightarrow> 's \<Rightarrow> bool"
  assumes start_ok: "inv s \<Longrightarrow> starts t \<Longrightarrow> ok t s"
    and own_step: "inv s \<Longrightarrow> ok t s \<Longrightarrow> advance t s = Some (t', s') \<Longrightarrow> inv s' \<and> ok t' s'"
    and no_interference: "inv s \<Longrightarrow> ok t s \<Longrightarrow> ok u s \<Longrightarrow> advance t s = Some (t', s') \<Longrightarrow> ok u s'"
begin

definition all_ok :: "'s \<times> 't list \<Rightarrow> bool" where
  "all_ok c \<longleftrightarrow> inv (fst c) \<and> (\<forall>t \<in> set (snd c). ok t (fst c))"

lemma all_ok_step: "interleave advance starts c c' \<Longrightarrow> all_ok c \<Longrightarrow> all_ok c'"
proof (induction rule: interleave.induct)
  case (turn i ts s t' s')
  have th: "ts ! i \<in> set ts" using turn.hyps(1) by simp
  show ?case using turn.prems own_step [OF _ _ turn.hyps(2)] no_interference [OF _ _ _ turn.hyps(2)] th
    by (auto simp: all_ok_def dest!: set_update_subset_insert [THEN subsetD])
next
  case (arrive t s ts)
  then show ?case by (auto simp: all_ok_def start_ok)
qed

lemma reachable_ok:
  assumes "(interleave advance starts)\<^sup>*\<^sup>* (s0, []) (s, ts)" and "inv s0"
  shows "inv s" and "t \<in> set ts \<Longrightarrow> ok t s"
proof -
  have "all_ok (s, ts)" using assms(1)
    by (induction rule: rtranclp_induct) (auto simp: all_ok_def assms(2) dest: all_ok_step)
  then show "inv s" and "t \<in> set ts \<Longrightarrow> ok t s" by (simp_all add: all_ok_def)
qed

end

text \<open>A shared number to which every thread has contributed its weight.\<close>

lemma sum_list_map_update:
  "i < length ts \<Longrightarrow> sum_list (map w (ts[i := t])) + w (ts ! i) = sum_list (map w ts) + (w t :: nat)"
proof (induction ts arbitrary: i)
  case (Cons x ts)
  then show ?case by (cases i) auto
qed simp

locale accounting =
  fixes advance :: "'t \<Rightarrow> 's \<Rightarrow> ('t \<times> 's) option" and starts :: "'t \<Rightarrow> bool"
    and total :: "'s \<Rightarrow> nat" and weight :: "'t \<Rightarrow> nat"
  assumes start_weight: "starts t \<Longrightarrow> weight t = 0"
    and balance: "advance t s = Some (t', s') \<Longrightarrow> total s' + weight t = total s + weight t'"
begin

lemma balanced_step:
  "interleave advance starts c c' \<Longrightarrow> total (fst c) = sum_list (map weight (snd c)) \<Longrightarrow>
     total (fst c') = sum_list (map weight (snd c'))"
proof (induction rule: interleave.induct)
  case (turn i ts s t' s')
  then show ?case using balance [OF turn.hyps(2)] sum_list_map_update [OF turn.hyps(1), of weight t'] by simp
qed (simp add: start_weight)

lemma balanced:
  assumes "(interleave advance starts)\<^sup>*\<^sup>* (s0, []) (s, ts)" and "total s0 = 0"
  shows "total s = sum_list (map weight ts)"
proof -
  have "total (fst (s, ts)) = sum_list (map weight (snd (s, ts)))" using assms(1)
    by (induction rule: rtranclp_induct) (auto simp: assms(2) dest: balanced_step)
  then show ?thesis by simp
qed

end

section \<open>The read-write lock\<close>

text \<open>
  \<^verbatim>\<open>sync.RWMutex\<close>: readers are admitted while no writer holds the lock or waits for it, a writer when nobody
  holds it. Releasing a lock that is not held is a fatal error; here it has no next state.
\<close>

record RWMutex =
  rw_readers :: nat
  rw_waiting :: nat
  rw_writers :: nat

definition RLock :: "RWMutex \<Rightarrow> RWMutex option" where
  "RLock mu = (if rw_writers mu = 0 \<and> rw_waiting mu = 0 then Some (mu\<lparr>rw_readers := rw_readers mu + 1\<rparr>) else None)"

definition RUnlock :: "RWMutex \<Rightarrow> RWMutex option" where
  "RUnlock mu = (if rw_readers mu = 0 then None else Some (mu\<lparr>rw_readers := rw_readers mu - 1\<rparr>))"

definition announce :: "RWMutex \<Rightarrow> RWMutex" where
  "announce mu = mu\<lparr>rw_waiting := rw_waiting mu + 1\<rparr>"

definition acquire :: "RWMutex \<Rightarrow> RWMutex option" where
  "acquire mu =
     (if rw_readers mu = 0 \<and> rw_writers mu = 0 \<and> rw_waiting mu \<noteq> 0
      then Some (mu\<lparr>rw_waiting := rw_waiting mu - 1, rw_writers := 1\<rparr>) else None)"

definition Unlock :: "RWMutex \<Rightarrow> RWMutex option" where
  "Unlock mu = (if rw_writers mu = 0 then None else Some (mu\<lparr>rw_writers := rw_writers mu - 1\<rparr>))"

lemmas rwmutex_defs = RLock_def RUnlock_def announce_def acquire_def Unlock_def

section \<open>Concurrent calls of getOrCompile\<close>

record request =
  rq_source :: string
  rq_predeclared :: "string list"
  rq_filename :: string

text \<open>
  Where a call is: before the read lock, inside it, compiling (without a lock), waiting for the
  write lock, inside it, counting a hit or a miss, or back with its result.
\<close>

datatype 'w phase =
    Entered
  | Reading
  | Compiling
  | Compiled "'w program"
  | Waiting "'w program"
  | Writing "'w program"
  | Counting bool "'w program"
  | Returned "string + 'w program"

type_synonym 'w call = "request \<times> 'w phase"

text \<open>What the calls share: the runtime with its lock, and the metrics.\<close>

record 'w shared =
  sh_runtime :: "'w Runtime"
  sh_mu :: RWMutex
  sh_metrics :: metrics

definition fresh_shared :: "'w shared" where
  "fresh_shared = \<lparr>sh_runtime = NewRuntime, sh_mu = \<lparr>rw_readers = 0, rw_waiting = 0, rw_writers = 0\<rparr>,
     sh_metrics = no_metrics\<rparr>"

definition request_key :: "'w interpreter \<Rightarrow> request \<Rightarrow> string" where
  "request_key ip rq = ip_hash ip (cache_key (rq_source rq) (rq_filename rq))"

definition request_answer :: "'w interpreter \<Rightarrow> request \<Rightarrow> string + 'w program" where
  "request_answer ip rq = ip_compile ip (rq_predeclared rq) (rq_filename rq) (rq_source rq)"

definition read_cache :: "'w interpreter \<Rightarrow> request \<Rightarrow> 'w Runtime \<Rightarrow> 'w phase" where
  "read_cache ip rq rt = (case rt_cache rt (request_key ip rq) of Some prog \<Rightarrow> Counting True prog | None \<Rightarrow> Compiling)"

definition write_cache :: "'w interpreter \<Rightarrow> request \<Rightarrow> 'w program \<Rightarrow> 'w Runtime \<Rightarrow> 'w Runtime" where
  "write_cache ip rq prog rt = rt\<lparr>rt_cache := (rt_cache rt)(request_key ip rq := Some prog)\<rparr>"

definition count_cache :: "bool \<Rightarrow> string \<Rightarrow> 'w shared \<Rightarrow> 'w shared" where
  "count_cache hit filename sh =
     (let M = sh_metrics sh in
      sh\<lparr>sh_metrics :=
        (if hit then M\<lparr>CacheHitsTotal := add_at filename 1 (CacheHitsTotal M)\<rparr>
         else M\<lparr>CacheMissesTotal := add_at filename 1 (CacheMissesTotal M)\<rparr>)\<rparr>)"

text \<open>\<^verbatim>\<open>getOrCompile\<close>, one atomic step at a time; \<open>with_mu\<close> blocks when the lock operation does.\<close>

definition with_mu :: "RWMutex option \<Rightarrow> 'w shared \<Rightarrow> 'w shared option" where
  "with_mu mu sh = map_option (\<lambda>mu. sh\<lparr>sh_mu := mu\<rparr>) mu"

fun getOrCompile_step :: "'w interpreter \<Rightarrow> 'w call \<Rightarrow> 'w shared \<Rightarrow> ('w call \<times> 'w shared) option" where
  "getOrCompile_step ip (rq, Entered) sh = map_option (\<lambda>sh. ((rq, Reading), sh)) (with_mu (RLock (sh_mu sh)) sh)"
| "getOrCompile_step ip (rq, Reading) sh =
     map_option (\<lambda>sh. ((rq, read_cache ip rq (sh_runtime sh)), sh)) (with_mu (RUnlock (sh_mu sh)) sh)"
| "getOrCompile_step ip (rq, Compiling) sh =
     Some ((rq, case request_answer ip rq of Inl e \<Rightarrow> Returned (Inl e) | Inr prog \<Rightarrow> Compiled prog), sh)"
| "getOrCompile_step ip (rq, Compiled prog) sh =
     Some ((rq, Waiting prog), sh\<lparr>sh_mu := announce (sh_mu sh)\<rparr>)"
| "getOrCompile_step ip (rq, Waiting prog) sh = map_option (\<lambda>sh. ((rq, Writing prog), sh)) (with_mu (acquire (sh_mu sh)) sh)"
| "getOrCompile_step ip (rq, Writing prog) sh =
     map_option (\<lambda>sh'. ((rq, Counting False prog), sh'\<lparr>sh_runtime := write_cache ip rq prog (sh_runtime sh)\<rparr>))
       (with_mu (Unlock (sh_mu sh)) sh)"
| "getOrCompile_step ip (rq, Counting hit prog) sh =
     Some ((rq, Returned (Inr prog)), count_cache hit (rq_filename rq) sh)"
| "getOrCompile_step ip (rq, Returned r) sh = None"

definition enters :: "request set \<Rightarrow> 'w call \<Rightarrow> bool" where
  "enters R t \<longleftrightarrow> fst t \<in> R \<and> snd t = Entered"

text \<open>The configurations that the calls for requests in \<open>R\<close> can reach from the start of the process.\<close>

definition reachable :: "'w interpreter \<Rightarrow> request set \<Rightarrow> 'w shared \<Rightarrow> 'w call list \<Rightarrow> bool" where
  "reachable ip R sh ts \<longleftrightarrow> (interleave (getOrCompile_step ip) (enters R))\<^sup>*\<^sup>* (fresh_shared, []) (sh, ts)"

section \<open>A call that is alone\<close>

text \<open>Without other calls, at most seven steps of a call are exactly \<open>getOrCompile\<close>.\<close>

lemma turn_of_single:
  "turn_of advance 0 (s, [t]) = (case advance t s of None \<Rightarrow> (s, [t]) | Some (t', s') \<Rightarrow> (s', [t']))"
  by (auto simp: turn_of_def split: option.splits)

lemma getOrCompile_alone:
  assumes "sh_mu sh = \<lparr>rw_readers = 0, rw_waiting = 0, rw_writers = 0\<rparr>"
  shows "\<exists>sh'. run_schedule (getOrCompile_step ip) (replicate 7 0) (sh, [(rq, Entered)]) =
      (sh', [(rq, Returned (fst (getOrCompile ip (rq_source rq) (rq_predeclared rq) (rq_filename rq) (sh_runtime sh))))]) \<and>
     sh_runtime sh' = snd (getOrCompile ip (rq_source rq) (rq_predeclared rq) (rq_filename rq) (sh_runtime sh)) \<and>
     sh_mu sh' = sh_mu sh"
proof (cases "rt_cache (sh_runtime sh) (request_key ip rq)")
  case None
  then show ?thesis using assms
    by (cases "request_answer ip rq")
      (simp_all add: run_schedule_def turn_of_single numeral_eq_Suc with_mu_def rwmutex_defs read_cache_def write_cache_def
        request_answer_def count_cache_def getOrCompile_def request_key_def Let_def)
next
  case (Some prog)
  then show ?thesis using assms
    by (simp add: run_schedule_def turn_of_single numeral_eq_Suc with_mu_def rwmutex_defs read_cache_def
        count_cache_def getOrCompile_def request_key_def Let_def)
qed

section \<open>Books of the lock and the counters\<close>

fun is_reading :: "'w call \<Rightarrow> bool" where
  "is_reading (rq, Reading) = True"
| "is_reading (rq, _) = False"

fun is_waiting :: "'w call \<Rightarrow> bool" where
  "is_waiting (rq, Waiting prog) = True"
| "is_waiting (rq, _) = False"

fun is_writing :: "'w call \<Rightarrow> bool" where
  "is_writing (rq, Writing prog) = True"
| "is_writing (rq, _) = False"

fun is_returned :: "'w call \<Rightarrow> bool" where
  "is_returned (rq, Returned r) = True"
| "is_returned (rq, _) = False"

fun is_served :: "string \<Rightarrow> 'w call \<Rightarrow> bool" where
  "is_served filename (rq, Returned (Inr prog)) = (rq_filename rq = filename)"
| "is_served filename (rq, _) = False"

lemmas step_defs = with_mu_def rwmutex_defs read_cache_def write_cache_def count_cache_def no_metrics_def Let_def

lemma step_cases:
  assumes "getOrCompile_step ip t sh = Some (t', sh')"
  obtains (enter) rq where "t = (rq, Entered)" "t' = (rq, Reading)" "rw_writers (sh_mu sh) = 0" "rw_waiting (sh_mu sh) = 0"
      "sh' = sh\<lparr>sh_mu := (sh_mu sh)\<lparr>rw_readers := rw_readers (sh_mu sh) + 1\<rparr>\<rparr>"
  | (hit) rq prog where "t = (rq, Reading)" "rt_cache (sh_runtime sh) (request_key ip rq) = Some prog"
      "t' = (rq, Counting True prog)" "rw_readers (sh_mu sh) \<noteq> 0"
      "sh' = sh\<lparr>sh_mu := (sh_mu sh)\<lparr>rw_readers := rw_readers (sh_mu sh) - 1\<rparr>\<rparr>"
  | (miss) rq where "t = (rq, Reading)" "rt_cache (sh_runtime sh) (request_key ip rq) = None"
      "t' = (rq, Compiling)" "rw_readers (sh_mu sh) \<noteq> 0"
      "sh' = sh\<lparr>sh_mu := (sh_mu sh)\<lparr>rw_readers := rw_readers (sh_mu sh) - 1\<rparr>\<rparr>"
  | (compile_error) rq e where "t = (rq, Compiling)" "request_answer ip rq = Inl e" "t' = (rq, Returned (Inl e))" "sh' = sh"
  | (compile) rq prog where "t = (rq, Compiling)" "request_answer ip rq = Inr prog" "t' = (rq, Compiled prog)" "sh' = sh"
  | (wait) rq prog where "t = (rq, Compiled prog)" "t' = (rq, Waiting prog)"
      "sh' = sh\<lparr>sh_mu := (sh_mu sh)\<lparr>rw_waiting := rw_waiting (sh_mu sh) + 1\<rparr>\<rparr>"
  | (lock) rq prog where "t = (rq, Waiting prog)" "t' = (rq, Writing prog)" "rw_readers (sh_mu sh) = 0"
      "rw_writers (sh_mu sh) = 0" "rw_waiting (sh_mu sh) \<noteq> 0"
      "sh' = sh\<lparr>sh_mu := (sh_mu sh)\<lparr>rw_waiting := rw_waiting (sh_mu sh) - 1, rw_writers := 1\<rparr>\<rparr>"
  | (store) rq prog where "t = (rq, Writing prog)" "t' = (rq, Counting False prog)" "rw_writers (sh_mu sh) \<noteq> 0"
      "sh' = sh\<lparr>sh_mu := (sh_mu sh)\<lparr>rw_writers := rw_writers (sh_mu sh) - 1\<rparr>,
         sh_runtime := write_cache ip rq prog (sh_runtime sh)\<rparr>"
  | (count) rq b prog where "t = (rq, Counting b prog)" "t' = (rq, Returned (Inr prog))"
      "sh' = count_cache b (rq_filename rq) sh"
  using assms
  by (cases "(ip, t, sh)" rule: getOrCompile_step.cases)
    (auto simp: with_mu_def rwmutex_defs read_cache_def split: if_splits option.splits sum.splits)

lemma enters_weights:
  assumes "enters R t"
  shows "\<not> is_reading t" "\<not> is_waiting t" "\<not> is_writing t" "\<not> is_served filename t"
  using assms by (cases t; simp add: enters_def)+

lemma count_cache_fields [simp]:
  "sh_mu (count_cache b f sh) = sh_mu sh" "sh_runtime (count_cache b f sh) = sh_runtime sh"
  by (simp_all add: count_cache_def Let_def)

interpretation readers: accounting "getOrCompile_step ip" "enters R" "\<lambda>sh. rw_readers (sh_mu sh)" "\<lambda>t. of_bool (is_reading t)" for ip R
  by unfold_locales (auto simp: enters_weights elim!: step_cases)

interpretation waiters: accounting "getOrCompile_step ip" "enters R" "\<lambda>sh. rw_waiting (sh_mu sh)" "\<lambda>t. of_bool (is_waiting t)" for ip R
  by unfold_locales (auto simp: enters_weights elim!: step_cases)

interpretation writers: accounting "getOrCompile_step ip" "enters R" "\<lambda>sh. rw_writers (sh_mu sh)" "\<lambda>t. of_bool (is_writing t)" for ip R
  by unfold_locales (auto simp: enters_weights elim!: step_cases)

interpretation served: accounting "getOrCompile_step ip" "enters R"
  "\<lambda>sh. CacheHitsTotal (sh_metrics sh) filename + CacheMissesTotal (sh_metrics sh) filename" "\<lambda>t. of_bool (is_served filename t)" for ip R filename
  by unfold_locales (auto simp: enters_weights count_cache_def Let_def elim!: step_cases)

lemma sum_list_of_bool_zero: "sum_list (map (\<lambda>t. of_bool (p t)) ts) = (0::nat) \<longleftrightarrow> (\<forall>t \<in> set ts. \<not> p t)"
  by (induction ts) auto

lemma sum_list_of_bool_length: "sum_list (map (\<lambda>t. of_bool (p t)) ts) = length (filter p ts)"
  by (induction ts) auto

lemma sum_list_two:
  assumes "i < length ts" and "j < length ts" and "i \<noteq> j"
  shows "w (ts ! i) + w (ts ! j) \<le> sum_list (map w ts :: nat list)"
proof -
  have "w (ts ! i) + w (ts ! j) = (\<Sum>k \<in> {i, j}. w (ts ! k))" using assms(3) by simp
  also have "\<dots> \<le> (\<Sum>k < length ts. w (ts ! k))" using assms by (intro sum_mono2) auto
  finally show ?thesis by (simp add: sum_list_sum_nth atLeast0LessThan)
qed

lemma reachable_books:
  assumes "reachable ip R sh ts"
  shows "rw_readers (sh_mu sh) = length (filter is_reading ts)"
    and "rw_waiting (sh_mu sh) = length (filter is_waiting ts)"
    and "rw_writers (sh_mu sh) = length (filter is_writing ts)"
    and "CacheHitsTotal (sh_metrics sh) filename + CacheMissesTotal (sh_metrics sh) filename = length (filter (is_served filename) ts)"
  using readers.balanced [OF assms [unfolded reachable_def]] waiters.balanced [OF assms [unfolded reachable_def]]
    writers.balanced [OF assms [unfolded reachable_def]] served.balanced [OF assms [unfolded reachable_def], of filename]
  by (simp_all add: fresh_shared_def no_metrics_def sum_list_of_bool_length)

section \<open>The lock excludes\<close>

definition exclusive :: "'w shared \<Rightarrow> bool" where
  "exclusive sh \<longleftrightarrow> rw_writers (sh_mu sh) \<le> 1 \<and> (rw_writers (sh_mu sh) = 0 \<or> rw_readers (sh_mu sh) = 0)"

interpretation exclusion: interference "getOrCompile_step ip" "enters R" exclusive "\<lambda>_ _. True" for ip R
  by unfold_locales (auto simp: exclusive_def elim!: step_cases)

section \<open>Every call is answered with its own program\<close>

text \<open>Every cached program answers some request under its key, and a call carries the answer to its own request.\<close>

definition cache_answers :: "'w interpreter \<Rightarrow> request set \<Rightarrow> 'w shared \<Rightarrow> bool" where
  "cache_answers ip R sh \<longleftrightarrow>
     (\<forall>key prog. rt_cache (sh_runtime sh) key = Some prog \<longrightarrow>
        (\<exists>rq \<in> R. key = request_key ip rq \<and> request_answer ip rq = Inr prog))"

fun call_answers :: "'w interpreter \<Rightarrow> request set \<Rightarrow> 'w call \<Rightarrow> bool" where
  "call_answers ip R (rq, Compiled prog) = (rq \<in> R \<and> request_answer ip rq = Inr prog)"
| "call_answers ip R (rq, Waiting prog) = (rq \<in> R \<and> request_answer ip rq = Inr prog)"
| "call_answers ip R (rq, Writing prog) = (rq \<in> R \<and> request_answer ip rq = Inr prog)"
| "call_answers ip R (rq, Counting b prog) = (rq \<in> R \<and> request_answer ip rq = Inr prog)"
| "call_answers ip R (rq, Returned r) = (rq \<in> R \<and> r = request_answer ip rq)"
| "call_answers ip R (rq, _) = (rq \<in> R)"

lemma cache_answers_hit:
  "inj_on (request_key ip) R \<Longrightarrow> cache_answers ip R sh \<Longrightarrow> rq \<in> R \<Longrightarrow>
     rt_cache (sh_runtime sh) (request_key ip rq) = Some prog \<Longrightarrow> request_answer ip rq = Inr prog"
  unfolding cache_answers_def by (metis inj_onD)

lemma answers_interference:
  assumes "inj_on (request_key ip) R"
  shows "interference (getOrCompile_step ip) (enters R) (cache_answers ip R) (\<lambda>t _. call_answers ip R t)"
proof
  show "call_answers ip R t" if "enters R t" for t using that by (cases t) (simp add: enters_def)
  show "cache_answers ip R sh' \<and> call_answers ip R t'"
    if "cache_answers ip R sh" "call_answers ip R t" "getOrCompile_step ip t sh = Some (t', sh')" for sh sh' t t'
    using that(3)
  proof (cases rule: step_cases)
    case (hit rq prog)
    then show ?thesis using that(1,2) cache_answers_hit [OF assms that(1)] by (simp add: cache_answers_def)
  next
    case (store rq prog)
    then show ?thesis using that(1,2) by (auto simp: cache_answers_def write_cache_def)
  qed (use that(1,2) in \<open>auto simp: cache_answers_def\<close>)
qed simp

section \<open>Steps that remain\<close>

fun steps_left :: "'w phase \<Rightarrow> nat" where
  "steps_left Entered = 7"
| "steps_left Reading = 6"
| "steps_left Compiling = 5"
| "steps_left (Compiled prog) = 4"
| "steps_left (Waiting prog) = 3"
| "steps_left (Writing prog) = 2"
| "steps_left (Counting b prog) = 1"
| "steps_left (Returned r) = 0"

definition work_left :: "'w shared \<times> 'w call list \<Rightarrow> nat" where
  "work_left c = sum_list (map (steps_left \<circ> snd) (snd c))"

text \<open>Steps of the calls there are, without new arrivals.\<close>

definition proceeds :: "'w interpreter \<Rightarrow> 'w shared \<times> 'w call list \<Rightarrow> 'w shared \<times> 'w call list \<Rightarrow> bool" where
  "proceeds ip = interleave (getOrCompile_step ip) (\<lambda>_. False)"

lemma step_decreases:
  assumes "getOrCompile_step ip t sh = Some (t', sh')"
  shows "steps_left (snd t') < steps_left (snd t)"
  using assms by (cases rule: step_cases) simp_all

lemma proceeds_decreases: "proceeds ip c c' \<Longrightarrow> work_left c' < work_left c"
  unfolding proceeds_def
proof (induction rule: interleave.induct)
  case (turn i ts sh t' sh')
  show ?case using step_decreases [OF turn.hyps(2)] sum_list_map_update [OF turn.hyps(1), of "steps_left \<circ> snd" t']
    by (simp add: work_left_def)
qed simp

lemma proceeds_reachable: "(proceeds ip)\<^sup>*\<^sup>* (sh, ts) (sh', ts') \<Longrightarrow> reachable ip R sh ts \<Longrightarrow> reachable ip R sh' ts'"
proof -
  have "interleave (getOrCompile_step ip) (enters R) c c'" if "proceeds ip c c'" for c c'
    using that unfolding proceeds_def by (cases rule: interleave.cases) (auto intro: turn)
  then have "(proceeds ip)\<^sup>*\<^sup>* c c' \<Longrightarrow> (interleave (getOrCompile_step ip) (enters R))\<^sup>*\<^sup>* c c'" for c c'
    by (metis mono_rtranclp)
  then show "(proceeds ip)\<^sup>*\<^sup>* (sh, ts) (sh', ts') \<Longrightarrow> reachable ip R sh ts \<Longrightarrow> reachable ip R sh' ts'"
    unfolding reachable_def by (blast intro: rtranclp_trans)
qed

lemma proceeds_bounded: "(proceeds ip ^^ n) c c' \<Longrightarrow> n + work_left c' \<le> work_left c"
proof (induction n arbitrary: c')
  case (Suc n)
  then obtain d where "(proceeds ip ^^ n) c d" "proceeds ip d c'" by auto
  with Suc.IH [of d] proceeds_decreases [of ip d c'] show ?case by linarith
qed simp

lemma steps_left_le: "steps_left p \<le> 7"
  by (cases p) simp_all

lemma work_left_le: "work_left (sh, ts) \<le> 7 * length ts"
  unfolding work_left_def by (induction ts) (auto intro: add_mono steps_left_le)

lemma someone_steps:
  assumes "reachable ip R sh ts" and "t \<in> set ts" and "\<not> is_returned t"
  shows "\<exists>u \<in> set ts. getOrCompile_step ip u sh \<noteq> None"
proof -
  note books = reachable_books [OF assms(1)]
  show ?thesis
  proof (cases "\<exists>u \<in> set ts. is_writing u \<or> is_reading u")
    case True
    then obtain u where u: "u \<in> set ts" "is_writing u \<or> is_reading u" by blast
    then have "is_writing u \<Longrightarrow> rw_writers (sh_mu sh) \<noteq> 0" "is_reading u \<Longrightarrow> rw_readers (sh_mu sh) \<noteq> 0"
      unfolding books by (auto simp: filter_empty_conv)
    with u(2) have "getOrCompile_step ip u sh \<noteq> None"
      by (cases u; cases "snd u") (auto simp: with_mu_def rwmutex_defs)
    with u(1) show ?thesis by blast
  next
    case False
    then have free: "rw_readers (sh_mu sh) = 0" "rw_writers (sh_mu sh) = 0" unfolding books by (auto simp: filter_empty_conv)
    show ?thesis
    proof (cases "\<exists>u \<in> set ts. is_waiting u")
      case True
      then obtain u where u: "u \<in> set ts" "is_waiting u" by blast
      then have "rw_waiting (sh_mu sh) \<noteq> 0" unfolding books by (auto simp: filter_empty_conv)
      with u(2) free have "getOrCompile_step ip u sh \<noteq> None" by (cases u; cases "snd u") (auto simp: with_mu_def rwmutex_defs)
      with u(1) show ?thesis by blast
    next
      case nobody: False
      then have "rw_waiting (sh_mu sh) = 0" unfolding books by (auto simp: filter_empty_conv)
      with free assms(2,3) False nobody have "getOrCompile_step ip t sh \<noteq> None"
        by (cases t; cases "snd t") (auto simp: with_mu_def rwmutex_defs)
      with assms(2) show ?thesis by blast
    qed
  qed
qed

text \<open>A small process for examples: two calls for one script and one for another.\<close>

definition ex_ip :: "unit interpreter" where
  "ex_ip = \<lparr>ip_compile = (\<lambda>_ f s. if s = [] then Inl f else Inr (Halt (EndOk []))), ip_hash = (\<lambda>s. s)\<rparr>"

definition ex_requests :: "request list" where
  "ex_requests = [\<lparr>rq_source = ''x'', rq_predeclared = [], rq_filename = ''a''\<rparr>,
     \<lparr>rq_source = ''x'', rq_predeclared = [], rq_filename = ''a''\<rparr>, \<lparr>rq_source = [], rq_predeclared = [], rq_filename = ''b''\<rparr>]"

definition ex_config :: "nat list \<Rightarrow> unit shared \<times> unit call list" where
  "ex_config is = run_schedule (getOrCompile_step ex_ip) is (fresh_shared, map (\<lambda>rq. (rq, Entered)) ex_requests)"

lemma ex_reachable: "reachable ex_ip (set ex_requests) (fst (ex_config is)) (snd (ex_config is))"
  unfolding ex_config_def reachable_def prod.collapse by (rule schedule_reached) (simp add: enters_def)

lemmas ex_eval = ex_config_def ex_ip_def ex_requests_def run_schedule_def turn_of_def fresh_shared_def NewRuntime_def step_defs
  request_key_def request_answer_def cache_key_def

section \<open>Properties\<close>

text \<open>
  Concurrent requests do not race on the bytecode cache: in every interleaving, while one call of
  \<^verbatim>\<open>getOrCompile\<close> is between taking and releasing the write lock, no other call reads or writes the cache.
\<close>

theorem cache_accesses_exclusive:
  assumes "reachable ip R sh ts" and "i < length ts" and "j < length ts" and "i \<noteq> j" and "is_writing (ts ! i)"
  shows "\<not> is_writing (ts ! j) \<and> \<not> is_reading (ts ! j)"
proof -
  have excl: "exclusive sh"
    using exclusion.reachable_ok(1) [OF assms(1) [unfolded reachable_def]] by (simp add: exclusive_def fresh_shared_def)
  have "rw_writers (sh_mu sh) \<noteq> 0" unfolding reachable_books [OF assms(1)] using assms(2,5) by (auto simp: filter_empty_conv)
  with excl have one: "length (filter is_writing ts) \<le> 1" "filter is_reading ts = []"
    by (auto simp: exclusive_def reachable_books [OF assms(1)])
  have "\<not> is_writing (ts ! j)"
    using sum_list_two [OF assms(2-4), of "\<lambda>t. of_bool (is_writing t)"] one(1) assms(5)
    by (auto simp: sum_list_of_bool_length)
  with one(2) assms(3) show ?thesis by (auto simp: filter_empty_conv)
qed

text \<open>
  C17. Concurrent requests are answered as if each were alone: whatever the interleaving, a call that has
  returned carries what compiling its own source gives, as long as different requests have different cache keys.
\<close>

theorem concurrent_answers_correct:
  assumes "inj_on (request_key ip) R" and "reachable ip R sh ts" and "(rq, Returned res) \<in> set ts"
  shows "res = ip_compile ip (rq_predeclared rq) (rq_filename rq) (rq_source rq)"
proof -
  have "cache_answers ip R fresh_shared" by (simp add: cache_answers_def fresh_shared_def NewRuntime_def)
  from interference.reachable_ok(2) [OF answers_interference [OF assms(1)] assms(2) [unfolded reachable_def] this assms(3)]
  show ?thesis by (simp add: request_answer_def)
qed

theorem concurrent_answers_correct_witness:
  "\<exists>res. (ex_requests ! 1, Returned res) \<in> set (snd (ex_config [0, 0, 0, 0, 0, 0, 0, 1, 1, 1])) \<and>
     res = ip_compile ex_ip [] ''a'' ''x''"
proof -
  have "inj_on (request_key ex_ip) (set ex_requests)"
    by (simp add: ex_requests_def ex_ip_def request_key_def cache_key_def)
  moreover have "(ex_requests ! 1, Returned (Inr (Halt (EndOk [])))) \<in> set (snd (ex_config [0, 0, 0, 0, 0, 0, 0, 1, 1, 1]))"
    by (simp add: ex_eval)
  ultimately show ?thesis using concurrent_answers_correct [OF _ ex_reachable, of "ex_requests ! 1"]
    by (intro exI conjI) (assumption, simp add: ex_requests_def)
qed

text \<open>
  C19. Concurrent requests do not block each other for ever: however \<open>n\<close> calls are scheduled, they take at most
  \<open>7 n\<close> steps together, and as long as one of them has not returned, one of them can take a step.
\<close>

theorem concurrent_calls_return:
  assumes "reachable ip R sh ts" and "(proceeds ip ^^ n) (sh, ts) (sh', ts')"
  shows "n \<le> 7 * length ts \<and> ((\<exists>c. proceeds ip (sh', ts') c) \<or> (\<forall>t \<in> set ts'. \<exists>res. snd t = Returned res))"
proof -
  have bound: "n \<le> 7 * length ts" using proceeds_bounded [OF assms(2)] work_left_le [of sh ts] by linarith
  have reach: "reachable ip R sh' ts'" using proceeds_reachable assms by (metis relpowp_imp_rtranclp)
  have "\<exists>c. proceeds ip (sh', ts') c" if "t \<in> set ts'" "\<not> is_returned t" for t
    using someone_steps [OF reach that] unfolding proceeds_def by (metis in_set_conv_nth not_None_eq surj_pair turn)
  moreover have "is_returned t \<Longrightarrow> \<exists>res. snd t = Returned res" for t :: "'a call" by (cases t; cases "snd t") auto
  ultimately show ?thesis using bound by blast
qed

theorem concurrent_calls_return_witness:
  "\<exists>c. proceeds ex_ip (ex_config [0, 1, 2]) c"
proof -
  have "(proceeds ex_ip ^^ 0) (fst (ex_config [0, 1, 2]), snd (ex_config [0, 1, 2])) (fst (ex_config [0, 1, 2]), snd (ex_config [0, 1, 2]))"
    by simp
  from concurrent_calls_return [OF ex_reachable this]
  have "(\<exists>c. proceeds ex_ip (ex_config [0, 1, 2]) c) \<or> (\<forall>t \<in> set (snd (ex_config [0, 1, 2])). \<exists>res. snd t = Returned res)"
    by (simp only: prod.collapse)
  moreover have "(ex_requests ! 0, Reading) \<in> set (snd (ex_config [0, 1, 2]))" by (simp add: ex_eval)
  ultimately show ?thesis by fastforce
qed

text \<open>
  The metrics of the bytecode cache add up: at any moment, hits and misses of a script are together the calls
  for that script that have returned a program.
\<close>

theorem cache_metrics_add_up:
  assumes "reachable ip R sh ts"
  shows "CacheHitsTotal (sh_metrics sh) filename + CacheMissesTotal (sh_metrics sh) filename = length (filter (is_served filename) ts)"
  by (rule reachable_books(4) [OF assms])

end
