(* ===== verification/SharedCache.thy ===== *)
theory SharedCache
  imports Concurrency OciResolver
begin

text \<open>
  The module cache under concurrent resolutions: \<^verbatim>\<open>resolveRef\<close> (\<^verbatim>\<open>runtime/oci/resolver.go\<close>) split at its cache operations, each of
  which takes the lock of the cache for its whole duration (\<^verbatim>\<open>runtime/oci/cache.go\<close>). Between them, other resolutions
  may change the cache and the registry may move tags. The locale \<open>interference\<close> gives that no
  interleaving lets a reference be answered with the files of another one, or leaves a tag without content.
\<close>

section \<open>The steps of resolveRef\<close>

text \<open>The reference and the keychain for the registry, or why the reference is not valid.\<close>

definition registry_ref :: "Resolver \<Rightarrow> string \<Rightarrow> string + (oci_name \<times> bool) \<times> keychain" where
  "registry_ref rv refStr =
     (case ParseReference (rv_lib rv) refStr False of
        Inl e \<Rightarrow> Inl (''parsing OCI reference '' @ go_quote refStr @ '': '' @ e)
      | Inr ref \<Rightarrow>
          let insecure = (nm_RegistryStr ref \<in> set (rv_insecureRegs rv)) in
          (case (if insecure then ParseReference (rv_lib rv) refStr True else Inr ref) of
             Inl e \<Rightarrow> Inl (''parsing insecure OCI reference '' @ go_quote refStr @ '': '' @ e)
           | Inr ref \<Rightarrow> Inr ((ref, insecure), if insecure then MultiKeychain [] else rv_keychain rv)))"

text \<open>
  A call, with the registry as it answers this call and the times of its lookup and of its
  \<^verbatim>\<open>PutTag\<close>. Both are arbitrary for each call: the registry and the clock move as they like.
\<close>

record resolve_call =
  rc_resolver :: Resolver
  rc_refStr :: string
  rc_target :: OCILoadTarget
  rc_looked :: int
  rc_stored :: int

text \<open>How far a call has come; \<open>stale\<close> is what the tag lookup gave.\<close>

datatype resolve_phase =
    Looking
  | Pinned "files option"
  | Asking "files option"
  | Checking "files option" string
  | Fetching "files option"
  | Storing string files
  | Tagging string files
  | Resolved "string + files"

definition ask_head :: "resolve_call \<Rightarrow> files option \<Rightarrow> resolve_phase" where
  "ask_head rc stale =
     (case registry_ref (rc_resolver rc) (rc_refStr rc) of
        Inl e \<Rightarrow> Resolved (Inl e)
      | Inr (ref, kc) \<Rightarrow>
          (case stale of
             None \<Rightarrow> Fetching stale
           | Some _ \<Rightarrow>
               (case Head (rv_fetcher (rc_resolver rc)) ref kc of
                  Inl _ \<Rightarrow> Fetching stale
                | Inr digestStr \<Rightarrow> Checking stale digestStr)))"

definition ask_fetch :: "resolve_call \<Rightarrow> files option \<Rightarrow> resolve_phase" where
  "ask_fetch rc stale =
     (case registry_ref (rc_resolver rc) (rc_refStr rc) of
        Inl e \<Rightarrow> Resolved (Inl e)
      | Inr (ref, kc) \<Rightarrow>
          (case Fetch (rv_fetcher (rc_resolver rc)) ref kc of
             Inl e \<Rightarrow>
               (case stale of
                  Some fs \<Rightarrow> Resolved (Inr fs)
                | None \<Rightarrow> Resolved (Inl (''fetching OCI artifact '' @ rc_refStr rc @ '': '' @ e)))
           | Inr img \<Rightarrow>
               (case extractStarFiles (rv_codecs (rc_resolver rc)) img (rc_refStr rc) of
                  Inl e \<Rightarrow> Resolved (Inl e)
                | Inr extracted \<Rightarrow>
                    (case im_Digest img of
                       Inl e \<Rightarrow> Resolved (Inl (''getting digest for '' @ rc_refStr rc @ '': '' @ e))
                     | Inr digest \<Rightarrow> Storing digest extracted))))"

fun resolveRef_step ::
  "resolve_call \<times> resolve_phase \<Rightarrow> Cache \<Rightarrow> ((resolve_call \<times> resolve_phase) \<times> Cache) option" where
  "resolveRef_step (rc, Looking) c =
     Some ((rc, case GetByTag (rc_looked rc) (rc_refStr rc) c of
                  (Some fs, True) \<Rightarrow> Resolved (Inr fs)
                | (stale, _) \<Rightarrow> Pinned stale), c)"
| "resolveRef_step (rc, Pinned stale) c =
     Some ((rc, case (if Digest (rc_target rc) \<noteq> [] then GetByDigest (Digest (rc_target rc)) c else None) of
                  Some df \<Rightarrow> Resolved (Inr df)
                | None \<Rightarrow> Asking stale), c)"
| "resolveRef_step (rc, Asking stale) c = Some ((rc, ask_head rc stale), c)"
| "resolveRef_step (rc, Checking stale digestStr) c =
     Some ((rc, case GetByDigest digestStr c of Some cached \<Rightarrow> Tagging digestStr cached | None \<Rightarrow> Fetching stale), c)"
| "resolveRef_step (rc, Fetching stale) c = Some ((rc, ask_fetch rc stale), c)"
| "resolveRef_step (rc, Storing digest extracted) c =
     Some ((rc, Tagging digest extracted), PutContent digest extracted c)"
| "resolveRef_step (rc, Tagging digest fs) c =
     Some ((rc, Resolved (Inr fs)), PutTag (rc_stored rc) (rc_refStr rc) digest c)"
| "resolveRef_step (rc, Resolved r) c = None"

section \<open>A resolution that is alone\<close>

lemma resolveRef_registry_ref:
  "resolveRef rv now refStr target c =
     (case GetByTag now refStr c of
        (Some fs, True) \<Rightarrow> (Inr fs, c)
      | (stale, _) \<Rightarrow>
          (case (if Digest target \<noteq> [] then GetByDigest (Digest target) c else None) of
             Some df \<Rightarrow> (Inr df, c)
           | None \<Rightarrow>
               (case registry_ref rv refStr of
                  Inl e \<Rightarrow> (Inl e, c)
                | Inr (ref, kc) \<Rightarrow> ask_registry rv now refStr ref kc stale c)))"
  unfolding resolveRef_def registry_ref_def Let_def
  by (auto split: prod.splits option.splits bool.splits sum.splits)

text \<open>A call that takes its steps alone: each phase leads to the next one, and at the end it stays.\<close>

definition alone :: "nat \<Rightarrow> resolve_call \<Rightarrow> resolve_phase \<Rightarrow> Cache \<Rightarrow> Cache \<times> (resolve_call \<times> resolve_phase) list" where
  "alone n rc p c = run_schedule resolveRef_step (replicate n 0) (c, [(rc, p)])"

lemma alone_Resolved [simp]: "alone n rc (Resolved r) c = (c, [(rc, Resolved r)])"
  by (induction n) (simp_all add: alone_def run_schedule_def turn_of_single)

lemma alone_Suc:
  "alone (Suc n) rc p c = (case resolveRef_step (rc, p) c of None \<Rightarrow> alone n rc p c | Some ((_, p'), c') \<Rightarrow> alone n rc p' c')"
  by (cases p) (simp_all add: alone_def run_schedule_def turn_of_single)

definition ended :: "resolve_call \<Rightarrow> (string + files) \<times> Cache \<Rightarrow> Cache \<times> (resolve_call \<times> resolve_phase) list" where
  "ended rc r = (snd r, [(rc, Resolved (fst r))])"

lemma alone_Storing:
  "alone (Suc (Suc n)) rc (Storing d fs) c =
     ended rc (Inr fs, PutTag (rc_stored rc) (rc_refStr rc) d (PutContent d fs c))"
  by (simp add: alone_Suc ended_def)

lemma alone_Fetching:
  "registry_ref (rc_resolver rc) (rc_refStr rc) = Inr (ref, kc) \<Longrightarrow> rc_stored rc = now \<Longrightarrow>
     alone (Suc (Suc (Suc n))) rc (Fetching stale) c =
     ended rc (fetch_ref (rc_resolver rc) now (rc_refStr rc) ref kc stale c)"
  using alone_Storing [of n rc]
  by (simp add: alone_Suc [of "Suc (Suc n)"] ask_fetch_def fetch_ref_def store_image_def ended_def split: option.split sum.split)

lemma alone_Asking:
  assumes "registry_ref (rc_resolver rc) (rc_refStr rc) = Inr (ref, kc)" and "rc_stored rc = now"
  shows "alone (Suc (Suc (Suc (Suc (Suc n))))) rc (Asking stale) c =
     ended rc (ask_registry (rc_resolver rc) now (rc_refStr rc) ref kc stale c)"
proof (cases "\<exists>fs d. stale = Some fs \<and> Head (rv_fetcher (rc_resolver rc)) ref kc = Inr d")
  case True
  then obtain fs d where "stale = Some fs" "Head (rv_fetcher (rc_resolver rc)) ref kc = Inr d" by blast
  then show ?thesis using assms alone_Fetching [OF assms, of n]
    by (cases "GetByDigest d c") (simp_all add: alone_Suc [of "Suc (Suc (Suc (Suc n)))"] alone_Suc [of "Suc (Suc (Suc n))"]
        alone_Suc [of "Suc (Suc n)"] ask_head_def ask_registry_def head_ref_def ended_def)
next
  case False
  then have "ask_head rc stale = Fetching stale" "head_ref (rc_resolver rc) now (rc_refStr rc) ref kc stale c = None"
    using assms(1) by (auto simp: ask_head_def head_ref_def split: option.split sum.split)
  then show ?thesis using alone_Fetching [OF assms, of "Suc n"]
    by (simp add: alone_Suc [of "Suc (Suc (Suc (Suc n)))"] ask_registry_def)
qed

text \<open>Without other calls, the steps are exactly \<open>resolveRef\<close>.\<close>

lemma resolveRef_alone:
  assumes "rc_looked rc = now" and "rc_stored rc = now"
  shows "alone 7 rc Looking c = ended rc (resolveRef (rc_resolver rc) now (rc_refStr rc) (rc_target rc) c)"
proof -
  have seven: "7 = Suc (Suc (Suc (Suc (Suc (Suc (Suc 0))))))" by simp
  have ask: "alone (Suc (Suc (Suc (Suc (Suc 0))))) rc (Asking stale) c =
     ended rc (case registry_ref (rc_resolver rc) (rc_refStr rc) of Inl e \<Rightarrow> (Inl e, c)
       | Inr (ref, kc) \<Rightarrow> ask_registry (rc_resolver rc) now (rc_refStr rc) ref kc stale c)" for stale
  proof (cases "registry_ref (rc_resolver rc) (rc_refStr rc)")
    case (Inl e)
    then show ?thesis by (simp add: alone_Suc [of "Suc (Suc (Suc (Suc 0)))"] ask_head_def ended_def)
  next
    case (Inr rk)
    then show ?thesis using alone_Asking [of rc, OF _ assms(2)] by (cases rk) simp
  qed
  show ?thesis unfolding resolveRef_registry_ref seven
    by (simp add: alone_Suc [of "Suc (Suc (Suc (Suc (Suc (Suc 0)))))"] alone_Suc [of "Suc (Suc (Suc (Suc (Suc 0))))"]
        assms ask ended_def split: prod.split option.split bool.split)
qed
section \<open>No interference\<close>

text \<open>
  What is known of the registry: \<open>world\<close> gives the files of each digest, \<open>announced\<close> the digests that a reference has had at
  some time. A resolver vouches for them when its answers are among these.
\<close>

definition vouches :: "(string \<Rightarrow> files option) \<Rightarrow> (string \<Rightarrow> string \<Rightarrow> bool) \<Rightarrow> Resolver \<Rightarrow> bool" where
  "vouches world announced rv \<longleftrightarrow>
     (\<forall>refStr ref kc. registry_ref rv refStr = Inr (ref, kc) \<longrightarrow>
        (\<forall>d. Head (rv_fetcher rv) ref kc = Inr d \<longrightarrow> announced refStr d) \<and>
        (\<forall>img d fs. Fetch (rv_fetcher rv) ref kc = Inr img \<longrightarrow> im_Digest img = Inr d \<longrightarrow>
           extractStarFiles (rv_codecs rv) img refStr = Inr fs \<longrightarrow> announced refStr d \<and> world d = Some fs))"

text \<open>The files of an artifact that the reference stood for, or of the digest it is pinned to.\<close>

definition belongs :: "(string \<Rightarrow> files option) \<Rightarrow> (string \<Rightarrow> string \<Rightarrow> bool) \<Rightarrow> resolve_call \<Rightarrow> files \<Rightarrow> bool" where
  "belongs world announced rc fs \<longleftrightarrow>
     (\<exists>d. world d = Some fs \<and> (announced (rc_refStr rc) d \<or> Digest (rc_target rc) \<noteq> [] \<and> d = Digest (rc_target rc)))"

definition tags_backed :: "(string \<Rightarrow> files option) \<Rightarrow> (string \<Rightarrow> string \<Rightarrow> bool) \<Rightarrow> Cache \<Rightarrow> bool" where
  "tags_backed world announced c \<longleftrightarrow>
     cs.agrees world c \<and>
     (\<forall>ref te. ca_tags c ref = Some te \<longrightarrow> announced ref (te_digest te) \<and> GetByDigest (te_digest te) c \<noteq> None)"

fun phase_ok ::
  "(string \<Rightarrow> files option) \<Rightarrow> (string \<Rightarrow> string \<Rightarrow> bool) \<Rightarrow> resolve_call \<Rightarrow> resolve_phase \<Rightarrow> Cache \<Rightarrow> bool" where
  "phase_ok world announced rc Looking c = True"
| "phase_ok world announced rc (Pinned stale) c = pred_option (belongs world announced rc) stale"
| "phase_ok world announced rc (Asking stale) c = pred_option (belongs world announced rc) stale"
| "phase_ok world announced rc (Checking stale d) c =
     (pred_option (belongs world announced rc) stale \<and> announced (rc_refStr rc) d)"
| "phase_ok world announced rc (Fetching stale) c = pred_option (belongs world announced rc) stale"
| "phase_ok world announced rc (Storing d fs) c = (announced (rc_refStr rc) d \<and> world d = Some fs)"
| "phase_ok world announced rc (Tagging d fs) c =
     (announced (rc_refStr rc) d \<and> world d = Some fs \<and> GetByDigest d c \<noteq> None)"
| "phase_ok world announced rc (Resolved r) c = (case r of Inl _ \<Rightarrow> True | Inr fs \<Rightarrow> belongs world announced rc fs)"

definition resolve_ok ::
  "(string \<Rightarrow> files option) \<Rightarrow> (string \<Rightarrow> string \<Rightarrow> bool) \<Rightarrow> resolve_call \<times> resolve_phase \<Rightarrow> Cache \<Rightarrow> bool" where
  "resolve_ok world announced t c \<longleftrightarrow>
     vouches world announced (rc_resolver (fst t)) \<and> phase_ok world announced (fst t) (snd t) c"

definition resolve_starts ::
  "(string \<Rightarrow> files option) \<Rightarrow> (string \<Rightarrow> string \<Rightarrow> bool) \<Rightarrow> resolve_call \<times> resolve_phase \<Rightarrow> bool" where
  "resolve_starts world announced t \<longleftrightarrow> vouches world announced (rc_resolver (fst t)) \<and> snd t = Looking"

lemma tags_backed_lookup:
  "tags_backed world announced c \<Longrightarrow> GetByTag now (rc_refStr rc) c = (Some fs, b) \<Longrightarrow> belongs world announced rc fs"
  unfolding tags_backed_def belongs_def GetByTag_Some_iff by (metis cs.agrees_lookup)

lemma pinned_belongs:
  "tags_backed world announced c \<Longrightarrow> Digest (rc_target rc) \<noteq> [] \<Longrightarrow> GetByDigest (Digest (rc_target rc)) c = Some fs \<Longrightarrow>
     belongs world announced rc fs"
  unfolding tags_backed_def belongs_def by (metis cs.agrees_lookup)

lemma tags_backed_PutContent:
  assumes "tags_backed world announced c" and "world d = Some fs"
  shows "tags_backed world announced (PutContent d fs c)"
  using assms cs.agrees_insert [of world c d fs] cs.insert_immutable [of _ c _ d fs]
  unfolding tags_backed_def by fastforce

lemma tags_backed_PutTag:
  "tags_backed world announced c \<Longrightarrow> announced ref d \<Longrightarrow> GetByDigest d c \<noteq> None \<Longrightarrow>
     tags_backed world announced (PutTag now ref d c)"
  by (auto simp: tags_backed_def cs.agrees_def)

lemma ask_head_ok:
  "vouches world announced (rc_resolver rc) \<Longrightarrow> pred_option (belongs world announced rc) stale \<Longrightarrow>
     phase_ok world announced rc (ask_head rc stale) c"
  by (auto simp: ask_head_def vouches_def split: sum.split option.split)

lemma ask_fetch_ok:
  "vouches world announced (rc_resolver rc) \<Longrightarrow> pred_option (belongs world announced rc) stale \<Longrightarrow>
     phase_ok world announced rc (ask_fetch rc stale) c"
  by (auto simp: ask_fetch_def vouches_def split: sum.split option.split)

lemma contents_kept:
  "resolveRef_step t c = Some (t', c') \<Longrightarrow> GetByDigest d c \<noteq> None \<Longrightarrow> GetByDigest d c' \<noteq> None"
  using cs.insert_immutable
  by (cases "(t, c)" rule: resolveRef_step.cases) auto

lemma phase_ok_kept:
  "phase_ok world announced rc p c \<Longrightarrow> resolveRef_step t c = Some (t', c') \<Longrightarrow> phase_ok world announced rc p c'"
  by (cases p) (simp_all add: contents_kept)

lemma resolve_own_step:
  assumes "tags_backed world announced c" and "resolve_ok world announced t c" and "resolveRef_step t c = Some (t', c')"
  shows "tags_backed world announced c' \<and> resolve_ok world announced t' c'"
proof -
  obtain rc p where t: "t = (rc, p)" by (cases t)
  note ok = assms(2) [unfolded t resolve_ok_def, simplified]
  show ?thesis
  proof (cases p)
    case Looking
    with assms t ok tags_backed_lookup [OF assms(1), of _ rc] show ?thesis
      by (auto simp: resolve_ok_def GetByTag_None_iff split: prod.splits option.splits bool.splits)
  next
    case (Pinned stale)
    with assms t ok pinned_belongs [OF assms(1)] show ?thesis
      by (auto simp: resolve_ok_def split: option.splits if_splits)
  next
    case (Asking stale)
    with assms t ok show ?thesis by (auto simp: resolve_ok_def ask_head_ok)
  next
    case (Checking stale d)
    with assms t ok cs.agrees_lookup [of world c] show ?thesis
      by (auto simp: resolve_ok_def tags_backed_def split: option.splits)
  next
    case (Fetching stale)
    with assms t ok show ?thesis by (auto simp: resolve_ok_def ask_fetch_ok)
  next
    case (Storing d fs)
    with assms t ok cs.lookup_inserted [of d fs c] show ?thesis
      by (auto simp: resolve_ok_def tags_backed_PutContent)
  next
    case (Tagging d fs)
    with assms t ok show ?thesis by (auto simp: resolve_ok_def belongs_def tags_backed_PutTag)
  next
    case (Resolved r)
    with assms t show ?thesis by simp
  qed
qed

interpretation resolutions: interference resolveRef_step "resolve_starts world announced" "tags_backed world announced"
  "resolve_ok world announced" for world announced
proof
  show "resolve_ok world announced t c" if "resolve_starts world announced t" for t c
    using that by (simp add: resolve_starts_def resolve_ok_def)
  show "tags_backed world announced c' \<and> resolve_ok world announced t' c'"
    if "tags_backed world announced c" "resolve_ok world announced t c" "resolveRef_step t c = Some (t', c')" for c t t' c'
    using resolve_own_step [OF that] .
  show "resolve_ok world announced u c'"
    if "resolve_ok world announced u c" "resolveRef_step t c = Some (t', c')" for c t u t' c'
    using that phase_ok_kept unfolding resolve_ok_def by blast
qed

lemma tags_backed_NewCache: "tags_backed world announced (NewCache policy ttl)"
  by (simp add: tags_backed_def NewCache_def cs.agrees_def GetByDigest_def)

section \<open>Properties\<close>

text \<open>
  C18. Concurrent resolutions share the module cache safely: in every interleaving of calls of \<^verbatim>\<open>resolveRef\<close> with
  registries that answer with digests and contents of their own, a call returns only files of an
  artifact its reference has stood for or is pinned to, and every tag in the cache has its content there.
\<close>

theorem concurrent_resolutions_sound:
  assumes "(interleave resolveRef_step (resolve_starts world announced))\<^sup>*\<^sup>* (NewCache policy ttl, []) (c, ts)"
  shows "(\<forall>rc fs. (rc, Resolved (Inr fs)) \<in> set ts \<longrightarrow> belongs world announced rc fs) \<and>
     (\<forall>ref te. ca_tags c ref = Some te \<longrightarrow> GetByDigest (te_digest te) c \<noteq> None)"
  using resolutions.reachable_ok [OF assms tags_backed_NewCache]
  by (fastforce simp: resolve_ok_def tags_backed_def)

text \<open>Two resolutions of one tag in lockstep: both find the cache empty, both fetch and store.\<close>

definition ex_call :: resolve_call where
  "ex_call = \<lparr>rc_resolver = ex_resolver, rc_refStr = ''ghcr.io/org/mod:v1'', rc_target = ex_target ''a.star'', rc_looked = 0, rc_stored = 1\<rparr>"

lemma ex_asks:
  "ask_head ex_call None = Fetching None" "ask_fetch ex_call None = Storing ''sha256:00'' ex_files"
proof -
  have ref: "\<exists>ref kc. registry_ref ex_resolver ''ghcr.io/org/mod:v1'' = Inr (ref, kc)"
    by (auto simp: registry_ref_def ex_resolver_def ex_name_pkg_def Let_def ex_name_def)
  then show "ask_head ex_call None = Fetching None" by (auto simp: ask_head_def ex_call_def)
  show "ask_fetch ex_call None = Storing ''sha256:00'' ex_files"
    using ref ex_extract by (auto simp: ask_fetch_def ex_call_def ex_fetch)
qed

lemma ex_steps:
  "resolveRef_step (ex_call, Looking) (NewCache policy ttl) = Some ((ex_call, Pinned None), NewCache policy ttl)"
  "resolveRef_step (ex_call, Pinned None) c = Some ((ex_call, Asking None), c)"
  by (simp_all add: GetByTag_def NewCache_def) (simp add: ex_call_def ex_target_def)

theorem concurrent_resolutions_sound_witness:
  "\<exists>c. (interleave resolveRef_step (resolve_starts [''sha256:00'' \<mapsto> ex_files] (\<lambda>_ d. d = ''sha256:00'')))\<^sup>*\<^sup>*
       (NewCache PullAlways 10, []) (c, [(ex_call, Resolved (Inr ex_files)), (ex_call, Resolved (Inr ex_files))]) \<and>
     belongs [''sha256:00'' \<mapsto> ex_files] (\<lambda>_ d. d = ''sha256:00'') ex_call ex_files"
proof -
  let ?starts = "resolve_starts [''sha256:00'' \<mapsto> ex_files] (\<lambda>_ d. d = ''sha256:00'')"
  have "vouches [''sha256:00'' \<mapsto> ex_files] (\<lambda>_ d. d = ''sha256:00'') ex_resolver"
    unfolding vouches_def ex_fetch using ex_extract by (simp add: ex_fetch) (simp add: ex_resolver_def)
  then have start: "?starts (ex_call, Looking)" by (simp add: resolve_starts_def ex_call_def)
  then have run: "(interleave resolveRef_step ?starts)\<^sup>*\<^sup>* (NewCache PullAlways 10, [])
      (run_schedule resolveRef_step [0, 1, 0, 1, 0, 1, 0, 1, 0, 1, 0, 1] (NewCache PullAlways 10, [(ex_call, Looking), (ex_call, Looking)]))"
    by (intro schedule_reached) simp
  moreover have "snd (run_schedule resolveRef_step [0, 1, 0, 1, 0, 1, 0, 1, 0, 1, 0, 1]
      (NewCache PullAlways 10, [(ex_call, Looking), (ex_call, Looking)])) =
    [(ex_call, Resolved (Inr ex_files)), (ex_call, Resolved (Inr ex_files))]"
    by (simp add: run_schedule_def turn_of_def ex_steps ex_asks del: resolveRef_step.simps(1,2))
  ultimately obtain c where c: "(interleave resolveRef_step ?starts)\<^sup>*\<^sup>* (NewCache PullAlways 10, [])
      (c, [(ex_call, Resolved (Inr ex_files)), (ex_call, Resolved (Inr ex_files))])"
    by (metis prod.collapse)
  then show ?thesis using concurrent_resolutions_sound [OF c] by auto
qed

end
