(* ===== verification/ValueMethods.thy ===== *)
theory ValueMethods
  imports Collector
begin

text \<open>
  What the interpreter asks of the program's own values beside reading and writing: attributes, iteration, printing and
  comparison of dict objects, mutable structs, schemas, fields, gates and handles. Printing and comparing values of
  the language are parameters.
\<close>

section \<open>Handles and gates\<close>

definition AttrNames_ref :: "string list" where
  "AttrNames_ref = [''name'']"

definition show_bool :: "bool \<Rightarrow> string" where
  "show_bool b = (if b then ''True'' else ''False'')"

fun when_String :: "sval \<Rightarrow> string" where
  "when_String (SWhen cond reason keep opt) =
     ''When('' @ show_bool cond @ '', '' @ go_quote reason @ '', keep_if_exists='' @ show_bool keep @ '', optional='' @ show_bool opt @ '')''"
| "when_String _ = []"

definition when_AttrNames :: "string list" where
  "when_AttrNames = [''condition'', ''keep_if_exists'', ''optional'', ''reason'']"

text \<open>\<^const>\<open>None\<close> is the nil that makes the interpreter report an unknown attribute.\<close>

fun when_Attr :: "sval \<Rightarrow> string \<Rightarrow> sval option" where
  "when_Attr (SWhen cond reason keep opt) nm =
     (if nm = ''condition'' then Some (SBool cond)
      else if nm = ''keep_if_exists'' then Some (SBool keep)
      else if nm = ''optional'' then Some (SBool opt)
      else if nm = ''reason'' then Some (SString reason)
      else None)"
| "when_Attr _ nm = None"

section \<open>Schemas and fields\<close>

definition schema_String :: "schema \<Rightarrow> string" where
  "schema_String s = ''<schema '' @ schema_name s @ ''>''"

definition schema_AttrNames :: "string list" where
  "schema_AttrNames = [''doc'', ''fields'', ''name'']"

definition schema_Attr :: "schema \<Rightarrow> string \<Rightarrow> sval option" where
  "schema_Attr s nm =
     (if nm = ''name'' then Some (SString (schema_name s))
      else if nm = ''doc'' then Some (SString (schema_doc s))
      else if nm = ''fields'' then
        Some (SDict False (dict_update [] (map (\<lambda>(fname, fd). (SString fname, SField fd)) (schema_fields s))))
      else None)"

definition field_type :: "FieldDescriptor \<Rightarrow> string" where
  "field_type fd = (case fd_schema fd of Some s \<Rightarrow> schema_name s | None \<Rightarrow> fd_typeName fd)"

definition field_parts :: "(sval \<Rightarrow> string) \<Rightarrow> FieldDescriptor \<Rightarrow> string list" where
  "field_parts repr fd =
     (if field_type fd \<noteq> [] \<or> fd_schema fd \<noteq> None then [''type='' @ field_type fd] else []) @
     (case fd_items fd of None \<Rightarrow> [] | Some s \<Rightarrow> [''items='' @ schema_name s]) @
     (if fd_required fd then [''required''] else []) @
     (if fd_defVal fd \<noteq> SNone then [''default='' @ repr (fd_defVal fd)] else []) @
     (case fd_enum fd of None \<Rightarrow> [] | Some vs \<Rightarrow> [''enum='' @ repr (SList False vs)])"

definition field_String :: "(sval \<Rightarrow> string) \<Rightarrow> FieldDescriptor \<Rightarrow> string" where
  "field_String repr fd =
     (if field_parts repr fd = [] then ''<field>'' else ''<field '' @ join '' '' (field_parts repr fd) @ ''>'')"

definition field_AttrNames :: "string list" where
  "field_AttrNames = [''default'', ''doc'', ''enum'', ''required'', ''type'']"

definition field_Attr :: "FieldDescriptor \<Rightarrow> string \<Rightarrow> sval option" where
  "field_Attr fd nm =
     (if nm = ''type'' then Some (SString (field_type fd))
      else if nm = ''required'' then Some (SBool (fd_required fd))
      else if nm = ''default'' then Some (fd_defVal fd)
      else if nm = ''enum'' then Some (case fd_enum fd of Some vs \<Rightarrow> SList False vs | None \<Rightarrow> SNone)
      else if nm = ''doc'' then Some (SString (fd_doc fd))
      else None)"

text \<open>Freezing a field freezes its default and its enum, not the schemas it refers to.\<close>

definition field_Freeze :: "FieldDescriptor \<Rightarrow> FieldDescriptor" where
  "field_Freeze fd =
     FieldDescriptor (fd_typeName fd) (fd_schema fd) (fd_items fd) (fd_required fd) (freeze (fd_defVal fd))
       (map_option (map freeze) (fd_enum fd)) (fd_doc fd)"

definition schema_Freeze :: "schema \<Rightarrow> schema" where
  "schema_Freeze s =
     Schema (schema_id s) (schema_name s) (schema_doc s) (map (\<lambda>(nm, fd). (nm, field_Freeze fd)) (schema_fields s))"

section \<open>Dict objects\<close>

text \<open>The operators of comparisons; \<open>dict_compare\<close> is the comparison of plain dicts, \<open>dict_string\<close> their printing.\<close>

datatype comparison = EQL | NEQ | LT | LE | GT | GE

fun op_String :: "comparison \<Rightarrow> string" where
  "op_String EQL = ''==''"
| "op_String NEQ = ''!=''"
| "op_String LT = ''<''"
| "op_String LE = ''<=''"
| "op_String GT = ''>''"
| "op_String GE = ''>=''"

type_synonym comparer = "comparison \<Rightarrow> items \<Rightarrow> items \<Rightarrow> int \<Rightarrow> serror + bool"

definition sd_String :: "(items \<Rightarrow> string) \<Rightarrow> sval \<Rightarrow> string" where
  "sd_String dict_string sd = dict_string (snd (sd_dict sd))"

definition sd_Iterate :: "sval \<Rightarrow> sval list" where
  "sd_Iterate sd = map fst (snd (sd_dict sd))"

definition is_starlark_dict :: "sval \<Rightarrow> bool" where
  "is_starlark_dict v \<longleftrightarrow> (case v of SStarlarkDict _ _ \<Rightarrow> True | SLazyDict _ _ \<Rightarrow> True | _ \<Rightarrow> False)"

definition sd_CompareSameType :: "comparer \<Rightarrow> comparison \<Rightarrow> sval \<Rightarrow> sval \<Rightarrow> int \<Rightarrow> serror + bool" where
  "sd_CompareSameType dict_compare op sd other depth =
     (if is_starlark_dict other then dict_compare op (snd (sd_dict sd)) (snd (sd_dict other)) depth
      else Inl (EMsg (''cannot compare dict with '' @ stype other)))"

definition SchemaName :: "schema option \<Rightarrow> string" where
  "SchemaName sch = (case sch of Some s \<Rightarrow> schema_name s | None \<Rightarrow> [])"

definition sch_String :: "(items \<Rightarrow> string) \<Rightarrow> schema option \<Rightarrow> items \<Rightarrow> string" where
  "sch_String dict_string sch its = SchemaName sch @ ''('' @ dict_string its @ '')''"

definition sch_AttrNames :: "items \<Rightarrow> string list" where
  "sch_AttrNames its = sort (string_keys its @ builtinMethodNames)"

definition sch_Get :: "items \<Rightarrow> sval \<Rightarrow> serror + sval option" where
  "sch_Get its key = get_key its key"

definition sch_keysMethod :: "items \<Rightarrow> sval" where
  "sch_keysMethod its = SList False (map fst its)"

definition sch_valuesMethod :: "items \<Rightarrow> sval" where
  "sch_valuesMethod its = SList False (map snd its)"

definition sch_itemsMethod :: "items \<Rightarrow> sval" where
  "sch_itemsMethod its = SList False (map (\<lambda>(k, v). STuple [k, v]) its)"

definition sch_CompareSameType :: "comparer \<Rightarrow> comparison \<Rightarrow> items \<Rightarrow> sval \<Rightarrow> int \<Rightarrow> serror + bool" where
  "sch_CompareSameType dict_compare op its other depth =
     (case other of
        SSchemaDict _ _ its' \<Rightarrow> dict_compare op its its' depth
      | _ \<Rightarrow> Inl (EMsg (''cannot compare dict with '' @ stype other)))"

section \<open>Mutable structs\<close>

definition pluralS :: "nat \<Rightarrow> string" where
  "pluralS n = (if n = 1 then [] else ''s'')"

text \<open>The zero value of a failed type assertion is the empty string.\<close>

definition key_string :: "sval \<times> sval \<Rightarrow> string" where
  "key_string kv = (case fst kv of SString s \<Rightarrow> s | _ \<Rightarrow> [])"

definition ms_fields :: "schema option \<Rightarrow> items \<Rightarrow> (string \<times> sval) list" where
  "ms_fields sch its =
     (case sch of
        Some s \<Rightarrow> List.map_filter (\<lambda>nm. map_option (Pair nm) (dict_get its (SString nm))) (FieldNames s)
      | None \<Rightarrow>
          sort_key fst (List.map_filter (\<lambda>(k, v). case k of SString s \<Rightarrow> Some (s, v) | _ \<Rightarrow> None) its))"

definition ms_String :: "(sval \<Rightarrow> string) \<Rightarrow> schema option \<Rightarrow> items \<Rightarrow> string" where
  "ms_String repr sch its =
     (case sch of Some s \<Rightarrow> schema_name s | None \<Rightarrow> ''mutable_struct'') @ ''('' @
     join '', '' (map (\<lambda>(nm, v). nm @ '' = '' @ repr v) (ms_fields sch its)) @ '')''"

text \<open>\<open>equal_depth\<close> is \<^verbatim>\<open>starlark.EqualDepth\<close>.\<close>

fun fields_equal :: "(sval \<Rightarrow> sval \<Rightarrow> int \<Rightarrow> serror + bool) \<Rightarrow> items \<Rightarrow> items \<Rightarrow> int \<Rightarrow> serror + bool" where
  "fields_equal equal_depth (x # xs) (y # ys) depth =
     (if key_string x \<noteq> key_string y then Inr False
      else bind_res (equal_depth (snd x) (snd y) (depth - 1)) (\<lambda>eq.
        if \<not> eq then Inr False else fields_equal equal_depth xs ys depth))"
| "fields_equal equal_depth _ _ depth = Inr True"

definition mutableStructsEqual :: "(sval \<Rightarrow> sval \<Rightarrow> int \<Rightarrow> serror + bool) \<Rightarrow> items \<Rightarrow> items \<Rightarrow> int \<Rightarrow> serror + bool" where
  "mutableStructsEqual equal_depth xs ys depth =
     (if length xs \<noteq> length ys then Inr False
      else fields_equal equal_depth (sort_key key_string xs) (sort_key key_string ys) depth)"

definition ms_CompareSameType ::
  "(sval \<Rightarrow> sval \<Rightarrow> int \<Rightarrow> serror + bool) \<Rightarrow> comparison \<Rightarrow> items \<Rightarrow> items \<Rightarrow> int \<Rightarrow> serror + bool" where
  "ms_CompareSameType equal_depth op xs ys depth =
     (case op of
        EQL \<Rightarrow> mutableStructsEqual equal_depth xs ys depth
      | NEQ \<Rightarrow> bind_res (mutableStructsEqual equal_depth xs ys depth) (\<lambda>eq. Inr (\<not> eq))
      | _ \<Rightarrow> Inl (EMsg (''mutable_struct '' @ op_String op @ '' mutable_struct not implemented'')))"

section \<open>Equality of mutable structs\<close>

text \<open>The keys of a mutable struct are strings, pairwise different.\<close>

definition struct_wf :: "items \<Rightarrow> bool" where
  "struct_wf its \<longleftrightarrow> (\<forall>kv \<in> set its. \<exists>s. fst kv = SString s) \<and> distinct (map fst its)"

lemma key_string_inj: "struct_wf its \<Longrightarrow> x \<in> set its \<Longrightarrow> fst x = SString (key_string x)"
  by (auto simp: struct_wf_def key_string_def)

lemma struct_wf_sorted:
  assumes "struct_wf its"
  shows "struct_wf (sort_key key_string its)" and "sorted (map key_string (sort_key key_string its))"
    and "distinct (map key_string (sort_key key_string its))"
proof -
  have "map fst its = map (SString \<circ> key_string) its" using key_string_inj [OF assms] by simp
  then have d: "distinct (map key_string its)" using assms unfolding struct_wf_def by (simp add: distinct_map flip: map_map)
  show "struct_wf (sort_key key_string its)" using assms by (simp add: struct_wf_def distinct_map)
  show "distinct (map key_string (sort_key key_string its))" using d by (simp add: distinct_map)
qed simp

lemma fields_equal_iff:
  "(\<And>x y. equal_depth x y (depth - 1) = Inr (E x y)) \<Longrightarrow> length xs = length ys \<Longrightarrow>
     fields_equal equal_depth xs ys depth = Inr (list_all2 (\<lambda>x y. key_string x = key_string y \<and> E (snd x) (snd y)) xs ys)"
  by (induction equal_depth xs ys depth rule: fields_equal.induct) auto

lemma dict_get_string_key: "struct_wf its \<Longrightarrow> dict_get its (SString s) = map_of (map (\<lambda>kv. (key_string kv, snd kv)) its) s"
  by (induction its) (auto simp: struct_wf_def key_string_def)

text \<open>The fields as an association list by name.\<close>

abbreviation by_name :: "items \<Rightarrow> (string \<times> sval) list" where
  "by_name \<equiv> map (\<lambda>kv. (key_string kv, snd kv))"

lemma keys_by_name [simp]: "map fst (by_name its) = map key_string its"
  by simp

lemma distinct_by_name: "struct_wf its \<Longrightarrow> distinct (map key_string its)"
proof -
  assume wf: "struct_wf its"
  then have "map fst its = map (SString \<circ> key_string) its" using key_string_inj [OF wf] by simp
  with wf show ?thesis unfolding struct_wf_def by (simp add: distinct_map flip: map_map)
qed

lemma map_of_sorted: "struct_wf its \<Longrightarrow> map_of (by_name (sort_key key_string its)) = map_of (by_name its)"
  by (subst map_of_inject_set) (use distinct_by_name struct_wf_sorted(3) in \<open>auto simp: comp_def\<close>)

lemma list_all2_map_of:
  "list_all2 (\<lambda>x y. key_string x = key_string y \<and> E (snd x) (snd y)) xs ys \<Longrightarrow>
     rel_option E (map_of (by_name xs) s) (map_of (by_name ys) s)"
  by (induction rule: list_all2_induct) auto

lemma map_of_list_all2:
  assumes "sorted (map key_string xs)" "distinct (map key_string xs)" "sorted (map key_string ys)" "distinct (map key_string ys)"
    and rel: "\<And>s. rel_option E (map_of (by_name xs) s) (map_of (by_name ys) s)"
  shows "list_all2 (\<lambda>x y. key_string x = key_string y \<and> E (snd x) (snd y)) xs ys"
proof -
  have "map_of (by_name xs) s = None \<longleftrightarrow> map_of (by_name ys) s = None" for s
    using rel [of s] by (cases "map_of (by_name xs) s"; cases "map_of (by_name ys) s") simp_all
  then have "dom (map_of (by_name xs)) = dom (map_of (by_name ys))" unfolding dom_def by simp
  then have "set (map key_string xs) = set (map key_string ys)" by (simp add: dom_map_of_conv_image_fst image_image)
  then have keys: "map key_string xs = map key_string ys" by (rule sorted_distinct_set_unique [OF assms(1-4)])
  then have len: "length xs = length ys" by (metis length_map)
  have "E (snd (xs ! i)) (snd (ys ! i))" if i: "i < length xs" for i
  proof -
    have "map_of (by_name xs) (key_string (xs ! i)) = Some (snd (xs ! i))" "map_of (by_name ys) (key_string (ys ! i)) = Some (snd (ys ! i))"
      using i len assms(2,4) by (auto intro!: map_of_is_SomeI simp: comp_def)
    moreover have "key_string (xs ! i) = key_string (ys ! i)" using keys i len by (metis nth_map)
    ultimately show ?thesis using rel [of "key_string (xs ! i)"] by simp
  qed
  then show ?thesis using keys len by (auto simp: list_all2_conv_all_nth) (metis nth_map)
qed

lemma mutableStructsEqual_iff:
  assumes wf: "struct_wf xs" "struct_wf ys" and E: "\<And>x y. equal_depth x y (depth - 1) = Inr (E x y)"
  shows "mutableStructsEqual equal_depth xs ys depth =
     Inr (\<forall>s. rel_option E (dict_get xs (SString s)) (dict_get ys (SString s)))"
proof -
  let ?P = "\<lambda>x y. key_string x = key_string y \<and> E (snd x) (snd y)"
  have "list_all2 ?P (sort_key key_string xs) (sort_key key_string ys) \<longleftrightarrow>
      (\<forall>s. rel_option E (dict_get xs (SString s)) (dict_get ys (SString s)))"
    using list_all2_map_of [of E "sort_key key_string xs" "sort_key key_string ys"]
      map_of_list_all2 [OF struct_wf_sorted(2,3) [OF wf(1)] struct_wf_sorted(2,3) [OF wf(2)], of E]
    by (auto simp: map_of_sorted wf dict_get_string_key)
  then show ?thesis
    using fields_equal_iff [where equal_depth = equal_depth and E = E, OF E] list_all2_lengthD [of ?P "sort_key key_string xs" "sort_key key_string ys"]
    by (auto simp: mutableStructsEqual_def)
qed

text \<open>
  Mutable structs are compared field by field, whatever the order in which their fields were set: they are equal exactly
  if they have the same fields with equal values, and unequal otherwise, as long as comparing values
  does not fail.
\<close>

theorem mutable_struct_equality:
  assumes "struct_wf xs" and "struct_wf ys" and "\<And>x y. equal_depth x y (depth - 1) = Inr (E x y)"
  shows "ms_CompareSameType equal_depth EQL xs ys depth =
      Inr (\<forall>s. rel_option E (dict_get xs (SString s)) (dict_get ys (SString s))) \<and>
     ms_CompareSameType equal_depth NEQ xs ys depth =
      Inr (\<not> (\<forall>s. rel_option E (dict_get xs (SString s)) (dict_get ys (SString s))))"
  by (simp add: ms_CompareSameType_def mutableStructsEqual_iff [where equal_depth = equal_depth, OF assms])

text \<open>What \<^verbatim>\<open>mutable_struct()\<close> builds has string keys, each once.\<close>

lemma struct_wf_keys: "struct_wf its \<longleftrightarrow> (\<forall>k \<in> set (map fst its). \<exists>s. k = SString s) \<and> distinct (map fst its)"
  by (auto simp: struct_wf_def)

lemma struct_wf_set: "struct_wf its \<Longrightarrow> struct_wf (dict_set (SString s) v its)"
  unfolding struct_wf_keys dict_set_string by (simp add: set_keys_update distinct_keys_update del: set_map)

lemma struct_wf_update: "struct_wf d \<Longrightarrow> struct_wf (dict_update d (kwarg_items kvs))"
  by (induction kvs arbitrary: d) (auto simp: kwarg_items_def struct_wf_set)

lemma MakeMutableStruct_wf:
  "MakeMutableStruct repr equal [] kwargs = Some (Inr (SMutableStruct None f its)) \<Longrightarrow> struct_wf its"
  using struct_wf_update [of "[]"]
  by (auto simp: MakeMutableStruct_def struct_wf_def split: sum.splits option.splits if_splits prod.splits)

end
