(* ===== verification/Process.thy ===== *)
theory Process
  imports FunctionRun Metrics
begin

text \<open>
  The process around \<^verbatim>\<open>RunFunction\<close>: the command line (\<^verbatim>\<open>main.go\<close>), which fixes the state that requests share and
  the options of the server, and the metrics that a request leaves behind (\<^verbatim>\<open>fn.go\<close>, \<^verbatim>\<open>builtins/collector.go\<close>).
  Parsing the command line and serving are done by libraries.
\<close>

section \<open>Command line\<close>

record CLI =
  Debug :: bool
  Network :: string
  Address :: string
  TLSCertsDir :: string
  Insecure :: bool
  MaxRecvMessageSize :: int
  OCIPullPolicy :: string
  OCICacheTTL :: int

text \<open>What \<^verbatim>\<open>function.Serve\<close> gets besides the function; the message size is computed in 64-bit integers.\<close>

record ServeOptions =
  so_Network :: string
  so_Address :: string
  so_Certificates :: string
  so_Insecure :: bool
  so_MaxRecvMessageSize :: int

definition CLI_Run :: "function_env \<Rightarrow> CLI \<Rightarrow> function_env \<times> function_state \<times> ServeOptions" where
  "CLI_Run fe cli =
     (fe\<lparr>fe_scriptDir := ''/scripts''\<rparr>, NewFunction (OCIPullPolicy cli) (OCICacheTTL cli),
      \<lparr>so_Network = Network cli, so_Address = Address cli, so_Certificates = TLSCertsDir cli, so_Insecure = Insecure cli,
       so_MaxRecvMessageSize = wrap64 (wrap64 (MaxRecvMessageSize cli * 1024) * 1024)\<rparr>)"

section \<open>Metrics of a request\<close>

definition composite_kind :: "RunFunctionRequest \<Rightarrow> string" where
  "composite_kind req = pstring (pfield (pfields (GetComposite (rq_observed req))) ''kind'')"

text \<open>The variable \<^verbatim>\<open>filename\<close> when \<^verbatim>\<open>RunFunction\<close> returns.\<close>

definition script_label :: "'r Function \<Rightarrow> RunFunctionRequest \<Rightarrow> string" where
  "script_label f req =
     (case rq_input req of
        Inl _ \<Rightarrow> ''unknown''
      | Inr spec \<Rightarrow>
          if in_Source spec \<noteq> [] then ''composition.star''
          else (case in_ScriptConfigRef spec of None \<Rightarrow> ''unknown'' | Some ref \<Rightarrow> script_path (env_for f req) ref))"

text \<open>The deferred functions.\<close>

definition count_reconciliation :: "string \<Rightarrow> string \<Rightarrow> metrics \<Rightarrow> metrics" where
  "count_reconciliation filename kind M =
     (if filename \<noteq> ''unknown''
      then M\<lparr>ReconciliationsTotal := add_at (filename, kind) 1 (ReconciliationsTotal M),
             ReconciliationDurationSeconds := add_at (filename, kind) 1 (ReconciliationDurationSeconds M)\<rparr>
      else M)"

text \<open>The timer around \<^verbatim>\<open>Resolve\<close>, which is reached with a valid registry and at least one target.\<close>

definition resolves :: "'r Function \<Rightarrow> RunFunctionRequest \<Rightarrow> bool" where
  "resolves f req =
     (case rq_input req of
        Inl _ \<Rightarrow> False
      | Inr spec \<Rightarrow>
          (case find_script (env_for f req) spec of
             Inl _ \<Rightarrow> False
           | Inr (source, filename) \<Rightarrow>
               let rv = resolver_for (f_resolver f) (env_for f req) spec; reg = rv_defaultRegistry rv in
               source \<noteq> [] \<and> (case script_world req filename of Inl _ \<Rightarrow> False | Inr _ \<Rightarrow> True) \<and>
               (reg \<noteq> [] \<longrightarrow> ValidateRegistry (rv_lib rv) reg = Inr ()) \<and>
               (case oci_targets rv spec source of Inl _ \<Rightarrow> False | Inr targets \<Rightarrow> targets \<noteq> [])))"

definition time_resolve :: "bool \<Rightarrow> script_kind \<Rightarrow> metrics \<Rightarrow> metrics" where
  "time_resolve reached l M =
     (if reached then M\<lparr>OCIResolveDurationSeconds := add_at l 1 (OCIResolveDurationSeconds M)\<rparr> else M)"

text \<open>After the script: the resources that are withheld and the resources that are applied.\<close>

definition count_resources ::
  "'r Function \<Rightarrow> RunFunctionRequest \<Rightarrow> StarlarkInputSpec \<Rightarrow> RunState \<Rightarrow> script_kind \<Rightarrow> metrics \<Rightarrow> metrics" where
  "count_resources f req spec run l M =
     (case dependency_phase (f_sdk f) (f_ParseDuration f) (fe_getenv (f_env f) ''STARLARK_USAGE_API_VERSION'') spec
             (observed_resources req) (run_collector run) (f_To f req) of
        Inl _ \<Rightarrow> M
      | Inr (c, rsp) \<Rightarrow>
          let deps = c_dependencies (run_collector run);
              result = Evaluate (NewSequencer deps (map fst (c_resources (run_collector run))) (map_of (observed_resources req)) 0);
              M = (if deps \<noteq> [] \<and> AnyDeferred result
                   then M\<lparr>ResourcesDeferredTotal := add_at l (length (Deferred result)) (ResourcesDeferredTotal M)\<rparr> else M)
          in M\<lparr>ResourcesEmittedTotal := add_at l (length (c_resources c)) (ResourcesEmittedTotal M)\<rparr>)"

definition request_metrics :: "'r Function \<Rightarrow> RunFunctionRequest \<Rightarrow> outcome \<Rightarrow> metrics \<Rightarrow> metrics" where
  "request_metrics f req out M =
     (let l = (script_label f req, composite_kind req);
          M = time_resolve (resolves f req) l M;
          M = (case out of
                 Ran spec res run \<Rightarrow>
                   let M = M\<lparr>ExecutionDurationSeconds := add_at l 1 (ExecutionDurationSeconds M)\<rparr> in
                   (if res = ExecOk then count_resources f req spec run l M else M)
               | _ \<Rightarrow> M)
      in count_reconciliation (fst l) (snd l) M)"

text \<open>\<^verbatim>\<open>RunFunction\<close> with its metrics, but for those that \<^verbatim>\<open>getOrCompile\<close> and \<^verbatim>\<open>recordSkip\<close> count themselves.\<close>

definition RunFunction_metered ::
  "nat \<Rightarrow> 'r Function \<Rightarrow> int \<Rightarrow> RunFunctionRequest \<Rightarrow> function_state \<times> metrics \<Rightarrow>
     ('r RunFunctionResponse \<times> function_state \<times> metrics) option" where
  "RunFunction_metered n f now req sm =
     (case script_phase n f now req (fst sm) of
        None \<Rightarrow> None
      | Some (out, st) \<Rightarrow> Some (respond f req out, st, request_metrics f req out (snd sm)))"

text \<open>The metric of \<^verbatim>\<open>recordSkip\<close>.\<close>

definition recordSkip_metered :: "string \<Rightarrow> string \<Rightarrow> bool \<Rightarrow> Collector \<times> metrics \<Rightarrow> Collector \<times> metrics" where
  "recordSkip_metered nm reason gate cM =
     (let (c, M) = cM in
      (recordSkip nm reason gate c,
       if nm \<in> set (c_skipped c) then M
       else M\<lparr>ResourcesSkippedTotal := add_at (c_scriptName c, c_compositeKind c) 1 (ResourcesSkippedTotal M)\<rparr>))"

section \<open>What is counted\<close>

text \<open>A skip is counted when it is new, so the metric grows with the skipped names.\<close>

lemma skip_metric_per_name:
  assumes "recordSkip_metered nm reason gate (c, M) = (c', M')"
  defines "l \<equiv> (c_scriptName c, c_compositeKind c)"
  shows "ResourcesSkippedTotal M' l + length (c_skipped c) = ResourcesSkippedTotal M l + length (c_skipped c')"
  using assms by (auto simp: recordSkip_metered_def recordSkip_def Let_def add_event_def)

text \<open>
  The dependents of all pairs have been collected. A successful call of \<^verbatim>\<open>Resource()\<close> keeps it so; one that fails may leave
  pairs behind, but it ends the script with an error.
\<close>

definition dependents_collected :: "Collector \<Rightarrow> bool" where
  "dependents_collected c \<longleftrightarrow> (\<forall>d \<in> set (c_dependencies c). Dependent d \<in> fst ` set (c_resources c))"

lemma dependents_collected_put:
  assumes "dependents_collected c" and "side_only (cr_Name cr) c c1"
  shows "dependents_collected (put_resource cr c1)"
  using assms unfolding dependents_collected_def side_only_def put_resource_def
  by (auto simp: dom_update [symmetric] dom_map_of_conv_image_fst [symmetric] update_conv')

lemma resourceFn_dependents:
  assumes "dependents_collected c" and "resourceFn nm b rd lv cn ds ev w c = (Inr v, c')"
  shows "dependents_collected c'"
proof -
  obtain out where out: "outcome_of nm c (Inr v) c' out" using resourceFn_outcome [OF assms(2)] by blast
  show ?thesis
  proof (cases out)
    case (Skip reason gate)
    with out assms(1) show ?thesis by (auto simp: dependents_collected_def recordSkip_def add_event_def Let_def)
  next
    case (Preserve s)
    have "side_only nm c c" by (auto simp: side_only_def)
    with Preserve out dependents_collected_put [OF assms(1)] show ?thesis
      by (auto simp: recordPreserve_def dependents_collected_def add_event_def)
  next
    case Emit
    with out dependents_collected_put [OF assms(1)] show ?thesis by (auto simp: emitted_def)
  qed (use out in simp)
qed

lemma deferred_collected:
  "dependents_collected (run_collector run) \<Longrightarrow> set (deferred_of run obs) \<subseteq> fst ` set (c_resources (run_collector run))"
  by (auto simp: deferred_of_def Deferred_iff NewSequencer_def dependents_collected_def)

lemma length_by_keys: "distinct (map fst xs) \<Longrightarrow> length xs = card {k. map_of xs k \<noteq> None}"
  by (metis (no_types, lifting) Collect_cong distinct_card dom_def dom_map_of_conv_image_fst length_map list.set_map)

lemma withheld_or_applied:
  assumes "distinct (map fst (c_resources (run_collector run)))" and "distinct (map fst (c_resources c))"
    and "dependents_collected (run_collector run)"
    and "\<And>n. map_of (c_resources c) n =
       (if n \<in> set (deferred_of run obs) then None else map_of (c_resources (run_collector run)) n)"
  shows "length (c_resources c) + length (deferred_of run obs) = length (c_resources (run_collector run))"
proof -
  let ?all = "{k. map_of (c_resources (run_collector run)) k \<noteq> None}" and ?d = "set (deferred_of run obs)"
  have fin: "finite ?all" by (metis dom_def finite_dom_map_of)
  have sub: "?d \<subseteq> ?all" using deferred_collected [OF assms(3)] by (auto simp: map_of_eq_None_iff)
  have "length (c_resources c) = card (?all - ?d)"
    unfolding length_by_keys [OF assms(2)] assms(4) by (rule arg_cong [where f = card]) auto
  moreover have "length (deferred_of run obs) = card ?d"
    using distinct_Deferred by (simp add: deferred_of_def distinct_card)
  ultimately show ?thesis
    using card_Diff_subset [OF _ sub] card_mono [OF fin sub] length_by_keys [OF assms(1)] by simp
qed

lemma count_resources_balance:
  assumes "deps_accepted (f_ParseDuration f) spec run seqTTL" and "distinct (map fst (c_resources (run_collector run)))"
    and "dependents_collected (run_collector run)"
  shows "ResourcesEmittedTotal (count_resources f req spec run l M) l + ResourcesDeferredTotal (count_resources f req spec run l M) l =
     ResourcesEmittedTotal M l + ResourcesDeferredTotal M l + length (c_resources (run_collector run))"
proof -
  obtain c rsp where ph: "dependency_phase (f_sdk f) (f_ParseDuration f) (fe_getenv (f_env f) ''STARLARK_USAGE_API_VERSION'') spec
      (observed_resources req) (run_collector run) (f_To f req) = Inr (c, rsp)"
    and res: "\<And>n. map_of (c_resources c) n =
       (if n \<in> set (deferred_of run (observed_resources req)) then None else map_of (c_resources (run_collector run)) n)"
    and dist: "distinct (map fst (c_resources c))"
    by (rule dependency_phase_ok [OF assms(1)]) (use assms(2) in blast)
  have df: "deferred_of run (observed_resources req) = Deferred (Evaluate (NewSequencer (c_dependencies (run_collector run))
      (map fst (c_resources (run_collector run))) (map_of (observed_resources req)) 0))" by (simp add: deferred_of_def)
  have "c_dependencies (run_collector run) = [] \<Longrightarrow> deferred_of run (observed_resources req) = []"
    by (simp add: deferred_of_def no_deps_nothing_deferred)
  then show ?thesis using withheld_or_applied [OF assms(2) dist assms(3) res]
    by (auto simp: count_resources_def ph Let_def df AnyDeferred_iff)
qed

lemma count_reconciliation_rest [simp]:
  "ResourcesEmittedTotal (count_reconciliation fn k M) = ResourcesEmittedTotal M"
  "ResourcesDeferredTotal (count_reconciliation fn k M) = ResourcesDeferredTotal M"
  by (simp_all add: count_reconciliation_def)

lemma time_resolve_rest [simp]:
  "ResourcesEmittedTotal (time_resolve b l M) = ResourcesEmittedTotal M"
  "ResourcesDeferredTotal (time_resolve b l M) = ResourcesDeferredTotal M"
  "ReconciliationsTotal (time_resolve b l M) = ReconciliationsTotal M"
  by (simp_all add: time_resolve_def)

lemma count_resources_rest [simp]:
  "ReconciliationsTotal (count_resources f req spec run l M) = ReconciliationsTotal M"
  by (auto simp: count_resources_def Let_def split: sum.split prod.split)

lemma request_counted:
  "ReconciliationsTotal (request_metrics f req out M) l =
     ReconciliationsTotal M l + of_bool (script_label f req \<noteq> ''unknown'' \<and> (script_label f req, composite_kind req) = l)"
  by (cases out) (auto simp: request_metrics_def Let_def count_reconciliation_def)

text \<open>Serving a list of requests, one after the other.\<close>

primrec serve_all ::
  "nat \<Rightarrow> 'r Function \<Rightarrow> (int \<times> RunFunctionRequest) list \<Rightarrow> function_state \<times> metrics \<Rightarrow> (function_state \<times> metrics) option" where
  "serve_all n f [] sm = Some sm"
| "serve_all n f (r # rs) sm =
     (case RunFunction_metered n f (fst r) (snd r) sm of None \<Rightarrow> None | Some (rsp, sm) \<Rightarrow> serve_all n f rs sm)"

section \<open>Properties\<close>


text \<open>
  \<^verbatim>\<open>ReconciliationsTotal\<close> counts exactly the requests whose input names a script, by script and composite kind, whatever
  became of them; requests without readable input or without a script are not counted.
\<close>

theorem reconciliations_counted:
  assumes "serve_all n f reqs (st, M) = Some (st', M')"
  shows "ReconciliationsTotal M' l =
     ReconciliationsTotal M l +
     length (filter (\<lambda>(now, req). script_label f req \<noteq> ''unknown'' \<and> (script_label f req, composite_kind req) = l) reqs)"
  using assms
proof (induction reqs arbitrary: st M)
  case (Cons r reqs)
  obtain now req where r: "r = (now, req)" by (cases r)
  from Cons.prems obtain out st1 where ph: "script_phase n f now req st = Some (out, st1)"
    and rest: "serve_all n f reqs (st1, request_metrics f req out M) = Some (st', M')"
    by (auto simp: r RunFunction_metered_def split: option.splits)
  from Cons.IH [OF rest] show ?case by (simp add: r request_counted)
qed simp

section \<open>Requests of the examples\<close>

lemma ex_labels:
  "script_label (ex_fn g) (ex_req obs) = ''composition.star''" "composite_kind (ex_req obs) = []"
  "script_label (ex_fn g) (ex_req obs\<lparr>rq_input := Inl e\<rparr>) = ''unknown''"
  by (simp_all add: script_label_def composite_kind_def ex_req_def ex_spec_def GetComposite_def)


end
