(* ===== verification/DictMethods.thy ===== *)
theory DictMethods
  imports ValueMethods Process
begin

text \<open>
  Method calls on the dict objects: the dispatch of \<^verbatim>\<open>builtinMethod\<close> in \<^verbatim>\<open>convert/starlark_dict.go\<close> and
  \<^verbatim>\<open>schema/schema_dict.go\<close>, and sequences of calls and assignments on one object. They show that what a script sees of
  the observed state cannot be changed by it.
\<close>

section \<open>Dispatch\<close>

text \<open>A bound method, by the Go method it stands for.\<close>

datatype dict_method =
    keysMethod | valuesMethod | itemsMethod | getMethod | popMethod | updateMethod | clearMethod | setdefaultMethod

definition sd_builtinMethod :: "string \<Rightarrow> dict_method option" where
  "sd_builtinMethod nm =
     (if nm = ''keys'' then Some keysMethod
      else if nm = ''values'' then Some valuesMethod
      else if nm = ''items'' then Some itemsMethod
      else if nm = ''get'' then Some getMethod
      else if nm = ''pop'' then Some popMethod
      else if nm = ''update'' then Some updateMethod
      else if nm = ''clear'' then Some clearMethod
      else if nm = ''setdefault'' then Some setdefaultMethod
      else None)"

definition sch_builtinMethod :: "string \<Rightarrow> dict_method option" where
  "sch_builtinMethod nm =
     (if nm = ''keys'' then Some keysMethod
      else if nm = ''values'' then Some valuesMethod
      else if nm = ''items'' then Some itemsMethod
      else if nm = ''get'' then Some getMethod
      else if nm = ''pop'' then Some popMethod
      else if nm = ''update'' then Some updateMethod
      else if nm = ''clear'' then Some clearMethod
      else if nm = ''setdefault'' then Some setdefaultMethod
      else None)"

text \<open>The names that \<^verbatim>\<open>Attr\<close> treats as methods are those that the dispatch knows, so a method name never yields nil.\<close>

lemma builtinMethod_total:
  "sd_builtinMethod nm \<noteq> None \<longleftrightarrow> nm \<in> set builtinMethodNames"
  "sch_builtinMethod nm \<noteq> None \<longleftrightarrow> nm \<in> set builtinMethodNames"
  by (auto simp: sd_builtinMethod_def sch_builtinMethod_def builtinMethodNames_def)

section \<open>Calls on a StarlarkDict\<close>

text \<open>
  A call with its arguments unpacked: one argument and an optional second one for \<^verbatim>\<open>get\<close>, \<^verbatim>\<open>pop\<close> and \<^verbatim>\<open>setdefault\<close>, one
  for \<^verbatim>\<open>update\<close>, none for the others. The result comes with the object afterwards.
\<close>

definition sd_call ::
  "(sval \<Rightarrow> string) \<Rightarrow> dict_method \<Rightarrow> sval \<Rightarrow> sval option \<Rightarrow> sval \<Rightarrow> (serror + sval) \<times> sval" where
  "sd_call repr m key dflt sd =
     (let mutated = (\<lambda>r. case r of Inl e \<Rightarrow> (Inl e, sd) | Inr (v, sd') \<Rightarrow> (Inr v, sd')) in
      case m of
        keysMethod \<Rightarrow> (sd_keysMethod sd, sd)
      | valuesMethod \<Rightarrow> (sd_valuesMethod sd, sd)
      | itemsMethod \<Rightarrow> (sd_itemsMethod sd, sd)
      | getMethod \<Rightarrow> (sd_getMethod sd key (case dflt of None \<Rightarrow> SNone | Some d \<Rightarrow> d), sd)
      | popMethod \<Rightarrow> mutated (sd_popMethod repr sd key dflt)
      | updateMethod \<Rightarrow> mutated (sd_updateMethod sd key)
      | clearMethod \<Rightarrow> mutated (sd_clearMethod sd)
      | setdefaultMethod \<Rightarrow> mutated (sd_setdefaultMethod sd key (case dflt of None \<Rightarrow> SNone | Some d \<Rightarrow> d)))"

text \<open>What a script can do to a dict: call a method by name, or assign to a key or to an attribute.\<close>

datatype dict_op = CallMethod string sval "sval option" | SetIndex sval sval | SetAttr string sval

fun sd_apply :: "(sval \<Rightarrow> string) \<Rightarrow> dict_op \<Rightarrow> sval \<Rightarrow> sval" where
  "sd_apply repr (CallMethod nm key dflt) sd =
     (case sd_builtinMethod nm of None \<Rightarrow> sd | Some m \<Rightarrow> snd (sd_call repr m key dflt sd))"
| "sd_apply repr (SetIndex k v) sd = (case sd_SetKey sd k v of Inl _ \<Rightarrow> sd | Inr sd' \<Rightarrow> sd')"
| "sd_apply repr (SetAttr nm v) sd = (case sd_SetField sd nm v of Inl _ \<Rightarrow> sd | Inr sd' \<Rightarrow> sd')"

lemma set_keys_frozen: "set_keys True its kvs = (if kvs = [] then Inr its else Inl EFrozen)"
  by (cases kvs) (auto simp: set_key_def)

lemma sd_dict_eager [simp]: "sd_dict (SStarlarkDict f its) = (f, its)"
  by (simp add: sd_dict_def materialized_def)

lemma sd_call_frozen:
  assumes "fst (sd_dict sd)"
  shows "sd_dict (snd (sd_call repr m key dflt sd)) = sd_dict sd"
  using assms
  by (cases m)
    (auto simp: sd_call_def Let_def sd_frozen sd_updateMethod_def sd_setdefaultMethod_def set_keys_frozen set_key_def
      bind_res_def split: prod.splits sum.splits option.splits sval.splits if_splits)

lemma sd_apply_frozen:
  assumes "fst (sd_dict sd)"
  shows "sd_dict (sd_apply repr d_op sd) = sd_dict sd"
  using assms by (cases d_op) (auto simp: sd_frozen sd_call_frozen split: option.splits)

lemma sd_ops_frozen:
  "fst (sd_dict sd) \<Longrightarrow> sd_dict (fold (sd_apply repr) ops sd) = sd_dict sd"
  by (induction ops arbitrary: sd) (simp_all add: sd_apply_frozen)

section \<open>What a script sees of its inputs\<close>

text \<open>The values that a script can get at, starting from a value: entries of dicts and elements of lists.\<close>

inductive reached :: "sval \<Rightarrow> sval \<Rightarrow> bool" for start where
  itself: "reached start start"
| entry: "reached start sd \<Longrightarrow> is_starlark_dict sd \<Longrightarrow> (k, v) \<in> set (snd (sd_dict sd)) \<Longrightarrow> reached start v"
| elem: "reached start (SList f vs) \<Longrightarrow> v \<in> set vs \<Longrightarrow> reached start v"

lemma StructToStarlark_frozen: "StructToStarlark s True = Inr v \<Longrightarrow> deep_frozen v"
  by (auto simp: StructToStarlark_def mkDict_def bind_res_eq_Inr Let_def freeze_deep_frozen
      split: option.splits simp del: freeze.simps)

lemma buildEnvironmentDict_frozen: "buildEnvironmentDict ctx = Inr v \<Longrightarrow> deep_frozen v"
  by (auto simp: buildEnvironmentDict_def split: option.splits pvalue.splits dest: StructToStarlark_frozen)

lemma frozen_entries:
  assumes "deep_frozen sd" and "is_starlark_dict sd"
  shows "fst (sd_dict sd) \<and> (\<forall>(k, v) \<in> set (snd (sd_dict sd)). deep_frozen v)"
proof (cases sd)
  case (SLazyDict f src)
  with assms(1) have f: "f" by simp
  show ?thesis
  proof (cases "StructToStarlark src True")
    case (Inr v)
    from StructToStarlark_frozen [OF Inr] StructToStarlark_shape [OF Inr] SLazyDict f Inr show ?thesis
      by (auto simp: sd_dict_def materialized_def ensure_def list_all_iff)
  qed (use SLazyDict f in \<open>simp add: sd_dict_def materialized_def ensure_def\<close>)
qed (use assms in \<open>auto simp: is_starlark_dict_def list_all_iff\<close>)

lemma reached_frozen: "reached start v \<Longrightarrow> deep_frozen start \<Longrightarrow> deep_frozen v"
proof (induction rule: reached.induct)
  case (entry sd k v)
  with frozen_entries [of sd] show ?case by fastforce
qed (auto simp: list_all_iff)

lemma script_inputs_frozen:
  assumes "script_world req filename = Inr w"
  shows "deep_frozen (sw_oxr w)" "deep_frozen (sw_observed w)" "deep_frozen (sw_environment w)" "deep_frozen (sw_extra w)"
proof -
  from assms have w: "StructToStarlark (GetComposite (rq_observed req)) True = Inr (sw_oxr w)"
    "sw_observed w = BuildObservedDict (observed_resources req)" "buildEnvironmentDict (rq_context req) = Inr (sw_environment w)"
    "sw_extra w = buildExtraResourcesDict (rq_required req) (rq_extra req)"
    by (auto simp: script_world_def BuildGlobals_def bind_res_eq_Inr wrap_err_def Let_def split: sum.splits)
  show "deep_frozen (sw_oxr w)" by (rule StructToStarlark_frozen [OF w(1)])
  show "deep_frozen (sw_observed w)" unfolding w(2) BuildObservedDict_def by (rule freeze_deep_frozen)
  show "deep_frozen (sw_environment w)" by (rule buildEnvironmentDict_frozen [OF w(3)])
  show "deep_frozen (sw_extra w)" unfolding w(4) buildExtraResourcesDict_def Let_def
    by (auto simp: freeze_deep_frozen split: option.splits simp del: freeze.simps)
qed

section \<open>Properties\<close>

text \<open>
  C20. A script cannot change its inputs: whatever dict it gets at from \<^verbatim>\<open>oxr\<close>, \<^verbatim>\<open>observed\<close> or \<^verbatim>\<open>environment\<close>, at any depth and
  also inside lists, no sequence of method calls and assignments changes its entries.
\<close>

theorem script_inputs_immutable:
  assumes "script_world req filename = Inr w" and "start \<in> {sw_oxr w, sw_observed w, sw_environment w}"
    and "reached start sd" and "is_starlark_dict sd"
  shows "sd_dict (fold (sd_apply repr) ops sd) = sd_dict sd"
proof -
  have "deep_frozen sd" using reached_frozen [OF assms(3)] assms(2) script_inputs_frozen [OF assms(1)] by blast
  from frozen_entries [OF this assms(4)] show ?thesis by (simp add: sd_ops_frozen)
qed

theorem script_inputs_immutable_witness:
  "sd_dict (fold (sd_apply (\<lambda>_. [])) [CallMethod ''clear'' SNone None, SetAttr ''kind'' SNone]
     (SLazyDict True (Some [(''kind'', PStr ''Bucket'')]))) =
   sd_dict (SLazyDict True (Some [(''kind'', PStr ''Bucket'')]))"
proof (rule script_inputs_immutable)
  let ?obs = "[(''db'', empty_resource\<lparr>rp_Resource := Some [(''kind'', PStr ''Bucket'')]\<rparr>)]"
  show "script_world (ex_req ?obs) ''composition.star'' = Inr (ex_world ?obs)" by (rule ex_script_world)
  show "sw_observed (ex_world ?obs) \<in> {sw_oxr (ex_world ?obs), sw_observed (ex_world ?obs), sw_environment (ex_world ?obs)}" by simp
  have "sw_observed (ex_world ?obs) = SStarlarkDict True [(SString ''db'', SLazyDict True (Some [(''kind'', PStr ''Bucket'')]))]"
    by (simp add: ex_world_def ex_observed BuildObservedDict_def)
  then show "reached (sw_observed (ex_world ?obs)) (SLazyDict True (Some [(''kind'', PStr ''Bucket'')]))"
    by (auto intro!: reached.entry [OF reached.itself] simp: is_starlark_dict_def)
qed (simp add: is_starlark_dict_def)

end
