(* ===== verification/TestRunner.thy ===== *)
theory TestRunner
  imports Loader
begin

text \<open>
  The test runner (\<^verbatim>\<open>testrunner/testrunner.go\<close>, \<^verbatim>\<open>testrunner/reporter.go\<close>): finding test files, running each with a loader of
  its own, and running and counting its tests. That executing a file ends is assumed. The outside world of the test scripts is the reporter. The interpreter,
  the file system and the clock are parameters.
\<close>

section \<open>Reporter\<close>

record testReporter =
  tr_failed :: bool
  tr_errors :: "string list"

definition tr_Error :: "string \<Rightarrow> testReporter \<Rightarrow> testReporter" where
  "tr_Error msg r = r\<lparr>tr_failed := True, tr_errors := tr_errors r @ [msg]\<rparr>"

definition reset :: "testReporter \<Rightarrow> testReporter" where
  "reset r = r\<lparr>tr_failed := False, tr_errors := []\<rparr>"

section \<open>Dialect\<close>

definition tr_fileOptions :: FileOptions where
  "tr_fileOptions = \<lparr>TopLevelControl = True, SetType = True, While = True, GlobalReassign = False, Recursion = False\<rparr>"

text \<open>It differs from the dialect of the function: reassigning a global is an error in tests only.\<close>

lemma test_dialect: "tr_fileOptions = fileOptions\<lparr>GlobalReassign := False\<rparr>" "tr_fileOptions \<noteq> fileOptions"
  by (simp_all add: tr_fileOptions_def fileOptions_def)

section \<open>Test files\<close>

text \<open>A directory tree as \<^verbatim>\<open>filepath.WalkDir\<close> sees it: entries of a directory in lexical order, or the error of reading it.\<close>

datatype dir_entry = FileEntry string | DirEntry string "string + dir_entry list"

primrec entry_name :: "dir_entry \<Rightarrow> string" where
  "entry_name (FileEntry nm) = nm"
| "entry_name (DirEntry nm es) = nm"

fun walk :: "string \<Rightarrow> dir_entry \<Rightarrow> string + string list"
  and walk_all :: "string \<Rightarrow> dir_entry list \<Rightarrow> string + string list" where
  "walk path (FileEntry nm) = Inr (if has_suffix nm ''_test.star'' then [path] else [])"
| "walk path (DirEntry nm (Inl e)) = Inl e"
| "walk path (DirEntry nm (Inr es)) = walk_all path es"
| "walk_all path [] = Inr []"
| "walk_all path (e # es) =
     bind_res (walk (path_Join [path, entry_name e]) e) (\<lambda>fs. bind_res (walk_all path es) (\<lambda>gs. Inr (fs @ gs)))"

text \<open>The entry of the directory itself, or the error of looking at it.\<close>

definition discoverTestFiles :: "string \<Rightarrow> string + dir_entry \<Rightarrow> string + string list" where
  "discoverTestFiles dir tree = bind_res tree (walk dir)"

section \<open>Parameters\<close>

text \<open>A function of a test script: its number of parameters, its line, and what calling it does, if it ends.\<close>

record test_function =
  fn_NumParams :: nat
  fn_Line :: int
  fn_Call :: "testReporter \<Rightarrow> (exec_end \<times> testReporter) option"

text \<open>
  What the runner calls: \<open>te_exec\<close> is \<^verbatim>\<open>ExecFileOptions\<close> on a path, \<open>te_function\<close> the type assertion for functions,
  \<open>te_assert\<close> the assert module, \<open>te_elapsed\<close> the printed seconds of a test of a file, \<open>te_loader\<close> carries the libraries
  of the loader.
\<close>

record test_env =
  te_cwd :: "string + string"
  te_tree :: "string \<Rightarrow> string + dir_entry"
  te_exec :: "string \<Rightarrow> testReporter program"
  te_function :: "sval \<Rightarrow> test_function option"
  te_assert :: "go_error + globals"
  te_elapsed :: "string \<Rightarrow> string \<Rightarrow> string"
  te_color :: bool
  te_loader :: "testReporter ModuleLoader"

definition path_Abs :: "test_env \<Rightarrow> string \<Rightarrow> string + string" where
  "path_Abs te p = (if IsAbs p then Inr (Clean p) else bind_res (te_cwd te) (\<lambda>cwd. Inr (path_Join [cwd, p])))"

definition purePredeclared :: "string list" where
  "purePredeclared =
     [''json'', ''crypto'', ''encoding'', ''dict'', ''regex'', ''yaml'', ''schema'', ''field'', ''struct'', ''get'', ''mutable_struct'']"

definition green :: "string \<Rightarrow> bool \<Rightarrow> string" where
  "green s color = (if color then CHR 0x1B # ''[32m'' @ s @ CHR 0x1B # ''[0m'' else s)"

definition red :: "string \<Rightarrow> bool \<Rightarrow> string" where
  "red s color = (if color then CHR 0x1B # ''[31m'' @ s @ CHR 0x1B # ''[0m'' else s)"

section \<open>Running\<close>

text \<open>The state of \<^verbatim>\<open>Run\<close>: the shared runtime, the reporter, the counters and the lines written so far.\<close>

record run_state =
  ts_rt :: "testReporter Runtime"
  ts_reporter :: testReporter
  ts_pass :: nat
  ts_fail :: nat
  ts_out :: "string list"

definition put_line :: "string \<Rightarrow> run_state \<Rightarrow> run_state" where
  "put_line s t = t\<lparr>ts_out := ts_out t @ [s]\<rparr>"

text \<open>The message of a failed execution, and what is printed for a failed call.\<close>

definition end_message :: "exec_end \<Rightarrow> string" where
  "end_message r =
     (case r of EndOk _ \<Rightarrow> [] | EndStepLimit \<Rightarrow> ''Starlark computation cancelled: too many steps''
      | EndEvalError bt e \<Rightarrow> err_msg e | EndOther e \<Rightarrow> err_msg e)"

definition call_message :: "exec_end \<Rightarrow> string" where
  "call_message r = (case r of EndEvalError bt e \<Rightarrow> bt | _ \<Rightarrow> end_message r)"

definition verdict_line :: "test_env \<Rightarrow> string \<Rightarrow> string \<Rightarrow> bool \<Rightarrow> string" where
  "verdict_line te file nm ok =
     (if ok then green (''--- PASS: '' @ nm @ '' ('' @ te_elapsed te file nm @ ''s)'') (te_color te)
      else red (''--- FAIL: '' @ nm @ '' ('' @ te_elapsed te file nm @ ''s)'') (te_color te))"

text \<open>The tests of a file: a function \<^verbatim>\<open>test_...\<close> without parameters each, in the order of their lines; one with
  parameters is reported as skipped.\<close>

definition is_test :: "test_env \<Rightarrow> string \<times> sval \<Rightarrow> bool" where
  "is_test te g \<longleftrightarrow> te_function te (snd g) \<noteq> None \<and> has_prefix (fst g) ''test_''"

definition test_of :: "test_env \<Rightarrow> string \<times> sval \<Rightarrow> string \<times> test_function" where
  "test_of te g = (fst g, the (te_function te (snd g)))"

definition collect_tests :: "test_env \<Rightarrow> globals \<Rightarrow> (string \<times> test_function) list" where
  "collect_tests te g =
     sort_key (\<lambda>(nm, fn). fn_Line fn) (filter (\<lambda>(nm, fn). fn_NumParams fn = 0) (map (test_of te) (filter (is_test te) g)))"

definition skipped_lines :: "test_env \<Rightarrow> globals \<Rightarrow> string list" where
  "skipped_lines te g =
     map (\<lambda>(nm, fn). ''  SKIP  '' @ nm @ '' (has parameters)'')
       (filter (\<lambda>(nm, fn). fn_NumParams fn > 0) (map (test_of te) (filter (is_test te) g)))"

definition run_test :: "test_env \<Rightarrow> string \<Rightarrow> string \<times> test_function \<Rightarrow> run_state \<Rightarrow> run_state option" where
  "run_test te file tf t =
     (let nm = fst tf; t = put_line (''=== RUN   '' @ nm) (t\<lparr>ts_reporter := reset (ts_reporter t)\<rparr>) in
      case fn_Call (snd tf) (ts_reporter t) of
        None \<Rightarrow> None
      | Some (r, rep) \<Rightarrow>
          let t = t\<lparr>ts_reporter := rep\<rparr> in
          Some (case r of
              EndOk _ \<Rightarrow>
                if tr_failed rep then
                  (let t = foldl (\<lambda>t e. put_line (''    '' @ e) t) t (tr_errors rep)
                   in (put_line (verdict_line te file nm False) t)\<lparr>ts_fail := Suc (ts_fail t)\<rparr>)
                else (put_line (verdict_line te file nm True) t)\<lparr>ts_pass := Suc (ts_pass t)\<rparr>
            | _ \<Rightarrow>
                (put_line (verdict_line te file nm False) (put_line (''    '' @ call_message r) t))\<lparr>ts_fail := Suc (ts_fail t)\<rparr>))"

primrec run_tests :: "test_env \<Rightarrow> string \<Rightarrow> (string \<times> test_function) list \<Rightarrow> run_state \<Rightarrow> run_state option" where
  "run_tests te file [] t = Some t"
| "run_tests te file (tf # tfs) t = Option.bind (run_test te file tf t) (run_tests te file tfs)"

text \<open>The loader of a file, and the load function that answers for the assert module.\<close>

definition test_loader :: "test_env \<Rightarrow> string \<Rightarrow> testReporter ModuleLoader" where
  "test_loader te absPath =
     (te_loader te)\<lparr>ml_inlineModules := [], ml_searchPaths := [path_Dir absPath], ml_predeclared := purePredeclared,
        ml_defaultRegistry := []\<rparr>"

definition interceptLoad ::
  "nat \<Rightarrow> test_env \<Rightarrow> string \<Rightarrow> string \<Rightarrow> testReporter loader_state \<Rightarrow> ((go_error + globals) \<times> testReporter loader_state) option" where
  "interceptLoad n te absPath md m =
     (if md = ''assert.star'' then Some (te_assert te, m) else load n (test_loader te absPath) absPath md m)"

definition run_file :: "nat \<Rightarrow> test_env \<Rightarrow> string \<Rightarrow> string \<Rightarrow> run_state \<Rightarrow> run_state option" where
  "run_file n te testFile absPath t =
     (let base = path_Base testFile; t = put_line (''# '' @ base) t in
      case run_program (interceptLoad n te absPath) ms_world (\<lambda>w m. m\<lparr>ms_world := w\<rparr>)
             (te_exec te absPath (ts_reporter t)) (NewModuleLoader (ts_rt t) (ts_reporter t)) of
        None \<Rightarrow> None
      | Some (r, m) \<Rightarrow>
          let t = t\<lparr>ts_rt := ms_rt m, ts_reporter := ms_world m\<rparr> in
          (case r of
             EndOk g \<Rightarrow>
               run_tests te testFile (collect_tests te g) (foldl (\<lambda>t s. put_line s t) t (skipped_lines te g))
           | _ \<Rightarrow> Some ((put_line (''    '' @ end_message r) (put_line (''FAIL  '' @ base) t))\<lparr>ts_fail := Suc (ts_fail t)\<rparr>)))"

fun run_files :: "nat \<Rightarrow> test_env \<Rightarrow> string list \<Rightarrow> run_state \<Rightarrow> (string option \<times> run_state) option" where
  "run_files n te [] t = Some (None, t)"
| "run_files n te (f # fs) t =
     (case path_Abs te f of
        Inl e \<Rightarrow> Some (Some (''resolving absolute path for '' @ f @ '': '' @ e), t)
      | Inr absPath \<Rightarrow> Option.bind (run_file n te f absPath t) (run_files n te fs))"

definition summary :: "test_env \<Rightarrow> run_state \<Rightarrow> string option \<times> run_state" where
  "summary te t =
     (let total = ts_pass t + ts_fail t in
      if ts_fail t > 0 then
        (Some (show_nat (ts_fail t) @ '' of '' @ show_nat total @ '' tests failed''),
         put_line (red ''FAIL'' (te_color te) @ CHR 0x09 # show_nat total @ '' tests: '' @ show_nat (ts_pass t) @ '' passed, '' @
           show_nat (ts_fail t) @ '' failed'') t)
      else (None, put_line (green ''ok'' (te_color te) @ CHR 0x09 # show_nat total @ '' tests passed'') t))"

text \<open>\<^verbatim>\<open>Run\<close>: the returned error, and the lines written.\<close>

definition Run :: "nat \<Rightarrow> test_env \<Rightarrow> string \<Rightarrow> (string option \<times> string list) option" where
  "Run n te dir =
     (case discoverTestFiles dir (te_tree te dir) of
        Inl e \<Rightarrow> Some (Some (''discovering test files: '' @ e), [])
      | Inr fs \<Rightarrow>
          if fs = [] then Some (None, [])
          else (case run_files n te (sort fs)
                  \<lparr>ts_rt = NewRuntime, ts_reporter = \<lparr>tr_failed = False, tr_errors = []\<rparr>, ts_pass = 0, ts_fail = 0, ts_out = []\<rparr> of
              None \<Rightarrow> None
            | Some (Some e, t) \<Rightarrow> Some (Some e, ts_out t)
            | Some (None, t) \<Rightarrow> Some (map_prod id ts_out (summary te t))))"

section \<open>Verdicts\<close>

text \<open>A test passes: its call ends normally and reports nothing, starting from a fresh reporter.\<close>

definition test_passes :: "test_function \<Rightarrow> bool" where
  "test_passes fn \<longleftrightarrow>
     (\<exists>g rep. fn_Call fn \<lparr>tr_failed = False, tr_errors = []\<rparr> = Some (EndOk g, rep) \<and> \<not> tr_failed rep)"

text \<open>A file passes from a state: it can be executed and its tests pass. What its top level reported does not matter.\<close>

definition file_passes :: "nat \<Rightarrow> test_env \<Rightarrow> string \<Rightarrow> run_state \<Rightarrow> bool" where
  "file_passes n te absPath t \<longleftrightarrow>
     (\<exists>g m. run_program (interceptLoad n te absPath) ms_world (\<lambda>w m. m\<lparr>ms_world := w\<rparr>)
        (te_exec te absPath (ts_reporter t)) (NewModuleLoader (ts_rt t) (ts_reporter t)) = Some (EndOk g, m) \<and>
        (\<forall>tf \<in> set (collect_tests te g). test_passes (snd tf)))"

fun all_pass :: "nat \<Rightarrow> test_env \<Rightarrow> string list \<Rightarrow> run_state \<Rightarrow> bool" where
  "all_pass n te [] t \<longleftrightarrow> True"
| "all_pass n te (f # fs) t \<longleftrightarrow>
     (\<exists>absPath t'. path_Abs te f = Inr absPath \<and> file_passes n te absPath t \<and> run_file n te f absPath t = Some t' \<and>
        all_pass n te fs t')"

lemma put_line_counts [simp]:
  "ts_pass (put_line s t) = ts_pass t" "ts_fail (put_line s t) = ts_fail t" "ts_reporter (put_line s t) = ts_reporter t"
  by (simp_all add: put_line_def)

lemma put_lines_fail [simp]: "ts_fail (foldl (\<lambda>t e. put_line (f e) t) t es) = ts_fail t"
  by (induction es arbitrary: t) simp_all

lemma reset_fresh: "reset r = \<lparr>tr_failed = False, tr_errors = []\<rparr>"
  by (simp add: reset_def)

lemma run_test_fail:
  "run_test te file tf t = Some t' \<Longrightarrow> ts_fail t' = (if test_passes (snd tf) then ts_fail t else Suc (ts_fail t))"
  by (auto simp: run_test_def Let_def reset_fresh test_passes_def split: option.splits exec_end.splits if_splits)

lemma run_tests_fail:
  "run_tests te file tfs t = Some t' \<Longrightarrow>
     ts_fail t \<le> ts_fail t' \<and> (ts_fail t' = ts_fail t \<longleftrightarrow> (\<forall>tf \<in> set tfs. test_passes (snd tf)))"
proof (induction tfs arbitrary: t)
  case (Cons tf tfs)
  from Cons.prems obtain t1 where t1: "run_test te file tf t = Some t1" "run_tests te file tfs t1 = Some t'"
    by (auto simp: bind_eq_Some_conv)
  from run_test_fail [OF t1(1)] Cons.IH [OF t1(2)] show ?case by (auto split: if_splits)
qed simp

lemma run_file_fail:
  assumes "run_file n te f absPath t = Some t'"
  shows "ts_fail t \<le> ts_fail t' \<and> (ts_fail t' = ts_fail t \<longleftrightarrow> file_passes n te absPath t)"
proof -
  from assms obtain r m where r: "run_program (interceptLoad n te absPath) ms_world (\<lambda>w m. m\<lparr>ms_world := w\<rparr>)
      (te_exec te absPath (ts_reporter t)) (NewModuleLoader (ts_rt t) (ts_reporter t)) = Some (r, m)"
    by (auto simp: run_file_def Let_def put_line_def split: option.splits)
  show ?thesis
  proof (cases r)
    case (EndOk g)
    with assms r have "run_tests te f (collect_tests te g) (foldl (\<lambda>t s. put_line s t)
        ((put_line (''# '' @ path_Base f) t)\<lparr>ts_rt := ms_rt m, ts_reporter := ms_world m\<rparr>) (skipped_lines te g)) = Some t'"
      by (simp add: run_file_def Let_def put_line_def)
    from run_tests_fail [OF this] put_lines_fail [of id] show ?thesis by (simp add: file_passes_def r EndOk)
  qed (use assms r in \<open>auto simp: run_file_def Let_def put_line_def file_passes_def\<close>)
qed

lemma run_files_fail:
  "run_files n te fs t = Some (err, t') \<Longrightarrow>
     ts_fail t \<le> ts_fail t' \<and> (err = None \<and> ts_fail t' = ts_fail t \<longleftrightarrow> all_pass n te fs t)"
proof (induction fs arbitrary: t)
  case (Cons f fs)
  show ?case
  proof (cases "path_Abs te f")
    case (Inr absPath)
    with Cons.prems obtain t1 where t1: "run_file n te f absPath t = Some t1" "run_files n te fs t1 = Some (err, t')"
      by (auto simp: bind_eq_Some_conv)
    from run_file_fail [OF t1(1)] Cons.IH [OF t1(2)] Inr t1(1) show ?thesis by auto
  qed (use Cons.prems in auto)
qed auto


text \<open>
  Failures that the top level of a test file reports are lost: the reporter is reset before the first test and not
  looked at otherwise, so a file whose top-level assertions all fail passes.
\<close>

theorem toplevel_failures_lost:
  assumes "discoverTestFiles dir (te_tree te dir) = Inr [f]" and "path_Abs te f = Inr absPath"
    and "te_exec te absPath \<lparr>tr_failed = False, tr_errors = []\<rparr> = Halt (EndOk []) (tr_Error msg \<lparr>tr_failed = False, tr_errors = []\<rparr>)"
  shows "\<exists>out. Run n te dir = Some (None, out)"
  using assms by (simp add: Run_def run_file_def Let_def collect_tests_def skipped_lines_def summary_def)

section \<open>A run\<close>

text \<open>A directory with one test file, whose only test fails.\<close>

definition ex_tests :: test_env where
  "ex_tests = \<lparr>te_cwd = Inr ''/w'', te_tree = (\<lambda>d. Inr (DirEntry d (Inr [FileEntry ''a.star'', FileEntry ''a_test.star'']))),
     te_exec = (\<lambda>_ r. Halt (EndOk [(''test_x'', SOther ''function'' True)]) r),
     te_function = (\<lambda>_. Some \<lparr>fn_NumParams = 0, fn_Line = 1, fn_Call = (\<lambda>r. Some (EndOk [], tr_Error ''no'' r))\<rparr>),
     te_assert = Inr [], te_elapsed = (\<lambda>_ _. ''0.00''), te_color = False,
     te_loader = \<lparr>ml_inlineModules = [], ml_searchPaths = [], ml_predeclared = [], ml_defaultRegistry = [], ml_lib = ex_name_pkg,
       ml_fs = (\<lambda>_. FileNotExist ''none''), ml_parse = (\<lambda>_ _. Inr [OtherStmt]),
       ml_ip = \<lparr>ip_compile = (\<lambda>_ _ _. Inl ''none''), ip_hash = (\<lambda>s. s)\<rparr>\<rparr>\<rparr>"

lemma ex_tests_run:
  "Run 1 ex_tests ''t'' = Some (Some ''1 of 1 tests failed'',
     [''# a_test.star'', ''=== RUN   test_x'', ''    no'', ''--- FAIL: test_x (0.00s)'', ''FAIL'' @ CHR 0x09 # ''1 tests: 0 passed, 1 failed''])"
  by code_simp


end
