(* ===== verification/Regex.thy ===== *)
theory Regex
  imports Starlark
begin

text \<open>
  The regex module (\<^verbatim>\<open>builtins/regex.go\<close>): the bounded cache of compiled patterns and the seven
  builtins. Matching itself is Go's \<^verbatim>\<open>regexp\<close>; a compiled pattern is the record of what the builtins call.
  The cache keeps its entries in a list, most recently used first, and a map from the pattern to the
  list element; an element is identified with its entry.
\<close>

section \<open>The cache\<close>

record regexp =
  MatchString :: "string \<Rightarrow> bool"
  FindStringIndex :: "string \<Rightarrow> (nat \<times> nat) option"
  FindAllString :: "string \<Rightarrow> string list"
  FindStringSubmatch :: "string \<Rightarrow> string list option"
  FindStringSubmatchIndex :: "string \<Rightarrow> int list option"
  ExpandString :: "string \<Rightarrow> string \<Rightarrow> int list \<Rightarrow> string"
  ReplaceAllString :: "string \<Rightarrow> string \<Rightarrow> string"
  regexp_Split :: "string \<Rightarrow> string list"

text \<open>\<^verbatim>\<open>regexp.Compile\<close>.\<close>

type_synonym compiler = "string \<Rightarrow> string + regexp"

record cacheEntry =
  ce_pattern :: string
  ce_re :: regexp

record regexCache =
  rc_capacity :: nat
  rc_ll :: "cacheEntry list"
  rc_items :: "string \<Rightarrow> cacheEntry option"

definition newRegexCache :: "nat \<Rightarrow> regexCache" where
  "newRegexCache capacity = \<lparr>rc_capacity = capacity, rc_ll = [], rc_items = (\<lambda>_. None)\<rparr>"

definition MoveToFront :: "cacheEntry \<Rightarrow> cacheEntry list \<Rightarrow> cacheEntry list" where
  "MoveToFront el ll = el # remove1 el ll"

text \<open>The eviction: the element at the back is removed from the list and its pattern from the map.\<close>

definition evict :: "regexCache \<Rightarrow> regexCache" where
  "evict c =
     (if length (rc_ll c) > rc_capacity c
      then c\<lparr>rc_ll := butlast (rc_ll c), rc_items := (rc_items c)(ce_pattern (last (rc_ll c)) := None)\<rparr>
      else c)"

definition rc_get :: "compiler \<Rightarrow> string \<Rightarrow> regexCache \<Rightarrow> (string + regexp) \<times> regexCache" where
  "rc_get cmp pattern c =
     (case rc_items c pattern of
        Some el \<Rightarrow> (Inr (ce_re el), c\<lparr>rc_ll := MoveToFront el (rc_ll c)\<rparr>)
      | None \<Rightarrow>
          (case cmp pattern of
             Inl e \<Rightarrow> (Inl e, c)
           | Inr re \<Rightarrow>
               let el = \<lparr>ce_pattern = pattern, ce_re = re\<rparr> in
               (Inr re, evict (c\<lparr>rc_ll := el # rc_ll c, rc_items := (rc_items c)(pattern \<mapsto> el)\<rparr>))))"

definition defaultCache :: regexCache where
  "defaultCache = newRegexCache 64"

definition compilePattern :: "compiler \<Rightarrow> string \<Rightarrow> string \<Rightarrow> regexCache \<Rightarrow> (serror + regexp) \<times> regexCache" where
  "compilePattern cmp fnName pattern c =
     (case rc_get cmp pattern c of
        (Inl e, c) \<Rightarrow> (Inl (EIn fnName (EMsg e)), c)
      | (Inr re, c) \<Rightarrow> (Inr re, c))"

section \<open>The builtins\<close>

text \<open>Each takes its unpacked arguments and the package's cache.\<close>

definition with_pattern ::
  "compiler \<Rightarrow> string \<Rightarrow> string \<Rightarrow> (regexp \<Rightarrow> sval) \<Rightarrow> regexCache \<Rightarrow> (serror + sval) \<times> regexCache" where
  "with_pattern cmp fnName pattern f c =
     (case compilePattern cmp fnName pattern c of
        (Inl e, c) \<Rightarrow> (Inl e, c)
      | (Inr re, c) \<Rightarrow> (Inr (f re), c))"

definition regexMatch :: "compiler \<Rightarrow> string \<Rightarrow> string \<Rightarrow> regexCache \<Rightarrow> (serror + sval) \<times> regexCache" where
  "regexMatch cmp pattern s = with_pattern cmp ''regex.match'' pattern (\<lambda>re. SBool (MatchString re s))"

definition regexFind :: "compiler \<Rightarrow> string \<Rightarrow> string \<Rightarrow> regexCache \<Rightarrow> (serror + sval) \<times> regexCache" where
  "regexFind cmp pattern s = with_pattern cmp ''regex.find'' pattern (\<lambda>re.
     case FindStringIndex re s of
       None \<Rightarrow> SNone
     | Some (a, b) \<Rightarrow> SString (take (b - a) (drop a s)))"

definition regexFindAll :: "compiler \<Rightarrow> string \<Rightarrow> string \<Rightarrow> regexCache \<Rightarrow> (serror + sval) \<times> regexCache" where
  "regexFindAll cmp pattern s = with_pattern cmp ''regex.find_all'' pattern (\<lambda>re.
     SList False (map SString (FindAllString re s)))"

definition regexFindGroups :: "compiler \<Rightarrow> string \<Rightarrow> string \<Rightarrow> regexCache \<Rightarrow> (serror + sval) \<times> regexCache" where
  "regexFindGroups cmp pattern s = with_pattern cmp ''regex.find_groups'' pattern (\<lambda>re.
     case FindStringSubmatch re s of
       None \<Rightarrow> SNone
     | Some groups \<Rightarrow> SList False (map SString (tl groups)))"

definition replace_first :: "regexp \<Rightarrow> string \<Rightarrow> string \<Rightarrow> string" where
  "replace_first re s replacement =
     (case FindStringSubmatchIndex re s of
        None \<Rightarrow> s
      | Some loc \<Rightarrow> take (nat (loc ! 0)) s @ ExpandString re replacement s loc @ drop (nat (loc ! 1)) s)"

definition regexReplace ::
  "compiler \<Rightarrow> string \<Rightarrow> string \<Rightarrow> string \<Rightarrow> regexCache \<Rightarrow> (serror + sval) \<times> regexCache" where
  "regexReplace cmp pattern s replacement = with_pattern cmp ''regex.replace'' pattern (\<lambda>re.
     SString (replace_first re s replacement))"

definition regexReplaceAll ::
  "compiler \<Rightarrow> string \<Rightarrow> string \<Rightarrow> string \<Rightarrow> regexCache \<Rightarrow> (serror + sval) \<times> regexCache" where
  "regexReplaceAll cmp pattern s replacement = with_pattern cmp ''regex.replace_all'' pattern (\<lambda>re.
     SString (ReplaceAllString re s replacement))"

definition regexSplit :: "compiler \<Rightarrow> string \<Rightarrow> string \<Rightarrow> regexCache \<Rightarrow> (serror + sval) \<times> regexCache" where
  "regexSplit cmp pattern s = with_pattern cmp ''regex.split'' pattern (\<lambda>re.
     SList False (map SString (regexp_Split re s)))"

section \<open>Least recently used\<close>

text \<open>
  The specification: the patterns in the order of their last use. A request for a pattern that does not
  compile is no use.
\<close>

definition touch :: "compiler \<Rightarrow> string \<Rightarrow> string list \<Rightarrow> string list" where
  "touch cmp p used = (case cmp p of Inl _ \<Rightarrow> used | Inr _ \<Rightarrow> p # removeAll p used)"

definition get_all :: "compiler \<Rightarrow> string list \<Rightarrow> regexCache \<Rightarrow> regexCache" where
  "get_all cmp ps c = fold (\<lambda>p c. snd (rc_get cmp p c)) ps c"

text \<open>The entry a pattern has whenever it is cached.\<close>

definition entry_of :: "compiler \<Rightarrow> string \<Rightarrow> cacheEntry" where
  "entry_of cmp p = \<lparr>ce_pattern = p, ce_re = projr (cmp p)\<rparr>"

definition cache_of :: "compiler \<Rightarrow> nat \<Rightarrow> string list \<Rightarrow> regexCache" where
  "cache_of cmp n used =
     \<lparr>rc_capacity = n, rc_ll = map (entry_of cmp) (take n used),
      rc_items = (\<lambda>p. if p \<in> set (take n used) then Some (entry_of cmp p) else None)\<rparr>"

lemma removeAll_take_in: "distinct used \<Longrightarrow> p \<in> set (take n used) \<Longrightarrow> removeAll p (take n used) = take (n - 1) (removeAll p used)"
proof (induction used arbitrary: n)
  case (Cons q used)
  then show ?case by (cases n) (auto simp: take_Cons' dest: in_set_takeD intro!: removeAll_id)
qed simp

lemma take_removeAll_notin: "p \<notin> set (take n used) \<Longrightarrow> take n (p # removeAll p used) = take n (p # take n used)"
proof (induction used arbitrary: n)
  case (Cons q used)
  show ?case
  proof (cases n)
    case (Suc m)
    with Cons.prems have "p \<noteq> q" "p \<notin> set (take m used)" by auto
    with Cons.IH [of m] Suc show ?thesis by (cases m) auto
  qed simp
qed simp

lemma map_entry_remove1:
  "distinct ps \<Longrightarrow> remove1 (entry_of cmp p) (map (entry_of cmp) ps) = map (entry_of cmp) (removeAll p ps)"
  by (induction ps) (auto simp: entry_of_def removeAll_id)

lemma ce_pattern_entry_of [simp]: "ce_pattern (entry_of cmp p) = p"
  by (simp add: entry_of_def)

lemma evict_map:
  assumes "distinct ps" and "rc_ll c = map (entry_of cmp) ps" and "length ps \<le> Suc (rc_capacity c)"
    and "rc_items c = (\<lambda>p. if p \<in> set ps then Some (entry_of cmp p) else None)"
  shows "evict c = cache_of cmp (rc_capacity c) ps"
proof (cases "length ps \<le> rc_capacity c")
  case True
  with assms show ?thesis by (cases c) (simp add: evict_def cache_of_def)
next
  case False
  with assms(3) obtain qs q where ps: "ps = qs @ [q]" "length qs = rc_capacity c"
    by (cases ps rule: rev_cases) auto
  with assms show ?thesis by (cases c) (auto simp: evict_def cache_of_def)
qed

text \<open>One request: the cache stays the first \<open>n\<close> of the recently used patterns.\<close>

lemma rc_get_cache_of:
  assumes "distinct used" and "\<forall>q \<in> set used. \<not> isl (cmp q)"
  shows "rc_get cmp p (cache_of cmp n used) = (cmp p, cache_of cmp n (touch cmp p used))"
proof (cases "cmp p")
  case (Inl e)
  then have "p \<notin> set (take n used)" using assms(2) by (metis in_set_takeD isl_def)
  with Inl show ?thesis by (simp add: rc_get_def cache_of_def touch_def)
next
  case (Inr re)
  let ?ps = "take n used"
  have e: "entry_of cmp p = \<lparr>ce_pattern = p, ce_re = re\<rparr>" using Inr by (simp add: entry_of_def)
  show ?thesis
  proof (cases "p \<in> set ?ps")
    case True
    then have n: "n = Suc (n - 1)" by (cases n) auto
    then have t: "take n (p # removeAll p used) = p # removeAll p ?ps"
      using removeAll_take_in [OF assms(1) True] by (metis take_Suc_Cons)
    then have "set (take n (p # removeAll p used)) = set ?ps" using True by auto
    with True Inr t map_entry_remove1 [of ?ps cmp p] assms(1) show ?thesis
      by (simp add: rc_get_def cache_of_def touch_def MoveToFront_def e)
  next
    case False
    let ?c = "(cache_of cmp n used)\<lparr>rc_ll := entry_of cmp p # rc_ll (cache_of cmp n used),
       rc_items := (rc_items (cache_of cmp n used))(p \<mapsto> entry_of cmp p)\<rparr>"
    have "evict ?c = cache_of cmp n (p # ?ps)"
      using evict_map [of "p # ?ps" ?c cmp] False assms(1) by (simp add: cache_of_def fun_eq_iff)
    also have "\<dots> = cache_of cmp n (touch cmp p used)"
      using Inr take_removeAll_notin [OF False] by (simp add: cache_of_def touch_def)
    finally have "evict ?c = cache_of cmp n (touch cmp p used)" .
    moreover have "rc_items (cache_of cmp n used) p = None" using False by (simp add: cache_of_def)
    ultimately show ?thesis using Inr by (simp add: rc_get_def e Let_def)
  qed
qed

text \<open>The states of a cache that has room for \<open>n\<close> patterns.\<close>

definition lru_state :: "compiler \<Rightarrow> nat \<Rightarrow> string list \<Rightarrow> regexCache \<Rightarrow> bool" where
  "lru_state cmp n used c \<longleftrightarrow> c = cache_of cmp n used \<and> distinct used \<and> (\<forall>q \<in> set used. \<not> isl (cmp q))"

lemma rc_get_lru:
  "lru_state cmp n used c \<Longrightarrow> fst (rc_get cmp p c) = cmp p \<and> lru_state cmp n (touch cmp p used) (snd (rc_get cmp p c))"
  using rc_get_cache_of [of used cmp p n]
  by (auto simp: lru_state_def touch_def distinct_removeAll split: sum.splits)

interpretation rx: memo "rc_get cmp" cmp UNIV "\<lambda>c. \<exists>used. lru_state cmp n used c" for cmp n
  by unfold_locales (use rc_get_lru in blast)+

lemma get_all_lru: "lru_state cmp n used c \<Longrightarrow> lru_state cmp n (fold (touch cmp) ps used) (get_all cmp ps c)"
  unfolding get_all_def by (induction ps arbitrary: used c) (use rc_get_lru in fastforce)+

text \<open>
  C23. The pattern cache is a least-recently-used cache and never changes an answer: after any requests it
  holds the last \<open>n\<close> different patterns that compiled, most recently used first, in list and map alike, and a
  request is answered with what compiling the pattern gives.
\<close>

theorem regex_cache_lru:
  "\<exists>c. c = get_all cmp ps (newRegexCache n) \<and>
     map ce_pattern (rc_ll c) = take n (fold (touch cmp) ps []) \<and>
     (\<lambda>p. map_option ce_pattern (rc_items c p)) = (\<lambda>p. if p \<in> set (take n (fold (touch cmp) ps [])) then Some p else None) \<and>
     fst (rc_get cmp p c) = cmp p"
proof -
  have new: "lru_state cmp n [] (newRegexCache n)" by (simp add: lru_state_def newRegexCache_def cache_of_def)
  then have "fst (rc_get cmp p (get_all cmp ps (newRegexCache n))) = cmp p"
    unfolding get_all_def by (intro rx.transparent) auto
  moreover from get_all_lru [OF new]
  have "get_all cmp ps (newRegexCache n) = cache_of cmp n (fold (touch cmp) ps [])" by (simp add: lru_state_def)
  moreover have "map ce_pattern (map (entry_of cmp) qs) = qs" for qs by (induction qs) auto
  ultimately show ?thesis by (auto simp: cache_of_def fun_eq_iff simp del: map_map)
qed

end
