(* ===== verification/Codec.thy ===== *)
theory Codec
  imports Sha256
begin

text \<open>
  The codecs of Go's standard library behind the encoding module: \<^verbatim>\<open>encoding/hex\<close>,
  \<^verbatim>\<open>encoding/base64\<close> (standard with padding, URL-safe without) and \<^verbatim>\<open>encoding/base32\<close> (without padding). Bytes
  are numbers below 256. A decoder stops at the first offence; its error is the offset the library reports.
\<close>

section \<open>Numbers and digits\<close>

text \<open>The value of digits in a base, most significant first, and \<open>k\<close> digits of a number.\<close>

definition num_of :: "nat \<Rightarrow> nat list \<Rightarrow> nat" where
  "num_of b ds = foldl (\<lambda>n d. n * b + d) 0 ds"

fun digits_of :: "nat \<Rightarrow> nat \<Rightarrow> nat \<Rightarrow> nat list" where
  "digits_of b 0 n = []"
| "digits_of b (Suc k) n = digits_of b k (n div b) @ [n mod b]"

lemma num_of_snoc [simp]: "num_of b (ds @ [d]) = num_of b ds * b + d"
  by (simp add: num_of_def)

lemma num_of_Nil [simp]: "num_of b [] = 0"
  by (simp add: num_of_def)

lemma length_digits_of [simp]: "length (digits_of b k n) = k"
  by (induction k arbitrary: n) auto

lemma digits_of_num_of: "\<forall>d \<in> set ds. d < b \<Longrightarrow> digits_of b (length ds) (num_of b ds) = ds"
  by (induction ds rule: rev_induct) auto

lemma num_of_digits_of: "n < b ^ k \<Longrightarrow> num_of b (digits_of b k n) = n"
proof (induction k arbitrary: n)
  case (Suc k)
  then have "n div b < b ^ k" by (metis less_mult_imp_div_less power_Suc2)
  with Suc.IH show ?case by simp
qed simp

lemma num_of_bound: "\<forall>d \<in> set ds. d < b \<Longrightarrow> num_of b ds < b ^ length ds"
proof (induction ds rule: rev_induct)
  case (snoc d ds)
  then have "num_of b ds + 1 \<le> b ^ length ds" "d < b" by auto
  then have "(num_of b ds + 1) * b \<le> b ^ length ds * b" by (intro mult_le_mono1)
  with \<open>d < b\<close> show ?case by (simp add: algebra_simps)
qed simp

lemma num_of_zeros: "num_of b (ds @ replicate r 0) = num_of b ds * b ^ r"
  by (induction r) (simp_all add: replicate_append_same [symmetric] del: replicate_append_same flip: append_assoc)

lemma digits_of_bound: "0 < b \<Longrightarrow> d \<in> set (digits_of b k n) \<Longrightarrow> d < b"
  by (induction k arbitrary: n) auto

lemma digits_of_multiple: "0 < b \<Longrightarrow> digits_of b (k + r) (n * b ^ r) = digits_of b k n @ replicate r 0"
  by (induction r arbitrary: n)
    (simp_all add: mult.assoc [symmetric] power_Suc2 replicate_append_same [symmetric] del: power_Suc replicate_append_same)

section \<open>Blocks\<close>

text \<open>
  Blocks of \<open>B\<close> bytes are written as \<open>C\<close> digits of \<open>k\<close> bits; a shorter last block is filled up with zeros, and only
  the digits that carry bits of it are written. Decoding fills up the digits and keeps \<open>n\<close> bytes.
\<close>

definition encode_block :: "nat \<Rightarrow> nat \<Rightarrow> nat \<Rightarrow> nat list \<Rightarrow> nat list" where
  "encode_block k B C bs =
     take ((8 * length bs + k - 1) div k) (digits_of (2 ^ k) C (num_of 256 (bs @ replicate (B - length bs) 0)))"

definition decode_block :: "nat \<Rightarrow> nat \<Rightarrow> nat \<Rightarrow> nat \<Rightarrow> nat list \<Rightarrow> nat list" where
  "decode_block k B C n ds = take n (digits_of 256 B (num_of (2 ^ k) (ds @ replicate (C - length ds) 0)))"

definition bytes_ok :: "nat list \<Rightarrow> bool" where
  "bytes_ok bs \<longleftrightarrow> (\<forall>b \<in> set bs. b < 256)"

lemma bytes_ok_simps [simp]:
  "bytes_ok []" "bytes_ok (b # bs) \<longleftrightarrow> b < 256 \<and> bytes_ok bs" "bytes_ok (bs @ cs) \<longleftrightarrow> bytes_ok bs \<and> bytes_ok cs"
  by (auto simp: bytes_ok_def)

text \<open>The contract of a block code: both block sizes have the same number of bits.\<close>

locale block_code =
  fixes k :: nat and B :: nat and C :: nat
  assumes bits: "8 * B = k * C" and k_pos: "0 < k"
begin

abbreviation digit_count :: "nat \<Rightarrow> nat" where
  "digit_count n \<equiv> (8 * n + k - 1) div k"

lemma digit_count_enough: "8 * n \<le> k * digit_count n"
proof -
  have "8 * n + k - 1 < k * (digit_count n + 1)"
    using k_pos by (simp add: dividend_less_times_div)
  then show ?thesis using k_pos by simp
qed

lemma digit_count_le: "n \<le> B \<Longrightarrow> digit_count n \<le> C"
proof -
  assume "n \<le> B"
  then have "8 * n + k - 1 \<le> k * C + (k - 1)" using bits k_pos by linarith
  then have "digit_count n \<le> (k * C + (k - 1)) div k" by (rule div_le_mono)
  also have "\<dots> = C" using k_pos by (intro div_nat_eqI) (auto simp: algebra_simps)
  finally show ?thesis .
qed

lemma block_value:
  assumes "length bs \<le> B" and "bytes_ok bs"
  shows "digits_of (2 ^ k) C (num_of 256 (bs @ replicate (B - length bs) 0)) =
     encode_block k B C bs @ replicate (C - digit_count (length bs)) 0"
proof -
  let ?m = "digit_count (length bs)" and ?r = "C - digit_count (length bs)"
  have m: "?m + ?r = C" using digit_count_le [OF assms(1)] by simp
  have "k * ?r \<le> 8 * (B - length bs)"
    using digit_count_enough [of "length bs"] bits assms(1) by (simp add: diff_mult_distrib2)
  then obtain e where e: "8 * (B - length bs) = k * ?r + e" by (metis le_iff_add)
  have "(256 :: nat) ^ (B - length bs) = 2 ^ (8 * (B - length bs))" by (simp add: power_mult)
  also have "\<dots> = 2 ^ e * (2 ^ k) ^ ?r" by (simp add: e power_add power_mult)
  finally have "num_of 256 (bs @ replicate (B - length bs) 0) = (num_of 256 bs * 2 ^ e) * (2 ^ k) ^ ?r"
    by (simp add: num_of_zeros)
  with digits_of_multiple [of "2 ^ k" ?m ?r "num_of 256 bs * 2 ^ e"] m
  have "digits_of (2 ^ k) C (num_of 256 (bs @ replicate (B - length bs) 0)) =
      digits_of (2 ^ k) ?m (num_of 256 bs * 2 ^ e) @ replicate ?r 0" by simp
  then show ?thesis by (simp add: encode_block_def)
qed

lemma length_encode_block: "length bs \<le> B \<Longrightarrow> length (encode_block k B C bs) = digit_count (length bs)"
  using digit_count_le by (simp add: encode_block_def)

lemma encode_block_digits: "d \<in> set (encode_block k B C bs) \<Longrightarrow> d < 2 ^ k"
  using digits_of_bound [of "2 ^ k"] by (auto simp: encode_block_def dest: in_set_takeD)

lemma decode_encode_block:
  assumes "length bs \<le> B" and "bytes_ok bs"
  shows "decode_block k B C (length bs) (encode_block k B C bs) = bs"
proof -
  let ?zs = "bs @ replicate (B - length bs) 0"
  have ok: "\<forall>d \<in> set ?zs. d < 256" using assms(2) by (auto simp: bytes_ok_def)
  have len: "length ?zs = B" using assms(1) by simp
  have "num_of 256 ?zs < 2 ^ (8 * B)" using num_of_bound [OF ok] len by (simp add: power_mult)
  then have "num_of 256 ?zs < (2 ^ k) ^ C" by (simp add: bits flip: power_mult)
  then have "num_of (2 ^ k) (encode_block k B C bs @ replicate (C - digit_count (length bs)) 0) = num_of 256 ?zs"
    unfolding block_value [OF assms, symmetric] by (rule num_of_digits_of)
  then have "decode_block k B C (length bs) (encode_block k B C bs) = take (length bs) (digits_of 256 B (num_of 256 ?zs))"
    using length_encode_block [OF assms(1)] by (simp add: decode_block_def)
  also have "\<dots> = take (length bs) ?zs" using digits_of_num_of [OF ok] len by simp
  finally show ?thesis by simp
qed

end

interpretation b64: block_code 6 3 4
  by unfold_locales simp_all

interpretation b32: block_code 5 5 8
  by unfold_locales simp_all

section \<open>Alphabets\<close>

definition upper_letters :: string where
  "upper_letters = ''ABCDEFGHIJKLMNOPQRSTUVWXYZ''"

definition base64_std :: string where
  "base64_std = upper_letters @ ''abcdefghijklmnopqrstuvwxyz0123456789+/''"

definition base64_url :: string where
  "base64_url = upper_letters @ ''abcdefghijklmnopqrstuvwxyz0123456789-_''"

definition base32_std :: string where
  "base32_std = upper_letters @ ''234567''"

text \<open>The decode map of an alphabet.\<close>

definition decode_map :: "string \<Rightarrow> char \<Rightarrow> nat option" where
  "decode_map alphabet c = (if c \<in> set alphabet then Some (length (takeWhile (\<lambda>d. d \<noteq> c) alphabet)) else None)"

lemma decode_map_nth: "distinct alphabet \<Longrightarrow> i < length alphabet \<Longrightarrow> decode_map alphabet (alphabet ! i) = Some i"
proof (induction alphabet arbitrary: i)
  case (Cons c alphabet)
  then show ?case by (cases i) (auto simp: decode_map_def split: if_splits)
qed simp

lemma alphabets:
  "distinct base64_std" "length base64_std = 64" "distinct base64_url" "length base64_url = 64"
  "distinct base32_std" "length base32_std = 32"
  by code_simp+

section \<open>Base 64\<close>

definition pad_char :: char where
  "pad_char = CHR ''=''"

fun base64_encode :: "string \<Rightarrow> bool \<Rightarrow> nat list \<Rightarrow> string" where
  "base64_encode alphabet padded (a # b # c # bs) =
     map ((!) alphabet) (encode_block 6 3 4 [a, b, c]) @ base64_encode alphabet padded bs"
| "base64_encode alphabet padded [] = []"
| "base64_encode alphabet padded bs =
     map ((!) alphabet) (encode_block 6 3 4 bs) @ (if padded then replicate (3 - length bs) pad_char else [])"

definition is_newline :: "char \<Rightarrow> bool" where
  "is_newline c \<longleftrightarrow> c = CHR 0x0A \<or> c = CHR 0x0D"

text \<open>
  \<^verbatim>\<open>decodeQuantum\<close>: \<open>acc\<close> are the digits read so far, \<open>si\<close> the offset. It returns the bytes, the rest of the
  input and its offset. Line breaks are skipped; the padding has to end the input.
\<close>

definition base64_end :: "nat list \<Rightarrow> string \<Rightarrow> nat \<Rightarrow> nat + nat list \<times> string \<times> nat" where
  "base64_end bytes src si =
     (let si = si + length (takeWhile is_newline src) in
      if dropWhile is_newline src = [] then Inr (bytes, [], si) else Inl si)"

definition base64_pad :: "nat list \<Rightarrow> string \<Rightarrow> nat \<Rightarrow> nat + nat list \<times> string \<times> nat" where
  "base64_pad acc src si =
     (let bytes = decode_block 6 3 4 (length acc - 1) acc in
      if length acc \<le> 1 then Inl (si - 1)
      else if length acc = 2 then
        (let si = si + length (takeWhile is_newline src) in
         case dropWhile is_newline src of
           [] \<Rightarrow> Inl si
         | d # ds \<Rightarrow> if d \<noteq> pad_char then Inl (si - 1) else base64_end bytes ds (si + 1))
      else base64_end bytes src si)"

fun base64_quantum ::
  "string \<Rightarrow> bool \<Rightarrow> string \<Rightarrow> nat \<Rightarrow> nat list \<Rightarrow> nat + nat list \<times> string \<times> nat" where
  "base64_quantum alphabet padded [] si acc =
     (if acc = [] then Inr ([], [], si)
      else if length acc = 1 \<or> padded then Inl (si - length acc)
      else Inr (decode_block 6 3 4 (length acc - 1) acc, [], si))"
| "base64_quantum alphabet padded (c # cs) si acc =
     (case decode_map alphabet c of
        Some x \<Rightarrow>
          if length acc = 3 then Inr (decode_block 6 3 4 3 (acc @ [x]), cs, si + 1)
          else base64_quantum alphabet padded cs (si + 1) (acc @ [x])
      | None \<Rightarrow>
          if is_newline c then base64_quantum alphabet padded cs (si + 1) acc
          else if \<not> padded \<or> c \<noteq> pad_char then Inl si
          else base64_pad acc cs (si + 1))"

lemma base64_end_shorter: "base64_end bytes src si = Inr (bs, rest, si') \<Longrightarrow> rest = []"
  by (auto simp: base64_end_def Let_def split: if_splits)

lemma base64_pad_shorter: "base64_pad acc src si = Inr (bs, rest, si') \<Longrightarrow> rest = []"
  by (auto simp: base64_pad_def Let_def dest: base64_end_shorter split: if_splits list.splits)

lemma base64_quantum_shorter:
  "base64_quantum alphabet padded src si acc = Inr (bs, rest, si') \<Longrightarrow> src \<noteq> [] \<Longrightarrow> length rest < length src"
proof (induction src arbitrary: si acc)
  case (Cons c cs)
  then show ?case
    by (cases "cs = []") (fastforce dest: base64_pad_shorter split: option.splits if_splits)+
qed simp

function base64_decode :: "string \<Rightarrow> bool \<Rightarrow> string \<Rightarrow> nat \<Rightarrow> nat + nat list" where
  "base64_decode alphabet padded src si =
     (if src = [] then Inr []
      else case base64_quantum alphabet padded src si [] of
          Inl e \<Rightarrow> Inl e
        | Inr (bs, rest, si) \<Rightarrow> bind_res (base64_decode alphabet padded rest si) (\<lambda>cs. Inr (bs @ cs)))"
  by pat_completeness auto

termination
  by (relation "measure (\<lambda>(_, _, src, _). length src)") (auto dest: base64_quantum_shorter)

declare base64_decode.simps [simp del]

subsection \<open>Round trip\<close>

lemma quantum_digits:
  assumes "distinct alphabet" and "length alphabet = 64" and "\<forall>d \<in> set ds. d < 64" and "length acc + length ds < 4"
  shows "base64_quantum alphabet padded (map ((!) alphabet) ds @ rest) si acc =
     base64_quantum alphabet padded rest (si + length ds) (acc @ ds)"
  using assms(3,4)
proof (induction ds arbitrary: si acc)
  case (Cons d ds)
  then show ?case using decode_map_nth [OF assms(1), of d] assms(2) by simp
qed simp

lemma quantum_full:
  assumes "distinct alphabet" and "length alphabet = 64" and "\<forall>d \<in> set ds. d < 64" and "length ds = 4"
  shows "base64_quantum alphabet padded (map ((!) alphabet) ds @ rest) si [] = Inr (decode_block 6 3 4 3 ds, rest, si + 4)"
proof -
  from assms(4) obtain es d where ds: "ds = es @ [d]" "length es = 3" by (cases ds rule: rev_cases) auto
  with quantum_digits [OF assms(1,2), of es "[]" padded "map ((!) alphabet) [d] @ rest" si] assms(3)
    decode_map_nth [OF assms(1), of d] assms(2)
  show ?thesis by simp
qed

lemma pad_not_letter: "decode_map base64_std pad_char = None" "decode_map base64_url pad_char = None" "\<not> is_newline pad_char"
  by code_simp+

lemma base64_block:
  assumes "0 < length bs" "length bs \<le> 3" "bytes_ok bs"
  shows "length (encode_block 6 3 4 bs) = length bs + 1" "\<forall>d \<in> set (encode_block 6 3 4 bs). d < 64"
    "decode_block 6 3 4 (length bs) (encode_block 6 3 4 bs) = bs"
proof -
  from assms(1,2) consider "length bs = 1" | "length bs = 2" | "length bs = 3" by linarith
  then show "length (encode_block 6 3 4 bs) = length bs + 1"
    by cases (simp_all add: b64.length_encode_block)
  show "\<forall>d \<in> set (encode_block 6 3 4 bs). d < 64" using b64.encode_block_digits by force
  show "decode_block 6 3 4 (length bs) (encode_block 6 3 4 bs) = bs" using b64.decode_encode_block assms(2,3) by simp
qed

lemma quantum_last:
  assumes "distinct alphabet" and "length alphabet = 64" and "decode_map alphabet pad_char = None"
    and "0 < length bs" "length bs < 3" "bytes_ok bs"
  shows "\<exists>si'. base64_quantum alphabet padded
     (map ((!) alphabet) (encode_block 6 3 4 bs) @ (if padded then replicate (3 - length bs) pad_char else [])) si [] = Inr (bs, [], si')"
proof -
  note block = base64_block [OF assms(4) less_imp_le [OF assms(5)] assms(6)]
  from assms(4,5) consider (one) "length bs = 1" | (two) "length bs = 2" by linarith
  then show ?thesis
  proof cases
    case one
    with block assms(3) quantum_digits [OF assms(1,2) block(2), of "[]"] pad_not_letter(3)
    show ?thesis by (auto simp: base64_pad_def base64_end_def numeral_2_eq_2)
  next
    case two
    with block assms(3) quantum_digits [OF assms(1,2) block(2), of "[]"] pad_not_letter(3)
    show ?thesis by (auto simp: base64_pad_def base64_end_def)
  qed
qed

lemmas base64_encode_blocks = base64_encode.induct [case_names full none one two]

lemma base64_round_trip:
  "distinct alphabet \<Longrightarrow> length alphabet = 64 \<Longrightarrow> decode_map alphabet pad_char = None \<Longrightarrow> bytes_ok bs \<Longrightarrow>
     base64_decode alphabet padded (base64_encode alphabet padded bs) si = Inr bs"
proof (induction alphabet padded bs arbitrary: si rule: base64_encode_blocks)
  case (full al p a b c bs)
  have block: "length (encode_block 6 3 4 [a, b, c]) = 4" "\<forall>d \<in> set (encode_block 6 3 4 [a, b, c]). d < 64"
    "decode_block 6 3 4 3 (encode_block 6 3 4 [a, b, c]) = [a, b, c]"
    using base64_block [of "[a, b, c]"] full(5) by (simp_all add: numeral_3_eq_3)
  from block(1) have "encode_block 6 3 4 [a, b, c] \<noteq> []" by auto
  with full quantum_full [OF full(2,3) block(2,1), of p "base64_encode al p bs" si] block(3) show ?case
    by (subst base64_decode.simps) simp
next
  case (none al p)
  then show ?case by (simp add: base64_decode.simps)
next
  case (one al p a)
  from quantum_last [OF one(1-3), of "[a]" p si] base64_block(1) [of "[a]"] one(4) show ?case
    by (subst base64_decode.simps) (auto simp: base64_decode.simps)
next
  case (two al p a b)
  from quantum_last [OF two(1-3), of "[a, b]" p si] base64_block(1) [of "[a, b]"] two(4) show ?case
    by (subst base64_decode.simps) (auto simp: base64_decode.simps)
qed

section \<open>Base 32\<close>

function base32_encode :: "nat list \<Rightarrow> string" where
  "base32_encode bs =
     (if bs = [] then [] else map ((!) base32_std) (encode_block 5 5 8 (take 5 bs)) @ base32_encode (drop 5 bs))"
  by pat_completeness auto

termination
  by (relation "measure length") auto

declare base32_encode.simps [simp del]

text \<open>
  The inner loop of \<^verbatim>\<open>decode\<close>: the digits of one block, the rest of the input, and whether the input has
  ended; \<open>olen\<close> is the length of the whole input. Without padding the library's padding character is the byte 255,
  which is still looked for.
\<close>

definition no_pad :: char where
  "no_pad = CHR 0xFF"

definition base32_pad :: "nat \<Rightarrow> nat list \<Rightarrow> string \<Rightarrow> nat + nat list \<times> string \<times> bool" where
  "base32_pad olen acc src =
     (let j = length acc; good = length (takeWhile (\<lambda>c. c = no_pad) (take (7 - j) src)) in
      if length src + j < 7 then Inl olen
      else if good < length (take (7 - j) src) then Inl (olen - length src + good - 1)
      else if j = 1 \<or> j = 3 \<or> j = 6 then Inl (olen - length src - 1)
      else Inr (acc, src, True))"

fun base32_quantum :: "nat \<Rightarrow> string \<Rightarrow> nat list \<Rightarrow> nat + nat list \<times> string \<times> bool" where
  "base32_quantum olen [] acc = Inr (acc, [], True)"
| "base32_quantum olen (c # cs) acc =
     (if c = no_pad \<and> 2 \<le> length acc \<and> length cs < 8 then base32_pad olen acc cs
      else case decode_map base32_std c of
          None \<Rightarrow> Inl (olen - length cs - 1)
        | Some x \<Rightarrow> if length acc = 7 then Inr (acc @ [x], cs, False) else base32_quantum olen cs (acc @ [x]))"

text \<open>How many bytes a block of \<open>n\<close> digits gives; the lengths 1, 3 and 6 give none.\<close>

definition base32_bytes :: "nat \<Rightarrow> nat" where
  "base32_bytes n = (if n \<in> {2, 4, 5, 7, 8} then 5 * n div 8 else 0)"

lemma base32_quantum_shorter:
  "base32_quantum olen src acc = Inr (ds, rest, e) \<Longrightarrow> src \<noteq> [] \<Longrightarrow> length rest < length src"
proof (induction src arbitrary: acc)
  case (Cons c cs)
  then show ?case
    by (cases "cs = []") (fastforce simp: base32_pad_def Let_def split: option.splits if_splits)+
qed simp

function base32_loop :: "nat \<Rightarrow> string \<Rightarrow> nat + nat list" where
  "base32_loop olen src =
     (if src = [] then Inr []
      else case base32_quantum olen src [] of
          Inl e \<Rightarrow> Inl e
        | Inr (ds, rest, ended) \<Rightarrow>
            let bs = decode_block 5 5 8 (base32_bytes (length ds)) ds in
            if ended then Inr bs else bind_res (base32_loop olen rest) (\<lambda>cs. Inr (bs @ cs)))"
  by pat_completeness auto

termination
  by (relation "measure (\<lambda>(_, src). length src)") (auto dest: base32_quantum_shorter)

declare base32_loop.simps [simp del]

definition base32_decode :: "string \<Rightarrow> nat + nat list" where
  "base32_decode s = (let src = filter (\<lambda>c. \<not> is_newline c) s in base32_loop (length src) src)"

subsection \<open>Round trip\<close>

lemma base32_letters: "c \<in> set base32_std \<Longrightarrow> c \<noteq> no_pad \<and> \<not> is_newline c"
  by (auto simp: base32_std_def upper_letters_def no_pad_def is_newline_def)

lemma base32_quantum_digits:
  assumes "\<forall>d \<in> set ds. d < 32" and "length acc + length ds < 8"
  shows "base32_quantum olen (map ((!) base32_std) ds @ rest) acc = base32_quantum olen rest (acc @ ds)"
  using assms
proof (induction ds arbitrary: acc)
  case (Cons d ds)
  then have d: "base32_std ! d \<in> set base32_std" using alphabets(6) by simp
  with Cons decode_map_nth [OF alphabets(5), of d] base32_letters [OF d] alphabets(6) show ?case by simp
qed simp

lemma base32_quantum_full:
  assumes "\<forall>d \<in> set ds. d < 32" and "length ds = 8"
  shows "base32_quantum olen (map ((!) base32_std) ds @ rest) [] = Inr (ds, rest, False)"
proof -
  from assms(2) obtain es d where ds: "ds = es @ [d]" "length es = 7" by (cases ds rule: rev_cases) auto
  then have d: "base32_std ! d \<in> set base32_std" using assms(1) alphabets(6) by simp
  from ds base32_quantum_digits [of es "[]" olen "map ((!) base32_std) [d] @ rest"] assms(1)
    decode_map_nth [OF alphabets(5), of d] base32_letters [OF d] alphabets(6)
  show ?thesis by simp
qed

lemma base32_block:
  assumes "0 < length bs" "length bs \<le> 5" "bytes_ok bs"
  shows "base32_bytes (length (encode_block 5 5 8 bs)) = length bs" "\<forall>d \<in> set (encode_block 5 5 8 bs). d < 32"
    "decode_block 5 5 8 (length bs) (encode_block 5 5 8 bs) = bs"
    "length bs = 5 \<longleftrightarrow> length (encode_block 5 5 8 bs) = 8" "length (encode_block 5 5 8 bs) \<le> 8"
    "encode_block 5 5 8 bs \<noteq> []"
proof -
  from assms(1,2) consider "length bs = 1" | "length bs = 2" | "length bs = 3" | "length bs = 4" | "length bs = 5"
    by linarith
  then have "(length bs, length (encode_block 5 5 8 bs)) \<in> {(1, 2), (2, 4), (3, 5), (4, 7), (5, 8)}"
    by cases (simp_all add: b32.length_encode_block)
  then show "base32_bytes (length (encode_block 5 5 8 bs)) = length bs"
    "length bs = 5 \<longleftrightarrow> length (encode_block 5 5 8 bs) = 8" "length (encode_block 5 5 8 bs) \<le> 8"
    "encode_block 5 5 8 bs \<noteq> []"
    by (auto simp: base32_bytes_def)
  show "\<forall>d \<in> set (encode_block 5 5 8 bs). d < 32" using b32.encode_block_digits by force
  show "decode_block 5 5 8 (length bs) (encode_block 5 5 8 bs) = bs" using b32.decode_encode_block assms(2,3) by simp
qed

lemma base32_loop_encode: "bytes_ok bs \<Longrightarrow> base32_loop olen (base32_encode bs) = Inr bs"
proof (induction bs rule: base32_encode.induct)
  case (1 bs)
  show ?case
  proof (cases "bs = []")
    case False
    let ?hd = "take 5 bs"
    have ok: "bytes_ok ?hd" "bytes_ok (drop 5 bs)"
      using 1(2) by (auto simp: bytes_ok_def dest: in_set_takeD in_set_dropD)
    note block = base32_block [of ?hd, OF _ _ ok(1)]
    have enc: "base32_encode bs = map ((!) base32_std) (encode_block 5 5 8 ?hd) @ base32_encode (drop 5 bs)"
      using False by (subst base32_encode.simps) simp
    show ?thesis
    proof (cases "5 \<le> length bs")
      case True
      with block have full: "length (encode_block 5 5 8 ?hd) = 8" by simp
      from base32_quantum_full [OF block(2) full] True False
      have "base32_quantum olen (base32_encode bs) [] = Inr (encode_block 5 5 8 ?hd, base32_encode (drop 5 bs), False)"
        unfolding enc by simp
      with 1(1) [OF False ok(2)] True block False show ?thesis
        by (subst base32_loop.simps) (simp add: enc Let_def min_def)
    next
      case short: False
      then have fin: "base32_encode bs = map ((!) base32_std) (encode_block 5 5 8 ?hd)"
        unfolding enc by (simp add: base32_encode.simps)
      have "length (encode_block 5 5 8 ?hd) < 8" using block False short by (simp add: le_less)
      with base32_quantum_digits [of "encode_block 5 5 8 ?hd" "[]" olen "[]"] block False short
      have "base32_quantum olen (base32_encode bs) [] = Inr (encode_block 5 5 8 ?hd, [], True)"
        unfolding fin by simp
      with block False short show ?thesis
        by (subst base32_loop.simps) (simp add: fin Let_def min_def)
    qed
  qed (simp add: base32_encode.simps base32_loop.simps)
qed

lemma base32_encode_letters: "bytes_ok bs \<Longrightarrow> set (base32_encode bs) \<subseteq> set base32_std"
proof (induction bs rule: base32_encode.induct)
  case (1 bs)
  show ?case
  proof (cases "bs = []")
    case False
    have ok: "bytes_ok (take 5 bs)" "bytes_ok (drop 5 bs)"
      using 1(2) by (auto simp: bytes_ok_def dest: in_set_takeD in_set_dropD)
    have "base32_std ! d \<in> set base32_std" if "d \<in> set (encode_block 5 5 8 (take 5 bs))" for d
      using b32.encode_block_digits [OF that] alphabets(6) by simp
    with 1(1) [OF False ok(2)] False show ?thesis by (subst base32_encode.simps) auto
  qed (simp add: base32_encode.simps)
qed

lemma base32_round_trip: "bytes_ok bs \<Longrightarrow> base32_decode (base32_encode bs) = Inr bs"
proof -
  assume ok: "bytes_ok bs"
  then have "filter (\<lambda>c. \<not> is_newline c) (base32_encode bs) = base32_encode bs"
    using base32_encode_letters base32_letters by (auto intro!: filter_True)
  with base32_loop_encode [OF ok] show ?thesis by (simp add: base32_decode_def Let_def)
qed

section \<open>Hexadecimal\<close>

definition reverseHexTable :: "char \<Rightarrow> nat option" where
  "reverseHexTable c =
     (let n = of_char c :: nat in
      if 48 \<le> n \<and> n \<le> 57 then Some (n - 48)
      else if 97 \<le> n \<and> n \<le> 102 then Some (n - 87)
      else if 65 \<le> n \<and> n \<le> 70 then Some (n - 55)
      else None)"

datatype hex_error = InvalidByte char | OddLength

fun hex_decode :: "string \<Rightarrow> hex_error + nat list" where
  "hex_decode [] = Inr []"
| "hex_decode [p] = (if reverseHexTable p = None then Inl (InvalidByte p) else Inl OddLength)"
| "hex_decode (p # q # cs) =
     (case (reverseHexTable p, reverseHexTable q) of
        (None, _) \<Rightarrow> Inl (InvalidByte p)
      | (Some a, None) \<Rightarrow> Inl (InvalidByte q)
      | (Some a, Some b) \<Rightarrow> bind_res (hex_decode cs) (\<lambda>bs. Inr ((a * 16 + b) # bs)))"

lemma reverseHexTable_digit: "n < 16 \<Longrightarrow> reverseHexTable (hex_digit n) = Some n"
  by (auto simp: reverseHexTable_def hex_digit_def Let_def)

lemma hex_round_trip: "bytes_ok bs \<Longrightarrow> hex_decode (hex_encode bs) = Inr bs"
proof (induction bs)
  case (Cons b bs)
  then have "b div 16 < 16" "b mod 16 < 16" "hex_decode (hex_encode bs) = Inr bs" by auto
  then show ?case by (simp add: hex_encode_def hex_byte_def reverseHexTable_digit)
qed (simp add: hex_encode_def)

end
