(* ===== verification/Digests.thy ===== *)
theory Digests
  imports Sha256
begin

text \<open>
  The other digests of Go's standard library behind the crypto module: SHA-512, SHA-1, MD5, and
  HMAC with SHA-256. The third-party BLAKE3 is a parameter where it is used.
\<close>

unbundle bit_operations_syntax

section \<open>SHA-512\<close>

type_synonym u64 = "64 word"

definition sha512_K :: "u64 list" where
  "sha512_K =
     [4794697086780616226, 8158064640168781261, 13096744586834688815, 16840607885511220156,
      4131703408338449720, 6480981068601479193, 10538285296894168987, 12329834152419229976,
      15566598209576043074, 1334009975649890238, 2608012711638119052, 6128411473006802146,
      8268148722764581231, 9286055187155687089, 11230858885718282805, 13951009754708518548,
      16472876342353939154, 17275323862435702243, 1135362057144423861, 2597628984639134821,
      3308224258029322869, 5365058923640841347, 6679025012923562964, 8573033837759648693,
      10970295158949994411, 12119686244451234320, 12683024718118986047, 13788192230050041572,
      14330467153632333762, 15395433587784984357, 489312712824947311, 1452737877330783856,
      2861767655752347644, 3322285676063803686, 5560940570517711597, 5996557281743188959,
      7280758554555802590, 8532644243296465576, 9350256976987008742, 10552545826968843579,
      11727347734174303076, 12113106623233404929, 14000437183269869457, 14369950271660146224,
      15101387698204529176, 15463397548674623760, 17586052441742319658, 1182934255886127544,
      1847814050463011016, 2177327727835720531, 2830643537854262169, 3796741975233480872,
      4115178125766777443, 5681478168544905931, 6601373596472566643, 7507060721942968483,
      8399075790359081724, 8693463985226723168, 9568029438360202098, 10144078919501101548,
      10430055236837252648, 11840083180663258601, 13761210420658862357, 14299343276471374635,
      14566680578165727644, 15097957966210449927, 16922976911328602910, 17689382322260857208,
      500013540394364858, 748580250866718886, 1242879168328830382, 1977374033974150939,
      2944078676154940804, 3659926193048069267, 4368137639120453308, 4836135668995329356,
      5532061633213252278, 6448918945643986474, 6902733635092675308, 7801388544844847127]"

definition sha512_H0 :: "u64 list" where
  "sha512_H0 =
     [7640891576956012808, 13503953896175478587, 4354685564936845355, 11912009170470909681,
      5840696475078001361, 11170449401992604703, 2270897969802886507, 6620516959819538809]"

definition ror64 :: "nat \<Rightarrow> u64 \<Rightarrow> u64" where
  "ror64 n x = drop_bit n x OR push_bit (64 - n) x"

definition sha512_pad :: "nat list \<Rightarrow> nat list" where
  "sha512_pad bs = bs @ [128] @ replicate ((239 - length bs mod 128) mod 128) 0 @ be_bytes 16 (8 * length bs)"

fun be_words64 :: "nat list \<Rightarrow> u64 list" where
  "be_words64 (a # b # c # d # e # f # g # h # bs) =
     word_of_nat (foldl (\<lambda>n x. n * 256 + x) 0 [a, b, c, d, e, f, g, h]) # be_words64 bs"
| "be_words64 _ = []"

fun sha512_extend :: "nat \<Rightarrow> u64 list \<Rightarrow> u64 list" where
  "sha512_extend 0 ws = ws"
| "sha512_extend (Suc k) ws =
     (let w15 = ws ! 14; w2 = ws ! 1;
          s0 = ror64 1 w15 XOR ror64 8 w15 XOR drop_bit 7 w15;
          s1 = ror64 19 w2 XOR ror64 61 w2 XOR drop_bit 6 w2
      in sha512_extend k ((ws ! 15 + s0 + ws ! 6 + s1) # ws))"

type_synonym sha512_state = "u64 \<times> u64 \<times> u64 \<times> u64 \<times> u64 \<times> u64 \<times> u64 \<times> u64"

fun sha512_round :: "u64 \<times> u64 \<Rightarrow> sha512_state \<Rightarrow> sha512_state" where
  "sha512_round (k, w) (a, b, c, d, e, f, g, h) =
     (let t1 = h + (ror64 14 e XOR ror64 18 e XOR ror64 41 e) + ((e AND f) XOR (NOT e AND g)) + k + w;
          t2 = (ror64 28 a XOR ror64 34 a XOR ror64 39 a) + ((a AND b) XOR (a AND c) XOR (b AND c))
      in (t1 + t2, a, b, c, d + t1, e, f, g))"

fun sha512_block :: "sha512_state \<Rightarrow> u64 list \<Rightarrow> sha512_state" where
  "sha512_block (a, b, c, d, e, f, g, h) block =
     (case fold sha512_round (zip sha512_K (rev (sha512_extend 64 (rev block)))) (a, b, c, d, e, f, g, h) of
        (a', b', c', d', e', f', g', h') \<Rightarrow>
          (a + a', b + b', c + c', d + d', e + e', f + f', g + g', h + h'))"

fun sha512_digest :: "sha512_state \<Rightarrow> nat list" where
  "sha512_digest (a, b, c, d, e, f, g, h) = concat (map (\<lambda>w. be_bytes 8 (unat w)) [a, b, c, d, e, f, g, h])"

text \<open>The blocks of 16 words of a padded message.\<close>

function chunks :: "nat \<Rightarrow> 'a list \<Rightarrow> 'a list list" where
  "chunks n xs = (if n = 0 \<or> length xs < n then [] else take n xs # chunks n (drop n xs))"
  by pat_completeness auto

termination
  by (relation "measure (length \<circ> snd)") auto

declare chunks.simps [simp del]

definition sha512_init :: sha512_state where
  "sha512_init = (sha512_H0 ! 0, sha512_H0 ! 1, sha512_H0 ! 2, sha512_H0 ! 3, sha512_H0 ! 4, sha512_H0 ! 5, sha512_H0 ! 6, sha512_H0 ! 7)"

definition sha512 :: "nat list \<Rightarrow> nat list" where
  "sha512 bs = sha512_digest (fold (\<lambda>block st. sha512_block st block) (chunks 16 (be_words64 (sha512_pad bs))) sha512_init)"

section \<open>SHA-1\<close>

type_synonym sha1_state = "u32 \<times> u32 \<times> u32 \<times> u32 \<times> u32"

definition rol :: "nat \<Rightarrow> u32 \<Rightarrow> u32" where
  "rol n x = push_bit n x OR drop_bit (32 - n) x"

fun sha1_extend :: "nat \<Rightarrow> u32 list \<Rightarrow> u32 list" where
  "sha1_extend 0 ws = ws"
| "sha1_extend (Suc k) ws = sha1_extend k (rol 1 (ws ! 2 XOR ws ! 7 XOR ws ! 13 XOR ws ! 15) # ws)"

fun sha1_round :: "nat \<times> u32 \<Rightarrow> sha1_state \<Rightarrow> sha1_state" where
  "sha1_round (i, w) (a, b, c, d, e) =
     (let (f, k) =
        (if i < 20 then ((b AND c) OR (NOT b AND d), 1518500249)
         else if i < 40 then (b XOR c XOR d, 1859775393)
         else if i < 60 then (((b OR c) AND d) OR (b AND c), 2400959708)
         else (b XOR c XOR d, 3395469782))
      in (rol 5 a + f + e + k + w, a, rol 30 b, c, d))"

fun sha1_block :: "sha1_state \<Rightarrow> u32 list \<Rightarrow> sha1_state" where
  "sha1_block (a, b, c, d, e) block =
     (case fold sha1_round (zip [0..<80] (rev (sha1_extend 64 (rev block)))) (a, b, c, d, e) of
        (a', b', c', d', e') \<Rightarrow> (a + a', b + b', c + c', d + d', e + e'))"

fun sha1_digest :: "sha1_state \<Rightarrow> nat list" where
  "sha1_digest (a, b, c, d, e) = concat (map (\<lambda>w. be_bytes 4 (unat w)) [a, b, c, d, e])"

definition sha1 :: "nat list \<Rightarrow> nat list" where
  "sha1 bs = sha1_digest (fold (\<lambda>block st. sha1_block st block) (chunks 16 (be_words (sha_pad bs)))
     (1732584193, 4023233417, 2562383102, 271733878, 3285377520))"

section \<open>MD5\<close>

type_synonym md5_state = "u32 \<times> u32 \<times> u32 \<times> u32"

definition md5_T :: "u32 list" where
  "md5_T =
     [3614090360, 3905402710, 606105819, 3250441966, 4118548399, 1200080426,
      2821735955, 4249261313, 1770035416, 2336552879, 4294925233, 2304563134,
      1804603682, 4254626195, 2792965006, 1236535329, 4129170786, 3225465664,
      643717713, 3921069994, 3593408605, 38016083, 3634488961, 3889429448,
      568446438, 3275163606, 4107603335, 1163531501, 2850285829, 4243563512,
      1735328473, 2368359562, 4294588738, 2272392833, 1839030562, 4259657740,
      2763975236, 1272893353, 4139469664, 3200236656, 681279174, 3936430074,
      3572445317, 76029189, 3654602809, 3873151461, 530742520, 3299628645,
      4096336452, 1126891415, 2878612391, 4237533241, 1700485571, 2399980690,
      4293915773, 2240044497, 1873313359, 4264355552, 2734768916, 1309151649,
      4149444226, 3174756917, 718787259, 3951481745]"

definition md5_shifts :: "nat list" where
  "md5_shifts = concat (map (\<lambda>row. concat (replicate 4 row)) [[7, 12, 17, 22], [5, 9, 14, 20], [4, 11, 16, 23], [6, 10, 15, 21]])"

fun md5_round :: "u32 list \<Rightarrow> nat \<Rightarrow> md5_state \<Rightarrow> md5_state" where
  "md5_round block i (a, b, c, d) =
     (let (f, g) =
        (if i < 16 then ((b AND c) OR (NOT b AND d), i)
         else if i < 32 then ((d AND b) OR (NOT d AND c), (5 * i + 1) mod 16)
         else if i < 48 then (b XOR c XOR d, (3 * i + 5) mod 16)
         else (c XOR (b OR NOT d), (7 * i) mod 16))
      in (d, b + rol (md5_shifts ! i) (a + f + md5_T ! i + block ! g), b, c))"

fun md5_block :: "md5_state \<Rightarrow> u32 list \<Rightarrow> md5_state" where
  "md5_block (a, b, c, d) block =
     (case fold (md5_round block) [0..<64] (a, b, c, d) of (a', b', c', d') \<Rightarrow> (a + a', b + b', c + c', d + d'))"

fun le_words :: "nat list \<Rightarrow> u32 list" where
  "le_words (a # b # c # d # bs) = word_of_nat (((d * 256 + c) * 256 + b) * 256 + a) # le_words bs"
| "le_words _ = []"

fun md5_digest :: "md5_state \<Rightarrow> nat list" where
  "md5_digest (a, b, c, d) = concat (map (\<lambda>w. rev (be_bytes 4 (unat w))) [a, b, c, d])"

definition md5_pad :: "nat list \<Rightarrow> nat list" where
  "md5_pad bs = bs @ [128] @ replicate ((119 - length bs mod 64) mod 64) 0 @ rev (be_bytes 8 (8 * length bs mod 2 ^ 64))"

definition md5 :: "nat list \<Rightarrow> nat list" where
  "md5 bs = md5_digest (fold (\<lambda>block st. md5_block st block) (chunks 16 (le_words (md5_pad bs)))
     (1732584193, 4023233417, 2562383102, 271733878))"

section \<open>HMAC\<close>

text \<open>\<^verbatim>\<open>hmac.New(sha256.New, key)\<close>: keys longer than the block of 64 bytes are hashed first.\<close>

definition hmac_key :: "string \<Rightarrow> nat list" where
  "hmac_key key = (let k = (if 64 < length key then sha256 key else map of_char key) in k @ replicate (64 - length k) 0)"

definition xor_pad :: "nat \<Rightarrow> nat list \<Rightarrow> string" where
  "xor_pad x ks = map (\<lambda>k. char_of (k XOR x)) ks"

definition hmac_sha256 :: "string \<Rightarrow> string \<Rightarrow> nat list" where
  "hmac_sha256 key msg = sha256 (xor_pad 92 (hmac_key key) @ map char_of (sha256 (xor_pad 54 (hmac_key key) @ msg)))"

section \<open>Lengths\<close>

lemma length_digests [simp]:
  "length (sha512 bs) = 64" "length (sha1 bs) = 20" "length (md5 bs) = 16" "length (hmac_sha256 key msg) = 32"
proof -
  have "length (sha512_digest st) = 64" for st by (cases st rule: sha512_digest.cases) simp
  then show "length (sha512 bs) = 64" by (simp add: sha512_def)
  have "length (sha1_digest st) = 20" for st by (cases st rule: sha1_digest.cases) simp
  then show "length (sha1 bs) = 20" by (simp add: sha1_def)
  have "length (md5_digest st) = 16" for st by (cases st rule: md5_digest.cases) simp
  then show "length (md5 bs) = 16" by (simp add: md5_def)
  show "length (hmac_sha256 key msg) = 32" by (simp add: hmac_sha256_def)
qed

end
