(* ===== verification/Encoding.thy ===== *)
theory Encoding
  imports Starlark Codec Digests
begin

text \<open>
  The encoding and the crypto module (\<^verbatim>\<open>builtins/encoding.go\<close>, \<^verbatim>\<open>builtins/crypto.go\<close>). The builtins take
  their unpacked arguments: any value where they accept strings and bytes, a string where the
  unpacking already asks for one.
\<close>

section \<open>Arguments and results\<close>

definition toBytes :: "string \<Rightarrow> sval \<Rightarrow> serror + string" where
  "toBytes fnName v =
     (case v of
        SString s \<Rightarrow> Inr s
      | SBytes s \<Rightarrow> Inr s
      | _ \<Rightarrow> Inl (EMsg (fnName @ '': got '' @ stype v @ '', want string or bytes'')))"

definition byte_values :: "string \<Rightarrow> nat list" where
  "byte_values s = map of_char s"

text \<open>\<^verbatim>\<open>string(decoded)\<close>.\<close>

definition bytes_string :: "nat list \<Rightarrow> string" where
  "bytes_string bs = map char_of bs"

lemma bytes_string_values [simp]: "bytes_string (byte_values s) = s"
  by (simp add: bytes_string_def byte_values_def comp_def)

lemma bytes_ok_values [simp]: "bytes_ok (byte_values s)"
  by (auto simp: bytes_ok_def byte_values_def)

text \<open>What the decoders report.\<close>

definition corrupt :: "string \<Rightarrow> string \<Rightarrow> nat \<Rightarrow> serror" where
  "corrupt fnName codec n = EIn fnName (EMsg (''illegal '' @ codec @ '' data at input byte '' @ show_nat n))"

text \<open>The format \<^verbatim>\<open>%#U\<close> of a byte: the code point and, if it prints, the character in UTF-8.\<close>

definition upper_hex_digit :: "nat \<Rightarrow> char" where
  "upper_hex_digit n = (if n < 10 then char_of (48 + n) else char_of (55 + n))"

definition utf8_byte :: "nat \<Rightarrow> string" where
  "utf8_byte n = (if n < 128 then [char_of n] else [char_of (192 + n div 64), char_of (128 + n mod 64)])"

definition unicode_format :: "char \<Rightarrow> string" where
  "unicode_format c =
     (let n = of_char c :: nat in
      ''U+00'' @ [upper_hex_digit (n div 16), upper_hex_digit (n mod 16)] @
      (if 32 \<le> n \<and> n \<le> 126 \<or> 161 \<le> n \<and> n \<noteq> 173 then '' '' @ [CHR 0x27] @ utf8_byte n @ [CHR 0x27] else []))"

definition hex_message :: "hex_error \<Rightarrow> string" where
  "hex_message e =
     (case e of
        InvalidByte c \<Rightarrow> ''encoding/hex: invalid byte: '' @ unicode_format c
      | OddLength \<Rightarrow> ''encoding/hex: odd length hex string'')"

definition encode_with :: "string \<Rightarrow> (nat list \<Rightarrow> string) \<Rightarrow> sval \<Rightarrow> serror + sval" where
  "encode_with fnName enc data = bind_res (toBytes fnName data) (\<lambda>raw. Inr (SString (enc (byte_values raw))))"

definition decoded :: "('e \<Rightarrow> serror) \<Rightarrow> 'e + nat list \<Rightarrow> serror + sval" where
  "decoded err r = (case r of Inl e \<Rightarrow> Inl (err e) | Inr bs \<Rightarrow> Inr (SString (bytes_string bs)))"

section \<open>The encoding module\<close>

definition encodingB64Enc :: "sval \<Rightarrow> serror + sval" where
  "encodingB64Enc data = encode_with ''encoding.b64enc'' (base64_encode base64_std True) data"

definition encodingB64Dec :: "string \<Rightarrow> serror + sval" where
  "encodingB64Dec data = decoded (corrupt ''encoding.b64dec'' ''base64'') (base64_decode base64_std True data 0)"

definition encodingB64URLEnc :: "sval \<Rightarrow> serror + sval" where
  "encodingB64URLEnc data = encode_with ''encoding.b64url_enc'' (base64_encode base64_url False) data"

definition encodingB64URLDec :: "string \<Rightarrow> serror + sval" where
  "encodingB64URLDec data = decoded (corrupt ''encoding.b64url_dec'' ''base64'') (base64_decode base64_url False data 0)"

definition encodingB32Enc :: "sval \<Rightarrow> serror + sval" where
  "encodingB32Enc data = encode_with ''encoding.b32enc'' base32_encode data"

definition encodingB32Dec :: "string \<Rightarrow> serror + sval" where
  "encodingB32Dec data = decoded (corrupt ''encoding.b32dec'' ''base32'') (base32_decode data)"

definition encodingHexEnc :: "sval \<Rightarrow> serror + sval" where
  "encodingHexEnc data = encode_with ''encoding.hex_enc'' hex_encode data"

definition encodingHexDec :: "string \<Rightarrow> serror + sval" where
  "encodingHexDec data = decoded (\<lambda>e. EIn ''encoding.hex_dec'' (EMsg (hex_message e))) (hex_decode data)"

section \<open>The crypto module\<close>

definition cryptoSHA256 :: "sval \<Rightarrow> serror + sval" where
  "cryptoSHA256 data = bind_res (toBytes ''crypto.sha256'' data) (\<lambda>raw. Inr (SString (hex_encode (sha256 raw))))"

definition cryptoSHA512 :: "sval \<Rightarrow> serror + sval" where
  "cryptoSHA512 data = bind_res (toBytes ''crypto.sha512'' data) (\<lambda>raw. Inr (SString (hex_encode (sha512 (byte_values raw)))))"

definition cryptoSHA1 :: "sval \<Rightarrow> serror + sval" where
  "cryptoSHA1 data = bind_res (toBytes ''crypto.sha1'' data) (\<lambda>raw. Inr (SString (hex_encode (sha1 (byte_values raw)))))"

definition cryptoMD5 :: "sval \<Rightarrow> serror + sval" where
  "cryptoMD5 data = bind_res (toBytes ''crypto.md5'' data) (\<lambda>raw. Inr (SString (hex_encode (md5 (byte_values raw)))))"

definition cryptoHMACSHA256 :: "sval \<Rightarrow> sval \<Rightarrow> serror + sval" where
  "cryptoHMACSHA256 keyVal msgVal =
     bind_res (toBytes ''crypto.hmac_sha256'' keyVal) (\<lambda>key.
       bind_res (toBytes ''crypto.hmac_sha256'' msgVal) (\<lambda>msg. Inr (SString (hex_encode (hmac_sha256 key msg)))))"

text \<open>BLAKE3 is a third-party package: its digest function is an argument.\<close>

definition cryptoBlake3 :: "(string \<Rightarrow> nat list) \<Rightarrow> sval \<Rightarrow> serror + sval" where
  "cryptoBlake3 blake3 data = bind_res (toBytes ''crypto.blake3'' data) (\<lambda>raw. Inr (SString (hex_encode (blake3 raw))))"

definition show_int :: "int \<Rightarrow> string" where
  "show_int i = (if i < 0 then CHR ''-'' # show_nat (nat (- i)) else show_nat (nat i))"

definition cryptoStableID :: "sval \<Rightarrow> int \<Rightarrow> serror + sval" where
  "cryptoStableID seed len =
     bind_res (toBytes ''crypto.stable_id'' seed) (\<lambda>raw.
       if len < 1 \<or> 64 < len
       then Inl (EMsg (''crypto.stable_id: length must be between 1 and 64, got '' @ show_int len))
       else Inr (SString (take (nat len) (hex_encode (sha256 raw)))))"

section \<open>Properties\<close>

lemma toBytes_data [simp]: "toBytes fnName (if b then SBytes s else SString s) = Inr s"
  by (simp add: toBytes_def)

text \<open>
  C24. Every codec of the encoding module is a round trip: what an encoder makes of a string or of bytes, with any
  content and of any length, the decoder of the same name turns back into exactly that content.
\<close>

theorem encoding_round_trip:
  "\<exists>v b64 b64url b32 hx. v = (if b then SBytes s else SString s) \<and>
     encodingB64Enc v = Inr (SString b64) \<and> encodingB64Dec b64 = Inr (SString s) \<and>
     encodingB64URLEnc v = Inr (SString b64url) \<and> encodingB64URLDec b64url = Inr (SString s) \<and>
     encodingB32Enc v = Inr (SString b32) \<and> encodingB32Dec b32 = Inr (SString s) \<and>
     encodingHexEnc v = Inr (SString hx) \<and> encodingHexDec hx = Inr (SString s)"
  unfolding encodingB64Enc_def encodingB64Dec_def encodingB64URLEnc_def encodingB64URLDec_def
    encodingB32Enc_def encodingB32Dec_def encodingHexEnc_def encodingHexDec_def encode_with_def decoded_def
  by (auto simp: toBytes_def alphabets pad_not_letter base64_round_trip base32_round_trip hex_round_trip)

text \<open>
  The digests have the length of their algorithm, and a stable ID is a prefix of the SHA-256 digest: IDs of the
  same seed agree on their common length.
\<close>

lemma stable_id_prefix:
  "1 \<le> m \<Longrightarrow> m \<le> n \<Longrightarrow> n \<le> 64 \<Longrightarrow>
     \<exists>ids idn. cryptoStableID (SString s) m = Inr (SString ids) \<and> cryptoStableID (SString s) n = Inr (SString idn) \<and>
       length ids = nat m \<and> length idn = nat n \<and> take (nat m) idn = ids"
  by (auto simp: cryptoStableID_def toBytes_def min_def)

lemma digest_lengths:
  "cryptoSHA256 v = Inr (SString d) \<Longrightarrow> length d = 64"
  "cryptoSHA512 v = Inr (SString d) \<Longrightarrow> length d = 128"
  "cryptoSHA1 v = Inr (SString d) \<Longrightarrow> length d = 40"
  "cryptoMD5 v = Inr (SString d) \<Longrightarrow> length d = 32"
  by (auto simp: cryptoSHA256_def cryptoSHA512_def cryptoSHA1_def cryptoMD5_def bind_res_eq_Inr)

end
