(* ===== verification/Yaml.thy ===== *)
theory Yaml
  imports Convert
begin

text \<open>
  The yaml module (\<^verbatim>\<open>builtins/yaml.go\<close>): the conversion of Starlark values to the Go values that are
  marshalled, the splitting of a stream into documents, and the three builtins. The YAML codec and Starlark's
  \<^verbatim>\<open>json.decode\<close> are third-party code and arguments.
\<close>

section \<open>Encoding\<close>

text \<open>The Go values that reach the marshaller; a \<^verbatim>\<open>map[string]any\<close> is an association list.\<close>

datatype goval =
    GNil
  | GBool bool
  | GInt int
  | GFloat float64
  | GString string
  | GSlice "goval list"
  | GMap "(string \<times> goval) list"

text \<open>\<^verbatim>\<open>Int64()\<close> of a Starlark integer.\<close>

definition fits_int64 :: "int \<Rightarrow> bool" where
  "fits_int64 i \<longleftrightarrow> - (2 ^ 63) \<le> i \<and> i < 2 ^ 63"

text \<open>
  \<open>dictToGoMap\<close> is the loop of \<^verbatim>\<open>dictToGoMap\<close> with the map built so far, \<open>goSlice\<close> the loops over lists and
  tuples. A lazy dict is read through \<^verbatim>\<open>InternalDict\<close>, which is empty when its conversion fails.
\<close>

function (sequential) starlarkToGo :: "sval \<Rightarrow> serror + goval"
  and dictToGoMap :: "items \<Rightarrow> (string \<times> goval) list \<Rightarrow> serror + (string \<times> goval) list"
  and goSlice :: "sval list \<Rightarrow> serror + goval list"
where
  "starlarkToGo SNone = Inr GNil"
| "starlarkToGo (SBool b) = Inr (GBool b)"
| "starlarkToGo (SInt i) = (if fits_int64 i then Inr (GInt i) else Inl (EIntTooLarge i))"
| "starlarkToGo (SFloat f) = Inr (GFloat f)"
| "starlarkToGo (SString s) = Inr (GString s)"
| "starlarkToGo (SList f vs) = bind_res (goSlice vs) (\<lambda>gs. Inr (GSlice gs))"
| "starlarkToGo (STuple vs) = bind_res (goSlice vs) (\<lambda>gs. Inr (GSlice gs))"
| "starlarkToGo (SDict f its) = bind_res (dictToGoMap its []) (\<lambda>m. Inr (GMap m))"
| "starlarkToGo (SStarlarkDict f its) = bind_res (dictToGoMap its []) (\<lambda>m. Inr (GMap m))"
| "starlarkToGo (SLazyDict f src) =
     (case ensure f src of
        Inl e \<Rightarrow> Inr (GMap [])
      | Inr d \<Rightarrow> bind_res (dictToGoMap (snd d) []) (\<lambda>m. Inr (GMap m)))"
| "starlarkToGo (SSchemaDict s f its) = bind_res (dictToGoMap its []) (\<lambda>m. Inr (GMap m))"
| "starlarkToGo (SMutableStruct s f its) = bind_res (dictToGoMap its []) (\<lambda>m. Inr (GMap m))"
| "starlarkToGo v = Inl (EUnsupportedType (stype v))"
| "dictToGoMap [] m = Inr m"
| "dictToGoMap ((SString k, v) # its) m = bind_res (starlarkToGo v) (\<lambda>g. dictToGoMap its (AList.update k g m))"
| "dictToGoMap ((k, v) # its) m = Inl (EKeyNotString k)"
| "goSlice [] = Inr []"
| "goSlice (v # vs) = bind_res (starlarkToGo v) (\<lambda>g. bind_res (goSlice vs) (\<lambda>gs. Inr (g # gs)))"
  by pat_completeness auto

termination
proof (relation "measures
    [\<lambda>x. case x of Inl v \<Rightarrow> lazies v | Inr (Inl (its, _)) \<Rightarrow> items_lazies its
       | Inr (Inr vs) \<Rightarrow> sum_list (map lazies vs),
     \<lambda>x. case x of Inl v \<Rightarrow> size v | Inr (Inl (its, _)) \<Rightarrow> size_list (size_prod size size) its
       | Inr (Inr vs) \<Rightarrow> size_list size vs]", goal_cases)
  case (6 f src d)
  then show ?case by (cases d) (auto dest!: ensure_items)
qed auto

definition yamlEncode :: "(goval \<Rightarrow> string + string) \<Rightarrow> sval \<Rightarrow> serror + sval" where
  "yamlEncode marshal v =
     bind_res (wrap_err (EIn ''yaml.encode'') (starlarkToGo v)) (\<lambda>g.
       case marshal g of
         Inl e \<Rightarrow> Inl (EIn ''yaml.encode'' (EMsg e))
       | Inr s \<Rightarrow> Inr (SString (trim_right s [CHR 0x0A])))"

section \<open>Decoding\<close>

definition yamlDecodeString ::
  "(string \<Rightarrow> string + string) \<Rightarrow> (string \<Rightarrow> string + sval) \<Rightarrow> string \<Rightarrow> serror + sval" where
  "yamlDecodeString YAMLToJSON json_decode s =
     (case YAMLToJSON s of
        Inl e \<Rightarrow> Inl (EIn ''yaml.decode'' (EMsg e))
      | Inr js \<Rightarrow>
          (case json_decode js of
             Inl e \<Rightarrow> Inl (EIn ''yaml.decode'' (EMsg e))
           | Inr v \<Rightarrow> Inr v))"

definition yamlDecode ::
  "(string \<Rightarrow> string + string) \<Rightarrow> (string \<Rightarrow> string + sval) \<Rightarrow> string \<Rightarrow> serror + sval" where
  "yamlDecode YAMLToJSON json_decode s = yamlDecodeString YAMLToJSON json_decode s"

definition is_separator :: "string \<Rightarrow> bool" where
  "is_separator line \<longleftrightarrow> trim_right line [CHR '' '', CHR 0x09] = ''---''"

fun split_lines :: "string list \<Rightarrow> string \<Rightarrow> string list \<Rightarrow> string list" where
  "split_lines [] current docs = docs @ (if current = [] then [] else [current])"
| "split_lines (line # lines) current docs =
     (if is_separator line then split_lines lines [] (docs @ (if current = [] then [] else [current]))
      else split_lines lines (if current = [] then line else current @ [CHR 0x0A] @ line) docs)"

definition splitYAMLDocuments :: "string \<Rightarrow> string list" where
  "splitYAMLDocuments s = split_lines (split_on (CHR 0x0A) s) [] []"

definition maxYAMLDocuments :: nat where
  "maxYAMLDocuments = 256"

definition yamlDecodeStream ::
  "(string \<Rightarrow> string + string) \<Rightarrow> (string \<Rightarrow> string + sval) \<Rightarrow> string \<Rightarrow> serror + sval" where
  "yamlDecodeStream YAMLToJSON json_decode s =
     (if trim_space s = [] then Inr (SList False [])
      else let docs = splitYAMLDocuments s in
        if maxYAMLDocuments < length docs then
          Inl (EMsg (''yaml.decode_stream: input contains '' @ show_nat (length docs) @ '' documents, maximum is '' @
            show_nat maxYAMLDocuments))
        else bind_res (map_res (yamlDecodeString YAMLToJSON json_decode) (filter (\<lambda>doc. trim_space doc \<noteq> []) docs))
          (\<lambda>vs. Inr (SList False vs)))"

section \<open>What is marshalled for a protobuf body\<close>

text \<open>The value a protobuf value stands for.\<close>

fun proto_go :: "pvalue \<Rightarrow> goval" where
  "proto_go (PNum f) = (case convertNumber f of Inr (SInt i) \<Rightarrow> GInt i | _ \<Rightarrow> GFloat f)"
| "proto_go (PStr s) = GString s"
| "proto_go (PBool b) = GBool b"
| "proto_go (PStruct fs) = GMap (map (\<lambda>(k, v). (k, proto_go v)) fs)"
| "proto_go (PList vs) = GSlice (map proto_go vs)"
| "proto_go _ = GNil"

lemma convertNumber_go: "convertNumber f = Inr sv \<Longrightarrow> starlarkToGo sv = Inr (proto_go (PNum f))"
proof -
  have bound: "fits_int64 \<lfloor>r\<rfloor>" if "\<not> r > 2 ^ 53" "\<not> r < - (2 ^ 53)" for r :: rat
  proof -
    have "\<lfloor>r\<rfloor> \<le> 2 ^ 53" "- (2 ^ 53) \<le> \<lfloor>r\<rfloor>" using that by (simp_all add: floor_le_iff le_floor_iff)
    then show ?thesis by (simp add: fits_int64_def)
  qed
  assume "convertNumber f = Inr sv"
  then show ?thesis using bound by (auto simp: convertNumber_def split: if_splits)
qed

lemma freeze_go:
  "starlarkToGo v = r \<Longrightarrow> lazies v = 0 \<Longrightarrow> r = Inr g \<Longrightarrow> starlarkToGo (freeze v) = Inr g"
  "dictToGoMap its acc = r' \<Longrightarrow> items_lazies its = 0 \<Longrightarrow> r' = Inr m \<Longrightarrow>
     dictToGoMap (map (\<lambda>(k, v). (freeze k, freeze v)) its) acc = Inr m"
  "goSlice vs = r'' \<Longrightarrow> sum_list (map lazies vs) = 0 \<Longrightarrow> r'' = Inr gs \<Longrightarrow> goSlice (map freeze vs) = Inr gs"
  by (induction v and its acc and vs arbitrary: r g and r' m and r'' gs
      rule: starlarkToGo_dictToGoMap_goSlice.induct)
    (auto simp: bind_res_eq_Inr)

lemma mkDict_go:
  "items_lazies d = 0 \<Longrightarrow> dictToGoMap d [] = Inr m \<Longrightarrow> starlarkToGo (mkDict fac frz d) = Inr (GMap m)"
  by (auto simp: mkDict_def Let_def bind_res_eq_Inr freeze_go(2) split: dictFactory.splits)

lemma mkList_go:
  "sum_list (map lazies vs) = 0 \<Longrightarrow> goSlice vs = Inr gs \<Longrightarrow> starlarkToGo (mkList frz vs) = Inr (GSlice gs)"
  by (auto simp: mkList_def bind_res_eq_Inr freeze_go(3))

lemma dictToGoMap_zip:
  "list_all2 (\<lambda>kv sv. starlarkToGo sv = Inr (proto_go (snd kv))) fs svs \<Longrightarrow>
     distinct (map fst fs) \<Longrightarrow> fst ` set fs \<inter> fst ` set acc = {} \<Longrightarrow>
     dictToGoMap (zip (map (SString \<circ> fst) fs) svs) acc = Inr (acc @ map (\<lambda>(k, v). (k, proto_go v)) fs)"
proof (induction arbitrary: acc rule: list_all2_induct)
  case (Cons kv fs sv svs)
  obtain k v where kv: "kv = (k, v)" by force
  have "AList.update k (proto_go v) acc = acc @ [(k, proto_go v)]"
    using Cons.prems by (intro update_append_fresh) (auto simp: kv)
  moreover have "fst ` set fs \<inter> fst ` set (acc @ [(k, proto_go v)]) = {}"
    using Cons.prems by (auto simp: kv)
  ultimately show ?case
    using Cons.IH [of "acc @ [(k, proto_go v)]"] Cons.prems Cons.hyps by (simp add: kv)
qed simp

lemma goSlice_list_all2: "goSlice svs = Inr gs \<longleftrightarrow> list_all2 (\<lambda>sv g. starlarkToGo sv = Inr g) svs gs"
proof (induction svs arbitrary: gs)
  case (Cons v vs)
  then show ?case by (cases gs) (auto simp: bind_res_eq_Inr)
qed auto

lemma convert_go: "convertProtoValue fac frz v = Inr sv \<Longrightarrow> pvalue_wf v \<Longrightarrow> starlarkToGo sv = Inr (proto_go v)"
proof (induction v arbitrary: sv)
  case (PStruct fs)
  then obtain d where d: "convertFields fac frz fs [] = Inr d" and sv: "sv = mkDict fac frz d"
    by (auto simp: bind_res_eq_Inr)
  have dist: "distinct (map fst fs)" using PStruct.prems by (simp add: pstruct_wf_def)
  obtain svs where zip: "d = zip (map (SString \<circ> fst) fs) svs"
    and svs: "list_all2 (\<lambda>kv sv. convertProtoValue fac frz (snd kv) = Inr sv) fs svs"
    using convertFields_append [OF d dist] by auto
  have "list_all2 (\<lambda>kv sv. starlarkToGo sv = Inr (proto_go (snd kv))) fs svs"
    using svs
  proof (rule list.rel_mono_strong)
    fix kv sv assume kv: "kv \<in> set fs" "convertProtoValue fac frz (snd kv) = Inr sv"
    obtain k v where p: "kv = (k, v)" by force
    from kv(1) PStruct.prems have "pvalue_wf v" by (auto simp: p pstruct_wf_def list_all_iff)
    with kv show "starlarkToGo sv = Inr (proto_go (snd kv))" by (intro PStruct.IH [of "(k, v)"]) (auto simp: p)
  qed
  from dictToGoMap_zip [OF this dist, of "[]"] show ?case
    using lazies_convert(2) [OF d] by (simp add: sv zip [symmetric] mkDict_go)
next
  case (PList vs)
  then obtain svs where svs: "convertElems fac frz 0 vs = Inr svs" and sv: "sv = mkList frz svs"
    by (auto simp: bind_res_eq_Inr)
  have "list_all2 (\<lambda>v s. starlarkToGo s = Inr (proto_go v)) vs svs"
    using svs [unfolded convertElems_list_all2]
    by (rule list.rel_mono_strong) (use PList in \<open>auto simp: list_all_iff\<close>)
  then have "goSlice svs = Inr (map proto_go vs)"
    by (auto simp: goSlice_list_all2 list_all2_conv_all_nth)
  then show ?case using lazies_convert(3) [OF svs] by (simp add: sv mkList_go)
next
  case (PNum f)
  then have "convertNumber f = Inr sv" by simp
  then show ?case by (rule convertNumber_go)
qed auto

text \<open>
  C39. What \<^verbatim>\<open>yaml.encode\<close> marshals for an observed body: its own value at every depth, as long as every whole
  number in it is in the int64 range. Otherwise, instead of an error, the body is encoded as an empty map.
\<close>

theorem yaml_encodes_observed:
  assumes "pstruct_wf fs"
  shows "starlarkToGo (SLazyDict frz (Some fs)) =
     Inr (if numbers_ok (PStruct fs) then proto_go (PStruct fs) else GMap [])"
proof (cases "numbers_ok (PStruct fs)")
  case True
  then obtain sv where sv: "convertProtoValue starlarkDictFactory frz (PStruct fs) = Inr sv"
    using convert_converts(1) [of starlarkDictFactory frz "PStruct fs"] by (auto simp: converts_def)
  then have st: "StructToStarlark (Some fs) frz = Inr sv" by (simp add: StructToStarlark_def)
  with StructToStarlark_shape [OF st] obtain its where its: "sv = SStarlarkDict frz its" "ensure frz (Some fs) = Inr (frz, its)"
    by (auto simp: ensure_def)
  have "starlarkToGo sv = Inr (proto_go (PStruct fs))"
    using convert_go [OF sv] assms by simp
  with True its show ?thesis by simp
next
  case False
  then obtain e where "convertProtoValue starlarkDictFactory frz (PStruct fs) = Inl e"
    using convert_converts(1) [of starlarkDictFactory frz "PStruct fs"]
    by (cases "convertProtoValue starlarkDictFactory frz (PStruct fs)") (auto simp: converts_def)
  then have "StructToStarlark (Some fs) frz = Inl e" by (simp add: StructToStarlark_def)
  with False show ?thesis by (simp add: ensure_def)
qed

theorem yaml_encodes_observed_witness:
  "starlarkToGo (SLazyDict True (Some [(''id'', PNum (FFin (2 ^ 70)))])) = Inr (GMap []) \<and>
   starlarkToGo (SLazyDict True (Some [(''id'', PNum (FFin 7))])) = Inr (GMap [(''id'', GInt 7)])"
proof -
  have bad: "\<not> numbers_ok (PStruct [(''id'', PNum (FFin (2 ^ 70)))])" by code_simp
  have good: "numbers_ok (PStruct [(''id'', PNum (FFin 7))])" by code_simp
  have val: "proto_go (PStruct [(''id'', PNum (FFin 7))]) = GMap [(''id'', GInt 7)]" by code_simp
  have wf: "pstruct_wf [(''id'', PNum x)]" for x by (simp add: pstruct_wf_def)
  from yaml_encodes_observed [OF wf] bad good val show ?thesis by simp
qed

section \<open>Splitting a stream\<close>

lemma split_lines_docs: "split_lines lines current docs = docs @ split_lines lines current []"
proof (induction lines arbitrary: current docs)
  case (Cons l lines)
  let ?new = "if current = [] then [] else [current]"
  from Cons.IH [of "[]" "docs @ ?new"] Cons.IH [of "[]" ?new]
    Cons.IH [of "if current = [] then l else current @ [CHR 0x0A] @ l" docs]
  show ?case by (cases "is_separator l") (simp_all only: split_lines.simps if_True if_False append_Nil append.assoc)
qed simp

text \<open>The lines of one document, up to a separator.\<close>

lemma split_lines_block:
  "current \<noteq> [] \<Longrightarrow> \<forall>l \<in> set ls. \<not> is_separator l \<Longrightarrow>
     split_lines (ls @ rest) current docs = split_lines rest (join [CHR 0x0A] (current # ls)) docs"
proof (induction ls arbitrary: current)
  case (Cons l ls)
  from Cons.IH [of "current @ [CHR 0x0A] @ l"] Cons.prems show ?case by (cases ls) simp_all
qed simp

text \<open>A document that can stand in a stream: it does not begin with a line break and has no separator line.\<close>

definition document :: "string \<Rightarrow> bool" where
  "document d \<longleftrightarrow> d \<noteq> [] \<and> hd d \<noteq> CHR 0x0A \<and> (\<forall>l \<in> set (split_on (CHR 0x0A) d). \<not> is_separator l)"

lemma split_lines_document:
  assumes "document d"
  shows "split_lines (split_on (CHR 0x0A) d @ rest) [] docs = split_lines rest d docs"
proof -
  obtain l ls where ls: "split_on (CHR 0x0A) d = l # ls" by (meson list.exhaust split_on_neq_Nil)
  then have d: "d = join [CHR 0x0A] (l # ls)" by (metis join_split_on)
  have "l \<noteq> []"
  proof
    assume "l = []"
    with d assms show False by (cases ls) (auto simp: document_def)
  qed
  with split_lines_block [of l ls rest docs] assms ls d show ?thesis by (simp add: document_def)
qed

lemma split_on_append_sep: "split_on sep (p @ sep # s) = split_on sep p @ split_on sep s"
  by (induction p) (auto split: list.splits)

definition separator :: string where
  "separator = [CHR 0x0A] @ ''---'' @ [CHR 0x0A]"

lemma split_on_separator:
  "split_on (CHR 0x0A) (d @ separator @ w) = split_on (CHR 0x0A) d @ [''---''] @ split_on (CHR 0x0A) w"
  by (simp add: separator_def split_on_append_sep)

lemma trim_space_eq_Nil: "trim_space s = [] \<longleftrightarrow> set s \<subseteq> set ascii_space"
proof -
  have keep: "c \<in> set (dropWhile P t)" if "c \<in> set t" "\<not> P c" for c :: char and P t
    using that by (induction t) auto
  show ?thesis
    unfolding trim_space_def trim_right_def using keep [of _ s "\<lambda>c. c \<in> set ascii_space"]
    by (auto simp: dropWhile_eq_Nil_conv dest: set_dropWhileD)
qed

lemma set_join: "d \<in> set docs \<Longrightarrow> set d \<subseteq> set (join sep docs)"
  by (induction docs rule: induct_list012) auto

lemma split_documents: "docs \<noteq> [] \<Longrightarrow> \<forall>d \<in> set docs. document d \<Longrightarrow> splitYAMLDocuments (join separator docs) = docs"
proof (induction docs rule: induct_list012)
  case (2 d)
  then have d: "document d" by simp
  with split_lines_document [OF d, of "[]" "[]"] show ?case by (simp add: document_def splitYAMLDocuments_def)
next
  case (3 d e docs)
  then have d: "document d" by simp
  have sep: "is_separator ''---''" by code_simp
  from split_on_separator [of d "join separator (e # docs)"] have "splitYAMLDocuments (join separator (d # e # docs)) =
      split_lines ([''---''] @ split_on (CHR 0x0A) (join separator (e # docs))) d []"
    using split_lines_document [OF d] by (simp add: splitYAMLDocuments_def)
  also have "\<dots> = d # splitYAMLDocuments (join separator (e # docs))"
    using d sep split_lines_docs [of _ "[]" "[d]"] by (simp add: document_def splitYAMLDocuments_def)
  finally show ?case using 3 by simp
qed simp

text \<open>
  Reading a stream gives back the documents it was made of: up to 256 documents that are not blank, do
  not begin with a line break and have no separator line, joined by separator lines, are decoded one
  by one and in order, and the first error stops the decoding.
\<close>

theorem yaml_stream_round_trip:
  assumes "docs \<noteq> []" and "length docs \<le> 256"
    and "\<forall>d \<in> set docs. trim_space d \<noteq> [] \<and> hd d \<noteq> CHR 0x0A \<and> (\<forall>l \<in> set (split_on (CHR 0x0A) d). \<not> is_separator l)"
  shows "yamlDecodeStream YAMLToJSON json_decode (join ([CHR 0x0A] @ ''---'' @ [CHR 0x0A]) docs) =
     bind_res (map_res (yamlDecodeString YAMLToJSON json_decode) docs) (\<lambda>vs. Inr (SList False vs))"
proof -
  have ne: "d \<noteq> []" if "trim_space d \<noteq> []" for d using that by (auto simp: trim_space_def trim_right_def)
  then have docs: "\<forall>d \<in> set docs. document d" using assms(3) by (auto simp: document_def)
  have "filter (\<lambda>d. trim_space d \<noteq> []) docs = docs" using assms(3) by (auto intro: filter_True)
  moreover have "trim_space (join separator docs) \<noteq> []"
    using assms(3) set_join [of "hd docs" docs separator] hd_in_set [OF assms(1)]
    unfolding trim_space_eq_Nil by (meson subset_trans)
  ultimately show ?thesis
    using split_documents [OF assms(1) docs] assms(2) unfolding separator_def [symmetric]
    by (simp add: yamlDecodeStream_def Let_def maxYAMLDocuments_def)
qed

end
