(* ===== verification/Spec2Isabelle.thy ===== *)
theory Spec2Isabelle
  imports Reconciliation CacheTransparency SharedCache DictMethods TestRunner Regex Encoding Yaml Levenshtein "HOL-Library.Multiset"
begin

text \<open>
  \<^bold>\<open>function-starlark\<close> is a Crossplane composition function: it runs a Starlark script that composes
  resources, and turns what the script recorded into the response of the function. This development
  models the Go code around the interpreter and proves what the response contains, when resources
  are withheld, what the builtins compute, and which errors they raise.

  \<^bold>\<open>How the parts interact.\<close> \<^verbatim>\<open>RunFunction\<close> (\<^verbatim>\<open>fn.go\<close>) finds the script, inline or in a ConfigMap, and
  converts the request to Starlark values (\<^verbatim>\<open>convert/\<close>). It scans the script for modules in OCI
  registries, fetches them with everything they load (\<^verbatim>\<open>runtime/oci/\<close>), and gives them to the module loader
  (\<^verbatim>\<open>runtime/loader.go\<close>), which expands star imports and loads modules while the script runs
  (\<^verbatim>\<open>runtime/runtime.go\<close>) with the builtins as globals. Then it works on what the builtins recorded in their
  collectors: it validates the dependency pairs, adds Usage resources, withholds resources whose
  dependencies are not ready, sets the TTL, and writes desired resources, composite status,
  conditions, events, context, connection details and requirements to the response.

  \<^bold>\<open>Theories.\<close>
  \<^item> \<open>Prelude\<close>: string functions of Go (prefix, suffix, split, join, trim), the error monad
    (\<open>bind_res\<close>, \<open>map_res\<close>), association lists for Go maps whose order is observable, and the locale \<open>memo\<close>: a
    memoising lookup whose answers are sound answers like the function it memoises. The bytecode cache
    and the cache of regular expressions rest on it.
  \<^item> \<open>Proto\<close>: \<^verbatim>\<open>structpb\<close> values with their getters.
  \<^item> \<open>Sequencer\<close> (\<^verbatim>\<open>builtins/sequencer.go\<close>): readiness of observed resources, field paths,
    \<^verbatim>\<open>Evaluate\<close>. The locale \<open>readiness\<close> is the contract between a readiness test and the reasons it
    prints.
  \<^item> \<open>Graph\<close>, \<open>Dependencies\<close> (\<^verbatim>\<open>builtins/usage.go\<close>, \<^verbatim>\<open>ValidateDependencies\<close>): finite digraphs as a
    locale, and the three-colour search with its reconstruction of the cycle.
  \<^item> \<open>Sha256\<close>, \<open>Usage\<close> (\<^verbatim>\<open>builtins/usage.go\<close>): names, label values and Usage resources for API
    versions v1 and v2.
  \<^item> \<open>Progress\<close>: rounds of reconciliation; a locale states what a sequencing policy has to promise so
    that every resource is created, and is interpreted on \<open>Evaluate\<close>.
  \<^item> \<open>Starlark\<close>, \<open>Convert\<close> (\<^verbatim>\<open>convert/convert.go\<close>): Starlark values, dicts with insertion order,
    freezing, and the conversions in both directions, lazy dicts included.
  \<^item> \<open>Schema\<close> (\<^verbatim>\<open>schema/\<close>), \<open>Levenshtein\<close> (\<^verbatim>\<open>schema/levenshtein.go\<close>): schema calls and validation,
    and the suggestion for misspelt names.
  \<^item> \<open>DictObjects\<close> (\<^verbatim>\<open>convert/starlark_dict.go\<close>, \<^verbatim>\<open>schema/schema_dict.go\<close>,
    \<^verbatim>\<open>builtins/mutable_struct.go\<close>): the three kinds of dict objects.
  \<^item> \<open>Paths\<close> (\<^verbatim>\<open>get\<close>, \<^verbatim>\<open>set_xr_status\<close>, label and condition readers), \<open>DictModule\<close>
    (\<^verbatim>\<open>builtins/dict.go\<close>), \<open>Conditions\<close> (conditions, events, connection details, TTL).
  \<^item> \<open>Collector\<close> (\<^verbatim>\<open>builtins/collector.go\<close>): \<^verbatim>\<open>Resource()\<close>, \<^verbatim>\<open>When()\<close>, \<^verbatim>\<open>skip_resource()\<close>,
    \<^verbatim>\<open>get_manifest()\<close>; the collector as a state machine.
  \<^item> \<open>ValueMethods\<close>: attributes, printing, iteration and comparison of the program's own values, and that
    mutable structs are compared field by field.
  \<^item> \<open>Requirements\<close> (extra resources), \<open>Response\<close> (the Apply functions), \<open>Pipeline\<close> (\<^verbatim>\<open>RunFunction\<close>
    after the script).
  \<^item> \<open>GoPath\<close>: Go's \<^verbatim>\<open>path\<close> and \<^verbatim>\<open>filepath\<close> (\<^verbatim>\<open>Clean\<close>, \<^verbatim>\<open>Join\<close>, \<^verbatim>\<open>IsLocal\<close>) and the segments of a path.
  \<^item> \<open>OciRef\<close>, \<open>OciCache\<close>, \<open>OciScanner\<close>, \<open>OciArtifact\<close>, \<open>OciResolver\<close> (\<^verbatim>\<open>runtime/oci/\<close>): load targets, the tag and
    content cache, the scan for OCI loads, what is extracted from an artifact, and the transitive
    resolution with its cycle check. The locale \<open>content_store\<close> is the contract of the content cache. They show
    that a resolution is closed under loading, acyclic and bounded, and how stale a tag can be.
  \<^item> \<open>ScriptRuntime\<close> (\<^verbatim>\<open>runtime/runtime.go\<close>): the bytecode cache and the end of an execution. The compiler is a
    parameter; a compiled program is a tree of load calls over the state of the outside world.
  \<^item> \<open>Concurrency\<close>: concurrent calls of \<^verbatim>\<open>getOrCompile\<close> on one runtime, split at the operations of its read-write lock, in
    every interleaving: accesses exclude each other, no call waits for ever, each is answered as if it were
    alone, and hits and misses add up. The locale \<open>interference\<close> lifts an assertion of one thread to all interleavings,
    the locale \<open>accounting\<close> a number that all threads contribute to. \<open>SharedCache\<close> does the same for \<^verbatim>\<open>resolveRef\<close> on the module
    cache, whose operations are atomic because each holds the lock of the cache.
  \<^item> \<open>Loader\<close> (\<^verbatim>\<open>runtime/loader.go\<close>): the dispatch of load targets, the rewriting of star imports, and the
    mutually recursive loading with its cycle marks. The locale \<open>run_relation\<close> lifts a relation on loader states
    from single steps to whole programs; its interpretation gives that results are never changed.
  \<^item> \<open>Frontend\<close> (\<^verbatim>\<open>fn.go\<close> before the script): script lookup, registries and keychains, the OCI phase, and
    that the loader finds what was resolved.
  \<^item> \<open>FunctionRun\<close> (\<^verbatim>\<open>RunFunction\<close> as a whole): the globals, the script phase, the response, and the runtime and
    cache that are kept between requests. It lifts the invariant of the collector through the loader and
    the interpreter to the response, shows that every request is answered, and what a failed one leaves.
  \<^item> \<open>CacheTransparency\<close>: runs of the loader that differ only in the runtime go in step, so the bytecode cache and the memo of
    sources without star imports never show in an answer.
  \<^item> \<open>Reconciliation\<close>: the function in its control loop; rounds of requests refine the rounds of \<open>Progress\<close>, so a
    composition converges.
  \<^item> \<open>Metrics\<close> (\<^verbatim>\<open>metrics/metrics.go\<close>), \<open>Process\<close> (\<^verbatim>\<open>main.go\<close>): the counters, what a request adds to them, and what the command
    line passes on. They show that every collected resource is counted once as emitted or deferred, and which
    requests are counted.
  \<^item> \<open>DictMethods\<close>: method calls and assignments in any order on the dicts that scripts get; the inputs of a script cannot be
    changed by it.
  \<^item> \<open>Codec\<close>, \<open>Digests\<close>, \<open>Encoding\<close> (\<^verbatim>\<open>builtins/encoding.go\<close>, \<^verbatim>\<open>builtins/crypto.go\<close>): Go's hexadecimal, base64 and
    base32 codecs, the hash functions, and the builtins. The locale \<open>block_code\<close> is a code that maps blocks of
    bytes to blocks of digits; base64 and base32 are its interpretations and get their round trips from it.
  \<^item> \<open>Regex\<close> (\<^verbatim>\<open>builtins/regex.go\<close>), \<open>Yaml\<close> (\<^verbatim>\<open>builtins/yaml.go\<close>): the builtins over Go's regular expressions with
    their cache, and over a YAML reader and writer, with the splitting of streams.
  \<^item> \<open>TestRunner\<close> (\<^verbatim>\<open>testrunner/\<close>): finding, running and counting tests.

  \<^bold>\<open>Conventions.\<close> A Go error is the left summand of \<open>serror + 'a\<close> (or of a sum with the component's
  own error type), a panic is \<open>None\<close>. Go maps whose iteration order does not matter are functions to
  \<open>option\<close>; maps that the code iterates over in sorted order, or whose order shows, are association
  lists. Starlark values and the objects the builtins share are passed and returned explicitly.
  Strings are byte lists. Functions of libraries (Starlark's \<^verbatim>\<open>repr\<close> and equality, the duration parser)
  are arguments of the definitions that use them.

  \<^bold>\<open>Bounds and loops.\<close> Merging and compacting stop at \<^verbatim>\<open>maxMergeDepth\<close> 32 as in the code;
  resolution stops at \<^verbatim>\<open>maxTransitiveDepth\<close> 10. \<open>walk_back\<close>, which rebuilds a cycle and need not end on its
  own, is a \<open>partial_function (option)\<close>; that it returns is part of \<open>validate_cycle_is_real\<close>. The loader's three
  mutually recursive functions take the depth of nested calls as fuel; \<open>loading_terminates\<close> shows that
  \<open>2 * (n + 1) ^ 2 + 2\<close> is enough, from every state, where \<open>n\<close> is the number of names under which modules can
  be loaded or are star-imported; \<open>request_answered\<close> is the same for the whole function. The regexp cache
  holds 64 entries and a YAML stream 256 documents, as in the code. All other recursive definitions
  are total. The execution of a script is a finite tree: the function limits its steps, and that test files
  and tests end is assumed of the interpreter where it is needed.

  \<^bold>\<open>Not modelled.\<close> The Starlark compiler, interpreter and parser, the registry client, the reader of Docker
  configurations, tar, JSON and YAML codecs, BLAKE3 and the matching of regular expressions are other
  people's code; logging, the parsing of flags, the gRPC server and generated deep copies have no logic of the
  function's own, and of durations only the number of observations is kept. Accessors that return copies of a collector's
  maps and lists are the fields of the records here, which have values and no aliases. \<open>FunctionRun\<close> handles requests one at a time;
  what concurrent requests share are the bytecode cache and the module cache, whose interleavings are
  in \<open>Concurrency\<close> and \<open>SharedCache\<close>, and the cache of regular expressions and the memo of sources without star imports, whose operations
  hold their lock throughout.
\<close>

section \<open>Dependency validation\<close>

text \<open>
  C1. \<^verbatim>\<open>ValidateDependencies\<close> accepts a set of dependency pairs exactly when every
  \<^verbatim>\<open>ResourceRef\<close> dependency names a resource of the script and the dependency graph has no cycle.
\<close>

theorem validate_accepts_iff:
  "ValidateDependencies deps names = Inr () \<longleftrightarrow>
     (\<forall>d \<in> set deps. IsRef d \<longrightarrow> Dependency d \<in> set names) \<and> acyclic (dep_rel deps)"
  by (rule ValidateDependencies_ok_iff)

theorem validate_accepts_iff_witness:
  "ValidateDependencies [ex_pair ''b'' ''a'', ex_pair ''c'' ''b''] [''a'', ''b'', ''c''] = Inr () \<and>
   acyclic (dep_rel [ex_pair ''b'' ''a'', ex_pair ''c'' ''b''])"
proof -
  have ok: "ValidateDependencies [ex_pair ''b'' ''a'', ex_pair ''c'' ''b''] [''a'', ''b'', ''c''] = Inr ()"
    by code_simp
  with validate_accepts_iff [of "[ex_pair ''b'' ''a'', ex_pair ''c'' ''b'']" "[''a'', ''b'', ''c'']"]
  show ?thesis by blast
qed

text \<open>
  C27. A circular-dependency error is never spurious, and the loop that rebuilds the path from the
  parent links always ends: the reported path starts and ends at the same resource and follows
  dependency pairs of the script.
\<close>

theorem validate_cycle_is_real:
  assumes "ValidateDependencies deps names = Inl (Circular p)"
  shows "\<exists>c. p = Some c \<and> 2 \<le> length c \<and> hd c = last c \<and>
     (\<forall>i. Suc i < length c \<longrightarrow> (\<exists>d \<in> set deps. Dependent d = c ! i \<and> Dependency d = c ! Suc i))"
proof -
  from ValidateDependencies_cases [of deps names] assms
  obtain c where c: "p = Some c" "is_cycle (dep_rel deps) c" by auto
  then have "2 \<le> length c \<and> hd c = last c" by (simp add: is_cycle_def)
  moreover have "(c ! i, c ! Suc i) \<in> dep_rel deps" if "Suc i < length c" for i
    using c(2) that by (simp add: is_cycle_def successively_conv_nth)
  ultimately show ?thesis using c(1) by (fastforce simp: dep_rel_def)
qed

theorem validate_cycle_is_real_witness:
  "\<exists>c. Some [''a'', ''b'', ''a''] = Some c \<and> 2 \<le> length c \<and> hd c = last c \<and>
     (\<forall>i. Suc i < length c \<longrightarrow>
        (\<exists>d \<in> set [ex_pair ''b'' ''a'', ex_pair ''a'' ''b'']. Dependent d = c ! i \<and> Dependency d = c ! Suc i))"
proof -
  have "ValidateDependencies [ex_pair ''b'' ''a'', ex_pair ''a'' ''b''] [''a'', ''b''] =
      Inl (Circular (Some [''a'', ''b'', ''a'']))"
    by code_simp
  from validate_cycle_is_real [OF this] show ?thesis .
qed

text \<open>
  A missing-target error names the first pair whose reference has no resource, and lists the
  resources of the script in sorted order.
\<close>

theorem validate_missing_target:
  assumes "ValidateDependencies deps names = Inl (MissingTarget x y avail)"
  shows "\<exists>ds d es. deps = ds @ d # es \<and> Dependent d = x \<and> Dependency d = y \<and> IsRef d \<and>
     y \<notin> set names \<and> (\<forall>e \<in> set ds. IsRef e \<longrightarrow> Dependency e \<in> set names) \<and>
     sorted avail \<and> mset avail = mset names"
proof -
  have "missing_target deps names = Some (MissingTarget x y avail)"
    using ValidateDependencies_cases [of deps names] assms by simp
  from missing_target_Some [OF this] show ?thesis
    by (metis dep_error.inject(1) missing_target_None_iff mset_sort sorted_sort)
qed

section \<open>Sequencing\<close>

text \<open>
  Creation sequencing cannot deadlock on a script that passed validation: as long as a resource of the
  script is missing, the next round creates one, provided that what is observed has become ready and that
  string references name resources of the script or of the cluster.
\<close>

theorem sequencing_no_deadlock:
  assumes "ValidateDependencies deps names = Inr ()"
    and "\<And>d. d \<in> set deps \<Longrightarrow> \<not> IsRef d \<Longrightarrow> Dependency d \<in> set names \<or> obs (Dependency d) \<noteq> None"
    and "\<And>d. d \<in> set deps \<Longrightarrow> obs (Dependency d) \<noteq> None \<Longrightarrow> dep_met obs d"
    and "n \<in> set names" and "obs n = None"
  shows "\<exists>m. m \<in> set names \<and> obs m = None \<and> m \<notin> set (Deferred (Evaluate (NewSequencer deps names obs ttl)))"
proof -
  from assms(1) have ok: "\<forall>d \<in> set deps. IsRef d \<longrightarrow> Dependency d \<in> set names" "acyclic (dep_rel deps)"
    by (simp_all add: ValidateDependencies_ok_iff)
  show ?thesis
    by (rule seq.some_emitted [of deps "set names" obs n names ttl]) (use ok assms(2-5) in blast)+
qed

text \<open>
  Sequenced creation converges: if every round creates what was not withheld and what exists becomes
  ready, then after as many rounds as resources were missing every resource of the script is observed.
\<close>

theorem sequencing_converges:
  assumes "ValidateDependencies deps names = Inr ()"
    and "\<And>d. d \<in> set deps \<Longrightarrow> Dependency d \<in> set names"
    and "\<And>d. d \<in> set deps \<Longrightarrow> obs (Dependency d) \<noteq> None \<Longrightarrow> dep_met obs d"
    and "(reconciled deps names ttl ^^ k) obs obs'"
    and "card {n \<in> set names. obs n = None} \<le> k"
    and "n \<in> set names"
  shows "obs' n \<noteq> None"
proof -
  from assms(1) have "acyclic (dep_rel deps)" by (simp add: ValidateDependencies_ok_iff)
  from reconciled_converges [OF assms(4) this assms(2,3)] assms(5) have "missing names obs' = {}"
    by (simp add: missing_def)
  with assms(6) show ?thesis by (auto simp: missing_def)
qed

section \<open>Usages\<close>

text \<open>
  C35. Usages and sequencing agree: a Usage that is created in this round (and is not kept from an earlier
  one) protects a pair whose dependent is observed, hence not withheld, and whose dependency is met.
\<close>

theorem new_usage_not_premature:
  assumes "nm \<in> fst ` set (BuildUsageResources deps apiVersion resources obs)"
    and "usageAlreadyCreated nm obs = None"
  shows "\<exists>d. d \<in> set deps \<and> nm = usageName (Dependent d) (Dependency d) \<and> dep_met obs d \<and>
     isObservedReady (obs_at obs (Dependent d)) \<and>
     Dependent d \<notin> set (Deferred (Evaluate (NewSequencer deps names obs ttl)))"
proof -
  from assms obtain d where d: "d \<in> set deps" "usageName (Dependent d) (Dependency d) = nm"
    and r: "usagePairReady d obs"
    unfolding BuildUsageResources_def keys_usageResources usageOfPair_None_iff by auto
  from r have ready: "isObservedReady (obs_at obs (Dependent d))" by (simp add: usagePairReady_iff)
  then obtain s where "obs_at obs (Dependent d) = Some s" using rdy.ready_observed by blast
  then have "obs (Dependent d) \<noteq> None" by (simp add: obs_at_Some)
  with d ready usagePairReady_met [OF r] show ?thesis
    by (intro exI [of _ d]) (simp add: seq.observed_never_deferred)
qed

theorem new_usage_not_premature_witness:
  "\<exists>d. d \<in> set [ex_pair ''b'' ''a''] \<and> usageName ''b'' ''a'' = usageName (Dependent d) (Dependency d) \<and>
     dep_met (\<lambda>_. Some (Some ex_ready_body)) d"
proof -
  let ?obs = "\<lambda>_ :: string. Some (Some ex_ready_body)"
  have at: "obs_at ?obs n = Some ex_ready_body" for n by (simp add: obs_at_def)
  have none: "usageAlreadyCreated (usageName ''b'' ''a'') ?obs = None"
    unfolding usageAlreadyCreated_def at by (simp add: ex_ready_body_def)
  have "usagePairReady (ex_pair ''b'' ''a'') ?obs" by (simp add: usagePairReady_iff at ex_ready)
  then have "usageName ''b'' ''a'' \<in> fst ` set (BuildUsageResources [ex_pair ''b'' ''a''] UsageAPIVersionV2 [] ?obs)"
    unfolding BuildUsageResources_def keys_usageResources usageOfPair_None_iff by auto
  from new_usage_not_premature [OF this none] show ?thesis by blast
qed

text \<open>
  The selectors of a Usage find the two resources of the pair: each selector asks for the label value
  that \<^verbatim>\<open>Resource()\<close> stamps on the body of the resource of that name, whatever labels the script gave it.
\<close>

theorem usage_selects_resource:
  assumes "usageOfPair apiVersion info obs d = Some body"
  shows "psub (psub (psub (psub (pfield body ''spec'') ''by'') ''resourceSelector'') ''matchLabels'') ResourceNameLabel =
       psub (psub (pfield (injectNameLabel s1 (Dependent d)) ''metadata'') ''labels'') ResourceNameLabel \<and>
     psub (psub (psub (psub (pfield body ''spec'') ''of'') ''resourceSelector'') ''matchLabels'') ResourceNameLabel =
       psub (psub (pfield (injectNameLabel s2 (Dependency d)) ''metadata'') ''labels'') ResourceNameLabel"
  using assms
  by (auto simp: usageOfPair_def Let_def buildUsageResource_fields usageSelector_fields name_label split: if_splits)

section \<open>Globals\<close>

text \<open>
  The \<^verbatim>\<open>observed\<close> global cannot be changed by a script at any depth, holds exactly the observed resources
  of the request, and reading one of them gives its body.
\<close>

theorem observed_global:
  assumes "distinct (map fst resources)"
  shows "deep_frozen (BuildObservedDict resources) \<and>
     sd_Get (BuildObservedDict resources) (SString n) =
       Inr (map_option (SLazyDict True) (map_of resources n))"
proof -
  let ?its = "map (\<lambda>(n, body). (SString n, SLazyDict False body)) resources"
  have get: "dict_get (map (\<lambda>(n, body). (SString n, SLazyDict f body)) rs) (SString m) =
      map_option (SLazyDict f) (map_of rs m)" for f rs m
    by (induction rs) auto
  have "dict_wf ?its"
    using assms by (simp add: dict_wf_def comp_def case_prod_beta distinct_map inj_on_def)
  then have "BuildObservedDict resources =
      SStarlarkDict True (map (\<lambda>(n, body). (SString n, SLazyDict True body)) resources)"
    by (simp add: BuildObservedDict_def dict_update_Nil case_prod_beta comp_def)
  moreover have "deep_frozen (BuildObservedDict resources)"
    unfolding BuildObservedDict_def by (rule freeze_deep_frozen)
  ultimately show ?thesis using get by simp
qed

end
